(* ===== verification/Prelude.thy ===== *)
theory Prelude
  imports Main "HOL-Library.Word" "HOL-Library.Finite_Map"
begin

section \<open>Shared vocabulary of the development\<close>

text \<open>
  What every component uses: results that may be an exception, the object tables of
  \<^verbatim>\<open>libraries/db\<close> (\<^verbatim>\<open>generic_index\<close>), sums over finite maps, the two's
  complement reading of a 64-bit integer, and the interface of the libraries \<^verbatim>\<open>fc\<close> and
  \<^verbatim>\<open>boost::multiprecision\<close>.

  \<^item> An exception (\<^verbatim>\<open>FC_ASSERT\<close>, \<^verbatim>\<open>FC_THROW\<close>, a failed lookup, an overflow of
    \<^verbatim>\<open>fc::safe\<close>) is the \<open>Inl\<close> side of a \<open>result\<close>; \<open>ebind\<close> is "go on unless
    an exception was thrown".
  \<^item> \<^verbatim>\<open>fc\<close> is a git submodule whose code is not part of the repository. Its
    \<^verbatim>\<open>safe<int64_t>\<close>, \<^verbatim>\<open>uint128\<close> and \<^verbatim>\<open>time_point_sec\<close> operations, and the
    \<^verbatim>\<open>uint128_t\<close> of \<^verbatim>\<open>boost::multiprecision\<close> (the fields \<open>mp_\<close>), are the fields of the record \<open>fc_lib\<close>, a parameter \<open>F\<close> of every definition that uses one;
    the locale \<open>fc_laws\<close> states what the code relies on.
\<close>

named_theorems result_simps \<open>equations that take results apart\<close>
named_theorems table_simps \<open>lookups and sums after an operation on a table\<close>

subsection \<open>Results\<close>

datatype error =
    Assert_failed string
  | Overflow
  | Missing_object
  | Unique_violation
  | Thrown string
  | Undefined

type_synonym 'a result = "error + 'a"

definition ebind :: "'a result \<Rightarrow> ('a \<Rightarrow> 'b result) \<Rightarrow> 'b result" where
  "ebind r f = (case r of Inl e \<Rightarrow> Inl e | Inr x \<Rightarrow> f x)"

definition fc_assert :: "bool \<Rightarrow> string \<Rightarrow> unit result" where
  "fc_assert b msg = (if b then Inr () else Inl (Assert_failed msg))"

definition emap :: "('a \<Rightarrow> 'b) \<Rightarrow> 'a result \<Rightarrow> 'b result" where
  "emap f r = ebind r (\<lambda>x. Inr (f x))"

definition the_result :: "'a option \<Rightarrow> 'a result" where
  "the_result x = (case x of None \<Rightarrow> Inl Missing_object | Some y \<Rightarrow> Inr y)"

fun efold :: "('a \<Rightarrow> 's \<Rightarrow> 's result) \<Rightarrow> 'a list \<Rightarrow> 's \<Rightarrow> 's result" where
  "efold f [] s = Inr s"
| "efold f (x # xs) s = ebind (f x s) (efold f xs)"

text \<open>\<open>is_ok r\<close>: the call returned, it did not throw.\<close>

definition is_ok :: "'a result \<Rightarrow> bool" where
  "is_ok r = (case r of Inl _ \<Rightarrow> False | Inr _ \<Rightarrow> True)"

subsection \<open>Object tables\<close>

text \<open>
  A \<^verbatim>\<open>generic_index\<close> holds the objects of one type by instance number and the next
  number to give out. \<open>clash\<close> tells when two objects collide in one of the container's
  other unique indices: \<^verbatim>\<open>create\<close>, \<^verbatim>\<open>insert\<close> and \<^verbatim>\<open>modify\<close> throw then. A result that throws
  has no table: what a failed operation leaves behind is taken back by the session it runs in. For
  \<^verbatim>\<open>modify\<close> that is not enough in the code, because the container erases an object whose new
  keys collide, and taking the session back does not find the object again.
\<close>

record 'a table =
  next_id :: nat
  objs :: "(nat, 'a) fmap"

definition empty_table :: "'a table" where
  "empty_table = \<lparr>next_id = 0, objs = fmempty\<rparr>"

definition no_clash :: "'a \<Rightarrow> 'a \<Rightarrow> bool" where
  "no_clash x y = False"

definition tbl_find :: "'a table \<Rightarrow> nat \<Rightarrow> 'a option" where
  "tbl_find t i = fmlookup (objs t) i"

definition tbl_get :: "'a table \<Rightarrow> nat \<Rightarrow> 'a result" where
  "tbl_get t i = the_result (tbl_find t i)"

definition tbl_insert :: "('a \<Rightarrow> 'a \<Rightarrow> bool) \<Rightarrow> 'a table \<Rightarrow> nat \<Rightarrow> 'a \<Rightarrow> 'a table result" where
  "tbl_insert clash t i x =
     (if i |\<in>| fmdom (objs t) \<or> \<not> fmpred (\<lambda>_ y. \<not> clash x y) (objs t)
      then Inl Unique_violation
      else Inr (t\<lparr>objs := fmupd i x (objs t)\<rparr>))"

definition tbl_create :: "('a \<Rightarrow> 'a \<Rightarrow> bool) \<Rightarrow> 'a table \<Rightarrow> 'a \<Rightarrow> (nat \<times> 'a table) result" where
  "tbl_create clash t x =
     (let i = next_id t in
      ebind (tbl_insert clash t i x) (\<lambda>t'. Inr (i, t'\<lparr>next_id := Suc i\<rparr>)))"

definition tbl_modify :: "('a \<Rightarrow> 'a \<Rightarrow> bool) \<Rightarrow> 'a table \<Rightarrow> nat \<Rightarrow> ('a \<Rightarrow> 'a) \<Rightarrow> 'a table result" where
  "tbl_modify clash t i m =
     ebind (tbl_get t i) (\<lambda>x.
       if fmpred (\<lambda>_ y. \<not> clash (m x) y) (fmdrop i (objs t))
       then Inr (t\<lparr>objs := fmupd i (m x) (objs t)\<rparr>)
       else Inl Unique_violation)"

definition tbl_remove :: "'a table \<Rightarrow> nat \<Rightarrow> 'a table" where
  "tbl_remove t i = t\<lparr>objs := fmdrop i (objs t)\<rparr>"

subsection \<open>Sums over finite maps\<close>

definition fm_sum :: "('k \<Rightarrow> 'v \<Rightarrow> int) \<Rightarrow> ('k, 'v) fmap \<Rightarrow> int" where
  "fm_sum f m = (\<Sum>k\<in>fmdom' m. f k (the (fmlookup m k)))"

definition tbl_sum :: "('a \<Rightarrow> int) \<Rightarrow> 'a table \<Rightarrow> int" where
  "tbl_sum f t = fm_sum (\<lambda>_. f) (objs t)"

subsection \<open>Machine integers\<close>

text \<open>
  \<open>wrap64 x\<close> is the value of an \<^verbatim>\<open>int64_t\<close> that receives the bits of \<open>x\<close>;
  \<open>in_int64 x\<close> says that \<open>x\<close> is representable.
\<close>

definition wrap64 :: "int \<Rightarrow> int" where
  "wrap64 x = (x + 2 ^ 63) mod 2 ^ 64 - 2 ^ 63"

definition in_int64 :: "int \<Rightarrow> bool" where
  "in_int64 x \<longleftrightarrow> - (2 ^ 63) \<le> x \<and> x < 2 ^ 63"

subsection \<open>The fc library\<close>

text \<open>
  The operations of \<^verbatim>\<open>fc::safe<int64_t>\<close> may throw; those of \<^verbatim>\<open>fc::uint128\<close> and of
  \<^verbatim>\<open>boost::multiprecision::uint128_t\<close> work on a number below \<open>2 ^ 128\<close>;
  \<^verbatim>\<open>to_integer\<close> throws on more than 32 bits; \<^verbatim>\<open>time_point_sec\<close> counts seconds.
\<close>

record fc_lib =
  safe_add :: "int \<Rightarrow> int \<Rightarrow> int result"
  safe_sub :: "int \<Rightarrow> int \<Rightarrow> int result"
  safe_mul :: "int \<Rightarrow> int \<Rightarrow> int result"
  safe_neg :: "int \<Rightarrow> int result"
  u128_of_i64 :: "int \<Rightarrow> nat"
  u128_add :: "nat \<Rightarrow> nat \<Rightarrow> nat"
  u128_sub :: "nat \<Rightarrow> nat \<Rightarrow> nat"
  u128_mul :: "nat \<Rightarrow> nat \<Rightarrow> nat"
  u128_div :: "nat \<Rightarrow> nat \<Rightarrow> nat"
  u128_to_u64 :: "nat \<Rightarrow> nat result"
  u128_to_u32 :: "nat \<Rightarrow> nat result"
  u128_shl :: "nat \<Rightarrow> nat \<Rightarrow> nat"
  u128_popcount :: "nat \<Rightarrow> nat"
  mp_of_i64 :: "int \<Rightarrow> nat"
  mp_mul :: "nat \<Rightarrow> nat \<Rightarrow> nat"
  mp_div :: "nat \<Rightarrow> nat \<Rightarrow> nat"
  mp_to_i64 :: "nat \<Rightarrow> int"
  tps_add :: "nat \<Rightarrow> nat \<Rightarrow> nat"
  tps_diff :: "nat \<Rightarrow> nat \<Rightarrow> int"

definition safe_check :: "int \<Rightarrow> int result" where
  "safe_check x = (if in_int64 x then Inr x else Inl Overflow)"

text \<open>
  The laws: \<^verbatim>\<open>safe\<close> computes exactly or throws, \<^verbatim>\<open>uint128\<close> is exact where the
  result fits its 128 bits, and times are added and subtracted exactly where the sum fits the
  32 bits of a \<^verbatim>\<open>time_point_sec\<close>.
\<close>

locale fc_laws =
  fixes F :: fc_lib
  assumes safe_add: "safe_add F a b = safe_check (a + b)"
    and safe_sub: "safe_sub F a b = safe_check (a - b)"
    and safe_mul: "safe_mul F a b = safe_check (a * b)"
    and safe_neg: "safe_neg F a = safe_check (- a)"
    and u128_of_i64: "0 \<le> a \<Longrightarrow> in_int64 a \<Longrightarrow> u128_of_i64 F a = nat a"
    and u128_add: "m + n < 2 ^ 128 \<Longrightarrow> u128_add F m n = m + n"
    and u128_sub: "n \<le> m \<Longrightarrow> m < 2 ^ 128 \<Longrightarrow> u128_sub F m n = m - n"
    and u128_mul: "m * n < 2 ^ 128 \<Longrightarrow> u128_mul F m n = m * n"
    and u128_div: "0 < n \<Longrightarrow> m < 2 ^ 128 \<Longrightarrow> u128_div F m n = m div n"
    and u128_to_u64: "m < 2 ^ 64 \<Longrightarrow> u128_to_u64 F m = Inr m"
    and u128_to_u32: "m < 2 ^ 32 \<Longrightarrow> u128_to_u32 F m = Inr m"
    and u128_shl: "m < 2 ^ 128 \<Longrightarrow> u128_shl F m n = m * 2 ^ n mod 2 ^ 128"
    and u128_popcount: "m < 2 ^ 128 \<Longrightarrow> u128_popcount F m = card {i. i < 128 \<and> bit m i}"
    and mp_of_i64: "0 \<le> a \<Longrightarrow> in_int64 a \<Longrightarrow> mp_of_i64 F a = nat a"
    and mp_mul: "m * n < 2 ^ 128 \<Longrightarrow> mp_mul F m n = m * n"
    and mp_div: "0 < n \<Longrightarrow> m < 2 ^ 128 \<Longrightarrow> mp_div F m n = m div n"
    and mp_to_i64: "m < 2 ^ 63 \<Longrightarrow> mp_to_i64 F m = int m"
    and tps_add: "m + n < 2 ^ 32 \<Longrightarrow> tps_add F m n = m + n"
    and tps_diff: "tps_diff F m n = int m - int n"

text \<open>An implementation of the interface, on which the witnesses evaluate.\<close>

definition checked_fc :: fc_lib where
  "checked_fc = \<lparr>
     safe_add = (\<lambda>a b. safe_check (a + b)),
     safe_sub = (\<lambda>a b. safe_check (a - b)),
     safe_mul = (\<lambda>a b. safe_check (a * b)),
     safe_neg = (\<lambda>a. safe_check (- a)),
     u128_of_i64 = (\<lambda>a. nat (a mod 2 ^ 128)),
     u128_add = (\<lambda>m n. (m + n) mod 2 ^ 128),
     u128_sub = (\<lambda>m n. nat ((int m - int n) mod 2 ^ 128)),
     u128_mul = (\<lambda>m n. (m * n) mod 2 ^ 128),
     u128_div = (\<lambda>m n. m div n),
     u128_to_u64 = (\<lambda>m. if m < 2 ^ 64 then Inr m else Inl (Assert_failed ''to_uint64'')),
     u128_to_u32 = (\<lambda>m. if m < 2 ^ 32 then Inr m else Inl (Assert_failed ''to_integer'')),
     u128_shl = (\<lambda>m n. m * 2 ^ n mod 2 ^ 128),
     u128_popcount = (\<lambda>m. length (filter (bit m) [0..<128])),
     mp_of_i64 = (\<lambda>a. nat (a mod 2 ^ 128)),
     mp_mul = (\<lambda>m n. (m * n) mod 2 ^ 128),
     mp_div = (\<lambda>m n. m div n),
     mp_to_i64 = (\<lambda>m. wrap64 (int m)),
     tps_add = (\<lambda>m n. (m + n) mod 2 ^ 32),
     tps_diff = (\<lambda>m n. int m - int n)\<rparr>"

subsection \<open>Unique keys\<close>

text \<open>
  What the unique indices of a container give its users: as long as every change goes through the
  operations of the table, no two objects collide.
\<close>

definition tbl_unique :: "('a \<Rightarrow> 'a \<Rightarrow> bool) \<Rightarrow> 'a table \<Rightarrow> bool" where
  "tbl_unique clash t \<longleftrightarrow>
     (\<forall>i j x y. tbl_find t i = Some x \<and> tbl_find t j = Some y \<and> clash x y \<longrightarrow> i = j)"

locale unique_key =
  fixes clash :: "'a \<Rightarrow> 'a \<Rightarrow> bool"
  assumes clash_sym: "clash x y \<Longrightarrow> clash y x"
begin

lemma create_unique:
  "tbl_unique clash t \<Longrightarrow> tbl_create clash t x = Inr (i, t') \<Longrightarrow> tbl_unique clash t'"
  by (auto simp: tbl_unique_def tbl_create_def tbl_insert_def tbl_find_def Let_def fmpred_iff ebind_def
      split: if_splits sum.splits) (metis clash_sym)+

lemma modify_unique:
  "tbl_unique clash t \<Longrightarrow> tbl_modify clash t i m = Inr t' \<Longrightarrow> tbl_unique clash t'"
  by (auto simp: tbl_unique_def tbl_modify_def tbl_get_def the_result_def tbl_find_def fmpred_iff ebind_def
      split: if_splits sum.splits option.splits) (metis clash_sym)+

lemma remove_unique: "tbl_unique clash t \<Longrightarrow> tbl_unique clash (tbl_remove t i)"
  by (auto simp: tbl_unique_def tbl_remove_def tbl_find_def split: if_splits)

end

section \<open>Lemmas\<close>

subsection \<open>Taking results apart\<close>

lemma ebind_Inr [simp]: "ebind (Inr x) f = f x"
  by (simp add: ebind_def)

lemma ebind_Inl [simp]: "ebind (Inl e) f = Inl e"
  by (simp add: ebind_def)

lemma ebind_eq_Inr [simp, result_simps]:
  "ebind r f = Inr y \<longleftrightarrow> (\<exists>x. r = Inr x \<and> f x = Inr y)"
  by (cases r) auto

lemma ebind_eq_Inl: "ebind r f = Inl e \<longleftrightarrow> r = Inl e \<or> (\<exists>x. r = Inr x \<and> f x = Inl e)"
  by (cases r) auto

lemma ebind_assoc: "ebind (ebind r f) g = ebind r (\<lambda>x. ebind (f x) g)"
  by (cases r) auto

lemma ebind_cong [fundef_cong]:
  "r = r' \<Longrightarrow> (\<And>x. r' = Inr x \<Longrightarrow> f x = g x) \<Longrightarrow> ebind r f = ebind r' g"
  by (cases r') auto

lemma fc_assert_eq_Inr [simp, result_simps]: "fc_assert b msg = Inr u \<longleftrightarrow> b"
  by (simp add: fc_assert_def)

lemma fc_assert_True [simp]: "fc_assert True msg = Inr ()"
  by (simp add: fc_assert_def)

lemma fc_assert_False [simp]: "fc_assert False msg = Inl (Assert_failed msg)"
  by (simp add: fc_assert_def)

lemma emap_eq_Inr [simp, result_simps]: "emap f r = Inr y \<longleftrightarrow> (\<exists>x. r = Inr x \<and> y = f x)"
  by (auto simp: emap_def)

lemma emap_Inr [simp]: "emap f (Inr x) = Inr (f x)"
  by (simp add: emap_def)

lemma emap_Inl [simp]: "emap f (Inl e) = Inl e"
  by (simp add: emap_def)

lemma the_result_eq_Inr [simp, result_simps]: "the_result x = Inr y \<longleftrightarrow> x = Some y"
  by (auto simp: the_result_def split: option.splits)

lemma the_result_Some [simp]: "the_result (Some y) = Inr y"
  by (simp add: the_result_def)

lemma the_result_None [simp]: "the_result None = Inl Missing_object"
  by (simp add: the_result_def)

lemma is_ok_simps [simp]: "is_ok (Inr x)" "\<not> is_ok (Inl e)"
  by (simp_all add: is_ok_def)

lemma is_ok_iff: "is_ok r \<longleftrightarrow> (\<exists>x. r = Inr x)"
  by (cases r) auto

lemma efold_append: "efold f (xs @ ys) s = ebind (efold f xs s) (efold f ys)"
  by (induction xs arbitrary: s) (auto simp: ebind_assoc intro: ebind_cong)

text \<open>A relation between states that every step respects holds across a loop.\<close>

lemma efold_rel:
  assumes step: "\<And>x s s'. x \<in> set xs \<Longrightarrow> f x s = Inr s' \<Longrightarrow> R s s'"
    and refl: "\<And>s. R s s" and trans: "\<And>a b c. R a b \<Longrightarrow> R b c \<Longrightarrow> R a c"
    and run: "efold f xs s = Inr s'"
  shows "R s s'"
  using step run
proof (induction xs arbitrary: s)
  case Nil
  then show ?case by (simp add: refl)
next
  case (Cons x xs)
  then obtain m where "f x s = Inr m" and "efold f xs m = Inr s'" by auto
  with Cons have "R s m" and "R m s'" by auto
  then show ?case by (rule trans)
qed

subsection \<open>Sums over finite maps\<close>

lemma fm_sum_empty [simp]: "fm_sum f fmempty = 0"
  by (simp add: fm_sum_def)

lemma fm_sum_upd: "fm_sum f (fmupd k v m) = fm_sum f (fmdrop k m) + f k v"
proof -
  have "(\<Sum>j\<in>fmdom' m - {k}. f j (the (fmlookup (fmupd k v m) j))) =
        (\<Sum>j\<in>fmdom' m - {k}. f j (the (fmlookup (fmdrop k m) j)))"
    by (rule sum.cong) auto
  moreover have "finite (fmdom' m)" by simp
  ultimately show ?thesis
    by (simp add: fm_sum_def sum.insert_remove)
qed

lemma fm_sum_drop:
  "fm_sum f (fmdrop k m) = fm_sum f m - (case fmlookup m k of None \<Rightarrow> 0 | Some v \<Rightarrow> f k v)"
proof (cases "fmlookup m k")
  case None
  then have "fmdrop k m = m" by (intro fmap_ext) auto
  with None show ?thesis by simp
next
  case (Some v)
  then have "m = fmupd k v m" by (intro fmap_ext) auto
  then have "fm_sum f m = fm_sum f (fmdrop k m) + f k v" by (metis fm_sum_upd)
  with Some show ?thesis by simp
qed

lemma fm_sum_nonneg: "(\<And>k v. fmlookup m k = Some v \<Longrightarrow> 0 \<le> f k v) \<Longrightarrow> 0 \<le> fm_sum f m"
  unfolding fm_sum_def by (rule sum_nonneg) (auto simp: fmlookup_dom'_iff)

lemma fm_sum_mono:
  "(\<And>k v. fmlookup m k = Some v \<Longrightarrow> f k v \<le> g k v) \<Longrightarrow> fm_sum f m \<le> fm_sum g m"
  unfolding fm_sum_def by (rule sum_mono) (auto simp: fmlookup_dom'_iff)

lemma fm_sum_cong:
  "(\<And>k v. fmlookup m k = Some v \<Longrightarrow> f k v = g k v) \<Longrightarrow> fm_sum f m = fm_sum g m"
  unfolding fm_sum_def by (rule sum.cong) (auto simp: fmlookup_dom'_iff)

lemma fmpred_triv [simp]: "fmpred (\<lambda>_ _. True) m"
  by (simp add: fmpred_iff)

lemma fmpred_upd_iff: "fmpred P (fmupd k v m) \<longleftrightarrow> P k v \<and> fmpred P (fmdrop k m)"
  by (auto simp: fmpred_iff split: if_splits)

subsection \<open>Tables\<close>

lemma tbl_get_eq_Inr [simp, result_simps]: "tbl_get t i = Inr x \<longleftrightarrow> tbl_find t i = Some x"
  by (simp add: tbl_get_def)

lemma tbl_find_empty [simp]: "tbl_find empty_table i = None"
  by (simp add: tbl_find_def empty_table_def)

lemma tbl_sum_empty [simp]: "tbl_sum f empty_table = 0"
  by (simp add: tbl_sum_def empty_table_def)

text \<open>The contract of the three operations that change a table.\<close>

lemma tbl_create_find:
  "tbl_create c t x = Inr (i, t') \<Longrightarrow> tbl_find t' j = (if j = i then Some x else tbl_find t j)"
  by (auto simp: tbl_create_def tbl_insert_def tbl_find_def Let_def split: if_splits)

lemma tbl_create_fresh: "tbl_create c t x = Inr (i, t') \<Longrightarrow> tbl_find t i = None"
  by (auto simp: tbl_create_def tbl_insert_def tbl_find_def Let_def fmdom_notD split: if_splits)

lemma tbl_create_id:
  "tbl_create c t x = Inr (i, t') \<Longrightarrow> i = next_id t \<and> next_id t' = Suc (next_id t)"
  by (auto simp: tbl_create_def tbl_insert_def Let_def split: if_splits)

lemma tbl_create_sum: "tbl_create c t x = Inr (i, t') \<Longrightarrow> tbl_sum f t' = tbl_sum f t + f x"
  by (auto simp: tbl_create_def tbl_insert_def tbl_sum_def Let_def fm_sum_upd fm_sum_drop fmdom_notD
      split: if_splits)

lemma tbl_modify_find:
  "tbl_modify c t i m = Inr t' \<Longrightarrow>
   tbl_find t' j = (if j = i then map_option m (tbl_find t i) else tbl_find t j)"
  by (auto simp: tbl_modify_def tbl_find_def split: if_splits)

lemma tbl_modify_exists: "tbl_modify c t i m = Inr t' \<Longrightarrow> \<exists>x. tbl_find t i = Some x"
  by (auto simp: tbl_modify_def)

lemma tbl_modify_next_id: "tbl_modify c t i m = Inr t' \<Longrightarrow> next_id t' = next_id t"
  by (auto simp: tbl_modify_def split: if_splits)

lemma tbl_modify_sum:
  "tbl_modify c t i m = Inr t' \<Longrightarrow> tbl_find t i = Some x \<Longrightarrow>
   tbl_sum f t' = tbl_sum f t - f x + f (m x)"
  by (auto simp: tbl_modify_def tbl_sum_def tbl_find_def fm_sum_upd fm_sum_drop split: if_splits)

lemma tbl_modify_sum_same:
  "tbl_modify c t i m = Inr t' \<Longrightarrow> (\<And>x. f (m x) = f x) \<Longrightarrow> tbl_sum f t' = tbl_sum f t"
proof -
  assume "tbl_modify c t i m = Inr t'" and "\<And>x. f (m x) = f x"
  moreover from this obtain x where "tbl_find t i = Some x" using tbl_modify_exists by blast
  ultimately show ?thesis by (simp add: tbl_modify_sum)
qed

lemma tbl_modify_ok:
  "tbl_find t i = Some x \<Longrightarrow> tbl_modify no_clash t i m = Inr (t\<lparr>objs := fmupd i (m x) (objs t)\<rparr>)"
  by (simp add: tbl_modify_def tbl_get_def no_clash_def fmpred_iff)

lemma tbl_remove_find: "tbl_find (tbl_remove t i) j = (if j = i then None else tbl_find t j)"
  by (simp add: tbl_remove_def tbl_find_def)

lemma tbl_remove_sum:
  "tbl_find t i = Some x \<Longrightarrow> tbl_sum f (tbl_remove t i) = tbl_sum f t - f x"
  by (simp add: tbl_remove_def tbl_sum_def tbl_find_def fm_sum_drop)

lemma tbl_remove_next_id [simp]: "next_id (tbl_remove t i) = next_id t"
  by (simp add: tbl_remove_def)

lemma tbl_sum_mono: "(\<And>x. f x \<le> g x) \<Longrightarrow> tbl_sum f t \<le> tbl_sum g t"
  by (simp add: tbl_sum_def fm_sum_mono)

lemma tbl_sum_nonneg: "(\<And>x. 0 \<le> f x) \<Longrightarrow> 0 \<le> tbl_sum f t"
  by (simp add: tbl_sum_def fm_sum_nonneg)

text \<open>An object that counts makes the sum positive.\<close>

lemma tbl_sum_member: "tbl_find t i = Some x \<Longrightarrow> (\<And>y. 0 \<le> f y) \<Longrightarrow> f x \<le> tbl_sum f t"
  using tbl_sum_nonneg [of f "tbl_remove t i"] by (simp add: tbl_remove_sum)

lemmas tbl_eval =
  tbl_find_def tbl_get_def tbl_create_def tbl_insert_def tbl_modify_def tbl_remove_def
  no_clash_def fmpred_upd_iff fmdrop_fmupd Let_def

subsection \<open>Machine integers\<close>

lemma wrap64_id [simp]: "in_int64 x \<Longrightarrow> wrap64 x = x"
  by (simp add: wrap64_def in_int64_def mod_pos_pos_trivial)

lemma in_int64_wrap64: "in_int64 (wrap64 x)"
  by (simp add: wrap64_def in_int64_def)

lemma wrap64_cong: "x mod 2 ^ 64 = y mod 2 ^ 64 \<Longrightarrow> wrap64 x = wrap64 y"
  unfolding wrap64_def by (metis mod_add_cong)

lemma safe_check_eq_Inr [simp, result_simps]: "safe_check x = Inr y \<longleftrightarrow> in_int64 x \<and> y = x"
  by (auto simp: safe_check_def)

lemma int64_nat_bound: "0 \<le> a \<Longrightarrow> in_int64 a \<Longrightarrow> nat a < 2 ^ 63"
  by (simp add: in_int64_def nat_less_iff)

lemma bound_mult_128: "(a::nat) < 2 ^ 63 \<Longrightarrow> b \<le> 2 ^ 64 \<Longrightarrow> a * b < 2 ^ 127"
proof -
  assume "a < 2 ^ 63" and "b \<le> 2 ^ 64"
  then have "a * b \<le> a * 2 ^ 64" by (intro mult_le_mono order_refl)
  also from \<open>a < 2 ^ 63\<close> have "\<dots> < 2 ^ 63 * 2 ^ 64" by (rule mult_strict_right_mono) simp
  finally show ?thesis by simp
qed

lemma mult_div_le: "e \<le> d \<Longrightarrow> b * e div d \<le> (b::nat)"
proof -
  assume "e \<le> d"
  then have "b * e div d \<le> b * d div d" by (intro div_le_mono mult_le_mono2)
  then show ?thesis by (cases "d = 0") simp_all
qed

subsection \<open>The implementation of the interface\<close>

interpretation checked: fc_laws checked_fc
proof unfold_locales
  show "u128_of_i64 checked_fc a = nat a" if "0 \<le> a" "in_int64 a" for a
    using that by (simp add: checked_fc_def in_int64_def mod_pos_pos_trivial)
  show "u128_popcount checked_fc m = card {i. i < 128 \<and> bit m i}" for m
    by (simp add: checked_fc_def length_filter_conv_card cong: conj_cong)
  show "mp_of_i64 checked_fc a = nat a" if "0 \<le> a" "in_int64 a" for a
    using that by (simp add: checked_fc_def in_int64_def mod_pos_pos_trivial)
  show "mp_to_i64 checked_fc m = int m" if "m < 2 ^ 63" for m
    using that by (simp add: checked_fc_def in_int64_def)
  show "u128_sub checked_fc m n = m - n" if "n \<le> m" "m < 2 ^ 128" for m n
  proof -
    from that have "int m - int n < int (2 ^ 128)" by linarith
    with that have "(int m - int n) mod 2 ^ 128 = int m - int n"
      by (intro mod_pos_pos_trivial) simp_all
    with that show ?thesis by (simp add: checked_fc_def)
  qed
qed (simp_all add: checked_fc_def)

end
