(* ===== verification/Asset.thy ===== *)
theory Asset
  imports Prelude
begin

text \<open>
  \<^verbatim>\<open>struct asset\<close> of \<^verbatim>\<open>include/graphene/chain/protocol/asset.hpp\<close>: an amount
  (\<^verbatim>\<open>share_type\<close>, that is \<^verbatim>\<open>fc::safe<int64_t>\<close>) and the instance number of the
  asset it counts. Arithmetic and the order throw when the two assets differ; equality does not.
  The core asset \<^verbatim>\<open>asset_id_type()\<close> has instance number 0.
\<close>

type_synonym account_id = nat
type_synonym asset_id_t = nat
type_synonym share_type = int
type_synonym time_sec = nat

definition GRAPHENE_MAX_SHARE_SUPPLY :: int where
  "GRAPHENE_MAX_SHARE_SUPPLY = 1000000000000000"

definition GRAPHENE_100_PERCENT :: nat where
  "GRAPHENE_100_PERCENT = 10000"

definition GRAPHENE_1_PERCENT :: nat where
  "GRAPHENE_1_PERCENT = GRAPHENE_100_PERCENT div 100"

record asset =
  amount :: share_type
  asset_id :: asset_id_t

definition core_asset :: "share_type \<Rightarrow> asset" where
  "core_asset x = \<lparr>amount = x, asset_id = 0\<rparr>"

definition asset_add :: "fc_lib \<Rightarrow> asset \<Rightarrow> asset \<Rightarrow> asset result" where
  "asset_add F a b =
     ebind (fc_assert (asset_id a = asset_id b) ''asset_id == o.asset_id'') (\<lambda>_.
     ebind (safe_add F (amount a) (amount b)) (\<lambda>x.
     Inr \<lparr>amount = x, asset_id = asset_id a\<rparr>))"

definition asset_sub :: "fc_lib \<Rightarrow> asset \<Rightarrow> asset \<Rightarrow> asset result" where
  "asset_sub F a b =
     ebind (fc_assert (asset_id a = asset_id b) ''asset_id == o.asset_id'') (\<lambda>_.
     ebind (safe_sub F (amount a) (amount b)) (\<lambda>x.
     Inr \<lparr>amount = x, asset_id = asset_id a\<rparr>))"

definition asset_neg :: "fc_lib \<Rightarrow> asset \<Rightarrow> asset result" where
  "asset_neg F a =
     ebind (safe_neg F (amount a)) (\<lambda>x. Inr \<lparr>amount = x, asset_id = asset_id a\<rparr>)"

definition asset_less :: "asset \<Rightarrow> asset \<Rightarrow> bool result" where
  "asset_less a b =
     ebind (fc_assert (asset_id a = asset_id b) ''a.asset_id == b.asset_id'') (\<lambda>_.
     Inr (amount a < amount b))"

definition asset_le :: "asset \<Rightarrow> asset \<Rightarrow> bool result" where
  "asset_le a b = (if a = b then Inr True else asset_less a b)"

definition asset_ge :: "asset \<Rightarrow> asset \<Rightarrow> bool result" where
  "asset_ge a b = emap Not (asset_less a b)"

section \<open>Lemmas\<close>

lemma core_asset_simps [simp]: "amount (core_asset x) = x" "asset_id (core_asset x) = 0"
  by (simp_all add: core_asset_def)

lemma asset_eta [simp]: "\<lparr>amount = amount a, asset_id = asset_id a\<rparr> = a"
  by simp

lemma asset_le_eq_Inr [simp, result_simps]:
  "asset_le a b = Inr v \<longleftrightarrow> asset_id a = asset_id b \<and> v = (amount a \<le> amount b)"
  by (cases a; cases b) (auto simp: asset_le_def asset_less_def)

lemma asset_ge_eq_Inr [simp, result_simps]:
  "asset_ge a b = Inr v \<longleftrightarrow> asset_id a = asset_id b \<and> v = (amount b \<le> amount a)"
  by (auto simp: asset_ge_def asset_less_def)

context fc_laws
begin

lemma asset_add_eq_Inr [simp, result_simps]:
  "asset_add F a b = Inr c \<longleftrightarrow> asset_id a = asset_id b \<and> in_int64 (amount a + amount b) \<and>
     c = \<lparr>amount = amount a + amount b, asset_id = asset_id a\<rparr>"
  by (auto simp: asset_add_def safe_add)

lemma asset_sub_eq_Inr [simp, result_simps]:
  "asset_sub F a b = Inr c \<longleftrightarrow> asset_id a = asset_id b \<and> in_int64 (amount a - amount b) \<and>
     c = \<lparr>amount = amount a - amount b, asset_id = asset_id a\<rparr>"
  by (auto simp: asset_sub_def safe_sub)

lemma asset_neg_eq_Inr [simp, result_simps]:
  "asset_neg F a = Inr c \<longleftrightarrow>
     in_int64 (- amount a) \<and> c = \<lparr>amount = - amount a, asset_id = asset_id a\<rparr>"
  by (auto simp: asset_neg_def safe_neg)

end

end
