(* ===== verification/Vesting.thy ===== *)
theory Vesting
  imports Asset
begin

text \<open>
  \<^verbatim>\<open>vesting_balance_object.hpp/.cpp\<close>: balances that are locked for a time. A linear
  policy releases an amount fixed at the start over a duration; a coin-days-destroyed policy
  accrues \<^verbatim>\<open>balance * seconds\<close> up to a cap and a withdrawal spends what has accrued.
  The C++ \<^verbatim>\<open>assert\<close>s are not part of the functions (a release build drops them); the
  lemmas below prove what they say.
\<close>

record linear_vesting_policy =
  begin_timestamp :: time_sec
  vesting_cliff_seconds :: nat
  vesting_duration_seconds :: nat
  begin_balance :: share_type

record cdd_vesting_policy =
  vesting_seconds :: nat
  coin_seconds_earned :: nat
  start_claim :: time_sec
  coin_seconds_earned_last_update :: time_sec

datatype vesting_policy = Linear linear_vesting_policy | Cdd cdd_vesting_policy

datatype balance_type =
  No_type | Escrow_fee_type | Publisher_fee_type | Founder_sale_fee | Referrer_sale_fee

record vesting_balance_object =
  vb_owner :: account_id
  vb_balance :: asset
  vb_policy :: vesting_policy
  vb_type :: balance_type

record vesting_policy_context =
  ctx_balance :: asset
  ctx_now :: time_sec
  ctx_amount :: asset

definition sum_below_max_shares :: "fc_lib \<Rightarrow> asset \<Rightarrow> asset \<Rightarrow> bool result" where
  "sum_below_max_shares F a b =
     (if amount a \<le> GRAPHENE_MAX_SHARE_SUPPLY \<and> amount b \<le> GRAPHENE_MAX_SHARE_SUPPLY
      then emap (\<lambda>s. s \<le> GRAPHENE_MAX_SHARE_SUPPLY) (safe_add F (amount a) (amount b))
      else Inr False)"

subsection \<open>Linear policy\<close>

definition linear_get_allowed_withdraw ::
  "fc_lib \<Rightarrow> linear_vesting_policy \<Rightarrow> vesting_policy_context \<Rightarrow> asset result" where
  "linear_get_allowed_withdraw F p ctx =
     (let zero = Inr \<lparr>amount = 0, asset_id = asset_id (ctx_balance ctx)\<rparr> in
      if begin_timestamp p < ctx_now ctx then
        let elapsed_seconds = tps_diff F (ctx_now ctx) (begin_timestamp p) in
        if int (vesting_cliff_seconds p) \<le> elapsed_seconds then
          ebind (if elapsed_seconds < int (vesting_duration_seconds p)
                 then emap (\<lambda>v. wrap64 (int v))
                   (u128_to_u64 F
                     (u128_div F
                       (u128_mul F (u128_of_i64 F (begin_balance p)) (u128_of_i64 F elapsed_seconds))
                       (vesting_duration_seconds p)))
                 else Inr (begin_balance p)) (\<lambda>total_vested.
          ebind (safe_sub F (begin_balance p) (amount (ctx_balance ctx))) (\<lambda>withdrawn_already.
          ebind (safe_sub F total_vested withdrawn_already) (\<lambda>allowed_withdraw.
          Inr \<lparr>amount = allowed_withdraw, asset_id = asset_id (ctx_balance ctx)\<rparr>)))
        else zero
      else zero)"

definition linear_is_deposit_allowed ::
  "fc_lib \<Rightarrow> linear_vesting_policy \<Rightarrow> vesting_policy_context \<Rightarrow> bool result" where
  "linear_is_deposit_allowed F p ctx =
     (if asset_id (ctx_amount ctx) = asset_id (ctx_balance ctx)
      then sum_below_max_shares F (ctx_amount ctx) (ctx_balance ctx) else Inr False)"

definition linear_is_withdraw_allowed ::
  "fc_lib \<Rightarrow> linear_vesting_policy \<Rightarrow> vesting_policy_context \<Rightarrow> bool result" where
  "linear_is_withdraw_allowed F p ctx =
     (if asset_id (ctx_amount ctx) = asset_id (ctx_balance ctx)
      then ebind (linear_get_allowed_withdraw F p ctx) (asset_le (ctx_amount ctx)) else Inr False)"

subsection \<open>Coin-days-destroyed policy\<close>

text \<open>\<^verbatim>\<open>std::max(vesting_seconds, 1u)\<close>, the divisor of every coin-seconds amount.\<close>

definition vs1 :: "nat \<Rightarrow> nat" where
  "vs1 s = max s 1"

definition compute_coin_seconds_earned ::
  "fc_lib \<Rightarrow> cdd_vesting_policy \<Rightarrow> vesting_policy_context \<Rightarrow> nat" where
  "compute_coin_seconds_earned F p ctx =
     (let delta_seconds = tps_diff F (ctx_now ctx) (coin_seconds_earned_last_update p);
          bal = u128_of_i64 F (amount (ctx_balance ctx));
          delta_coin_seconds = u128_mul F bal (u128_of_i64 F delta_seconds);
          coin_seconds_earned_cap = u128_mul F bal (vs1 (vesting_seconds p))
      in min (u128_add F (coin_seconds_earned p) delta_coin_seconds) coin_seconds_earned_cap)"

definition update_coin_seconds_earned ::
  "fc_lib \<Rightarrow> cdd_vesting_policy \<Rightarrow> vesting_policy_context \<Rightarrow> cdd_vesting_policy" where
  "update_coin_seconds_earned F p ctx =
     p\<lparr>coin_seconds_earned := compute_coin_seconds_earned F p ctx,
       coin_seconds_earned_last_update := ctx_now ctx\<rparr>"

definition cdd_get_allowed_withdraw ::
  "fc_lib \<Rightarrow> cdd_vesting_policy \<Rightarrow> vesting_policy_context \<Rightarrow> asset result" where
  "cdd_get_allowed_withdraw F p ctx =
     (if ctx_now ctx \<le> start_claim p
      then Inr \<lparr>amount = 0, asset_id = asset_id (ctx_balance ctx)\<rparr>
      else emap (\<lambda>v. \<lparr>amount = wrap64 (int v), asset_id = asset_id (ctx_balance ctx)\<rparr>)
        (u128_to_u64 F
          (u128_div F (compute_coin_seconds_earned F p ctx) (vs1 (vesting_seconds p)))))"

definition cdd_on_deposit ::
  "fc_lib \<Rightarrow> cdd_vesting_policy \<Rightarrow> vesting_policy_context \<Rightarrow> cdd_vesting_policy" where
  "cdd_on_deposit F p ctx = update_coin_seconds_earned F p ctx"

definition cdd_on_deposit_vested ::
  "fc_lib \<Rightarrow> cdd_vesting_policy \<Rightarrow> vesting_policy_context \<Rightarrow> cdd_vesting_policy" where
  "cdd_on_deposit_vested F p ctx =
     (let p' = cdd_on_deposit F p ctx in
      p'\<lparr>coin_seconds_earned := u128_add F (coin_seconds_earned p')
           (u128_of_i64 F (wrap64 (amount (ctx_amount ctx) * int (vs1 (vesting_seconds p')))))\<rparr>)"

definition cdd_on_withdraw ::
  "fc_lib \<Rightarrow> cdd_vesting_policy \<Rightarrow> vesting_policy_context \<Rightarrow> cdd_vesting_policy" where
  "cdd_on_withdraw F p ctx =
     (let p' = update_coin_seconds_earned F p ctx;
          coin_seconds_needed =
            u128_mul F (u128_of_i64 F (amount (ctx_amount ctx))) (vs1 (vesting_seconds p'))
      in p'\<lparr>coin_seconds_earned := u128_sub F (coin_seconds_earned p') coin_seconds_needed\<rparr>)"

definition cdd_is_deposit_allowed ::
  "fc_lib \<Rightarrow> cdd_vesting_policy \<Rightarrow> vesting_policy_context \<Rightarrow> bool result" where
  "cdd_is_deposit_allowed F p ctx =
     (if asset_id (ctx_amount ctx) = asset_id (ctx_balance ctx)
      then sum_below_max_shares F (ctx_amount ctx) (ctx_balance ctx) else Inr False)"

definition cdd_is_deposit_vested_allowed ::
  "fc_lib \<Rightarrow> cdd_vesting_policy \<Rightarrow> vesting_policy_context \<Rightarrow> bool result" where
  "cdd_is_deposit_vested_allowed F p ctx = cdd_is_deposit_allowed F p ctx"

definition cdd_is_withdraw_allowed ::
  "fc_lib \<Rightarrow> cdd_vesting_policy \<Rightarrow> vesting_policy_context \<Rightarrow> bool result" where
  "cdd_is_withdraw_allowed F p ctx =
     ebind (cdd_get_allowed_withdraw F p ctx) (asset_le (ctx_amount ctx))"

subsection \<open>The vesting balance object: dispatch on the policy\<close>

definition vbo_ctx :: "vesting_balance_object \<Rightarrow> time_sec \<Rightarrow> asset \<Rightarrow> vesting_policy_context" where
  "vbo_ctx vb now amt = \<lparr>ctx_balance = vb_balance vb, ctx_now = now, ctx_amount = amt\<rparr>"

definition vbo_is_deposit_allowed ::
  "fc_lib \<Rightarrow> vesting_balance_object \<Rightarrow> time_sec \<Rightarrow> asset \<Rightarrow> bool result" where
  "vbo_is_deposit_allowed F vb now amt =
     (case vb_policy vb of
        Linear p \<Rightarrow> linear_is_deposit_allowed F p (vbo_ctx vb now amt)
      | Cdd p \<Rightarrow> cdd_is_deposit_allowed F p (vbo_ctx vb now amt))"

definition vbo_is_deposit_vested_allowed ::
  "fc_lib \<Rightarrow> vesting_balance_object \<Rightarrow> time_sec \<Rightarrow> asset \<Rightarrow> bool result" where
  "vbo_is_deposit_vested_allowed F vb now amt =
     (case vb_policy vb of
        Linear p \<Rightarrow> Inr False
      | Cdd p \<Rightarrow> cdd_is_deposit_vested_allowed F p (vbo_ctx vb now amt))"

definition vbo_is_withdraw_allowed ::
  "fc_lib \<Rightarrow> vesting_balance_object \<Rightarrow> time_sec \<Rightarrow> asset \<Rightarrow> bool result" where
  "vbo_is_withdraw_allowed F vb now amt =
     (case vb_policy vb of
        Linear p \<Rightarrow> linear_is_withdraw_allowed F p (vbo_ctx vb now amt)
      | Cdd p \<Rightarrow> cdd_is_withdraw_allowed F p (vbo_ctx vb now amt))"

definition vbo_deposit ::
  "fc_lib \<Rightarrow> vesting_balance_object \<Rightarrow> time_sec \<Rightarrow> asset \<Rightarrow> vesting_balance_object result" where
  "vbo_deposit F vb now amt =
     (let pol = (case vb_policy vb of
                   Linear p \<Rightarrow> Linear p
                 | Cdd p \<Rightarrow> Cdd (cdd_on_deposit F p (vbo_ctx vb now amt)))
      in ebind (asset_add F (vb_balance vb) amt) (\<lambda>bal.
         Inr (vb\<lparr>vb_policy := pol, vb_balance := bal\<rparr>)))"

definition vbo_deposit_vested ::
  "fc_lib \<Rightarrow> vesting_balance_object \<Rightarrow> time_sec \<Rightarrow> asset \<Rightarrow> vesting_balance_object result" where
  "vbo_deposit_vested F vb now amt =
     ebind (case vb_policy vb of
              Linear p \<Rightarrow> Inl (Thrown ''May not deposit vested into a linear vesting balance.'')
            | Cdd p \<Rightarrow> Inr (Cdd (cdd_on_deposit_vested F p (vbo_ctx vb now amt)))) (\<lambda>pol.
     ebind (asset_add F (vb_balance vb) amt) (\<lambda>bal.
     Inr (vb\<lparr>vb_policy := pol, vb_balance := bal\<rparr>)))"

definition vbo_withdraw ::
  "fc_lib \<Rightarrow> vesting_balance_object \<Rightarrow> time_sec \<Rightarrow> asset \<Rightarrow> vesting_balance_object result" where
  "vbo_withdraw F vb now amt =
     (let pol = (case vb_policy vb of
                   Linear p \<Rightarrow> Linear p
                 | Cdd p \<Rightarrow> Cdd (cdd_on_withdraw F p (vbo_ctx vb now amt)))
      in ebind (asset_sub F (vb_balance vb) amt) (\<lambda>bal.
         Inr (vb\<lparr>vb_policy := pol, vb_balance := bal\<rparr>)))"

definition vbo_get_allowed_withdraw ::
  "fc_lib \<Rightarrow> vesting_balance_object \<Rightarrow> time_sec \<Rightarrow> asset result" where
  "vbo_get_allowed_withdraw F vb now =
     (case vb_policy vb of
        Linear p \<Rightarrow> linear_get_allowed_withdraw F p (vbo_ctx vb now (core_asset 0))
      | Cdd p \<Rightarrow> cdd_get_allowed_withdraw F p (vbo_ctx vb now (core_asset 0)))"

subsection \<open>Specification: what has vested\<close>

text \<open>
  The abstract meaning of a coin-days-destroyed balance: the coin seconds accrued at \<open>now\<close>,
  capped at the full maturity of the balance, and the coins these pay for. \<open>cdd_ok\<close> is the
  invariant of the policy next to a balance.
\<close>

definition cdd_accrued :: "cdd_vesting_policy \<Rightarrow> nat \<Rightarrow> time_sec \<Rightarrow> nat" where
  "cdd_accrued p bal now =
     min (coin_seconds_earned p + bal * (now - coin_seconds_earned_last_update p))
       (bal * vs1 (vesting_seconds p))"

definition cdd_vested :: "cdd_vesting_policy \<Rightarrow> nat \<Rightarrow> time_sec \<Rightarrow> nat" where
  "cdd_vested p bal now = cdd_accrued p bal now div vs1 (vesting_seconds p)"

definition cdd_ok :: "cdd_vesting_policy \<Rightarrow> share_type \<Rightarrow> time_sec \<Rightarrow> bool" where
  "cdd_ok p bal now \<longleftrightarrow>
     0 \<le> bal \<and> in_int64 bal \<and> vesting_seconds p < 2 ^ 32 \<and> now < 2 ^ 32 \<and>
     coin_seconds_earned_last_update p \<le> now \<and>
     coin_seconds_earned p \<le> nat bal * vs1 (vesting_seconds p)"

definition linear_vested :: "linear_vesting_policy \<Rightarrow> time_sec \<Rightarrow> int" where
  "linear_vested p now =
     (if now \<le> begin_timestamp p \<or> now - begin_timestamp p < vesting_cliff_seconds p then 0
      else if now - begin_timestamp p < vesting_duration_seconds p
      then begin_balance p * int (now - begin_timestamp p) div int (vesting_duration_seconds p)
      else begin_balance p)"

definition linear_ok :: "linear_vesting_policy \<Rightarrow> share_type \<Rightarrow> time_sec \<Rightarrow> bool" where
  "linear_ok p bal now \<longleftrightarrow>
     0 \<le> bal \<and> bal \<le> begin_balance p \<and> in_int64 (begin_balance p) \<and>
     vesting_duration_seconds p < 2 ^ 32 \<and> now < 2 ^ 32 \<and>
     begin_balance p - bal \<le> linear_vested p now"

definition vbo_ok :: "vesting_balance_object \<Rightarrow> time_sec \<Rightarrow> bool" where
  "vbo_ok vb now =
     (case vb_policy vb of
        Linear p \<Rightarrow> linear_ok p (amount (vb_balance vb)) now
      | Cdd p \<Rightarrow> cdd_ok p (amount (vb_balance vb)) now)"

text \<open>What \<^verbatim>\<open>get_allowed_withdraw\<close> grants, as a number of coins.\<close>

definition vbo_vested :: "vesting_balance_object \<Rightarrow> time_sec \<Rightarrow> int" where
  "vbo_vested vb now =
     (case vb_policy vb of
        Linear p \<Rightarrow> linear_vested p now - (begin_balance p - amount (vb_balance vb))
      | Cdd p \<Rightarrow> if now \<le> start_claim p then 0
                 else int (cdd_vested p (nat (amount (vb_balance vb))) now))"

subsection \<open>The contract of a locked balance\<close>

text \<open>
  A run of withdrawals, each at its time, over a balance of any kind: \<open>allowed\<close> is the check the
  evaluator makes first. The clock does not run backwards and stays in 32 bits.
\<close>

fun withdraw_run ::
  "('v \<Rightarrow> time_sec \<Rightarrow> int \<Rightarrow> bool result) \<Rightarrow> ('v \<Rightarrow> time_sec \<Rightarrow> int \<Rightarrow> 'v result)
    \<Rightarrow> 'v \<Rightarrow> time_sec \<Rightarrow> (time_sec \<times> int) list \<Rightarrow> 'v result" where
  "withdraw_run allowed draw v t [] = Inr v"
| "withdraw_run allowed draw v t ((t', x) # rest) =
     (if t \<le> t' \<and> t' < 2 ^ 32 \<and> 0 \<le> x then
        ebind (allowed v t' x) (\<lambda>ok.
        ebind (fc_assert ok ''is_withdraw_allowed'') (\<lambda>_.
        ebind (draw v t' x) (\<lambda>v'.
        withdraw_run allowed draw v' t' rest)))
      else Inl (Assert_failed ''withdraw''))"

text \<open>
  What a client of a vesting balance relies on: the available part never exceeds the balance and
  only grows with time, the check answers whether the amount is available, and withdrawing an
  available amount takes exactly that amount from both.
\<close>

locale locked_balance =
  fixes ok :: "'v \<Rightarrow> time_sec \<Rightarrow> bool"
    and held :: "'v \<Rightarrow> int"
    and available :: "'v \<Rightarrow> time_sec \<Rightarrow> int"
    and allowed :: "'v \<Rightarrow> time_sec \<Rightarrow> int \<Rightarrow> bool result"
    and draw :: "'v \<Rightarrow> time_sec \<Rightarrow> int \<Rightarrow> 'v result"
  assumes available_range: "ok v t \<Longrightarrow> 0 \<le> available v t \<and> available v t \<le> held v"
    and later: "ok v t \<Longrightarrow> t \<le> t' \<Longrightarrow> t' < 2 ^ 32 \<Longrightarrow> ok v t' \<and> available v t \<le> available v t'"
    and allowed_iff: "ok v t \<Longrightarrow> allowed v t x = Inr (x \<le> available v t)"
    and draw_ok: "ok v t \<Longrightarrow> 0 \<le> x \<Longrightarrow> x \<le> available v t \<Longrightarrow>
      \<exists>v'. draw v t x = Inr v' \<and> ok v' t \<and> held v' = held v - x \<and>
           available v' t = available v t - x"
begin

lemma run_bounded:
  "ok v t \<Longrightarrow> withdraw_run allowed draw v t ws = Inr v' \<Longrightarrow>
   held v' = held v - sum_list (map snd ws) \<and> 0 \<le> held v' \<and> sum_list (map snd ws) \<le> held v"
proof (induction ws arbitrary: v t)
  case Nil
  then show ?case using available_range [of v t] by simp
next
  case (Cons w ws)
  obtain t' x where w: "w = (t', x)" by (cases w)
  with Cons.prems have g: "t \<le> t'" "t' < 2 ^ 32" "0 \<le> x" by (auto split: if_splits)
  then have ok': "ok v t'" using Cons.prems(1) later by blast
  then have x: "x \<le> available v t'" using Cons.prems w g allowed_iff [OF ok'] by auto
  then obtain u where u: "draw v t' x = Inr u" "ok u t'" "held u = held v - x"
    using draw_ok ok' g by blast
  with Cons.prems w g have "withdraw_run allowed draw u t' ws = Inr v'" using allowed_iff [OF ok'] x by simp
  from Cons.IH [OF u(2) this] u(3) w show ?case by simp
qed

end

section \<open>Lemmas\<close>

lemma vs1_pos [simp]: "0 < vs1 s"
  by (simp add: vs1_def)

lemma vs1_bound: "s < 2 ^ 32 \<Longrightarrow> vs1 s < 2 ^ 33"
  by (simp add: vs1_def)

lemma div_minus_mult: "0 < v \<Longrightarrow> x * v \<le> a \<Longrightarrow> (a - x * v) div v = a div v - (x::nat)"
  by (auto simp: le_iff_add)

lemma linear_vested_range:
  assumes "0 \<le> begin_balance p"
  shows "0 \<le> linear_vested p now \<and> linear_vested p now \<le> begin_balance p"
proof -
  let ?e = "now - begin_timestamp p" and ?b = "nat (begin_balance p)"
  have "?e < vesting_duration_seconds p \<Longrightarrow>
      int (?b * ?e div vesting_duration_seconds p) \<le> int ?b"
    by (subst of_nat_le_iff) (rule mult_div_le, simp)
  then show ?thesis
    using assms by (auto simp: linear_vested_def zdiv_int pos_imp_zdiv_nonneg_iff)
qed

lemma linear_vested_mono:
  assumes "0 \<le> begin_balance p" and "now \<le> now'"
  shows "linear_vested p now \<le> linear_vested p now'"
proof (cases "linear_vested p now' = begin_balance p \<or> linear_vested p now = 0")
  case True
  then show ?thesis using linear_vested_range [OF assms(1)] by metis
next
  case False
  let ?e = "\<lambda>t. t - begin_timestamp p" and ?D = "int (vesting_duration_seconds p)"
  from False assms(2) have v: "linear_vested p now = begin_balance p * int (?e now) div ?D"
    "linear_vested p now' = begin_balance p * int (?e now') div ?D" "0 < ?D"
    by (auto simp: linear_vested_def split: if_splits)
  have "begin_balance p * int (?e now) \<le> begin_balance p * int (?e now')"
    using assms by (intro mult_left_mono) auto
  then show ?thesis using v by (simp add: zdiv_mono1 del: of_nat_diff)
qed

lemma cdd_vested_le_balance: "cdd_vested p bal now \<le> bal"
proof -
  have "cdd_accrued p bal now div vs1 (vesting_seconds p)
      \<le> bal * vs1 (vesting_seconds p) div vs1 (vesting_seconds p)"
    by (rule div_le_mono) (simp add: cdd_accrued_def)
  then show ?thesis by (simp add: cdd_vested_def)
qed

lemma cdd_vested_mono: "now \<le> now' \<Longrightarrow> cdd_vested p bal now \<le> cdd_vested p bal now'"
  unfolding cdd_vested_def cdd_accrued_def
  by (intro div_le_mono min.mono add_mono mult_le_mono order_refl) simp

lemma cdd_fully_vested:
  assumes "coin_seconds_earned_last_update p + vs1 (vesting_seconds p) \<le> now"
  shows "cdd_vested p bal now = bal"
proof -
  have "vs1 (vesting_seconds p) \<le> now - coin_seconds_earned_last_update p"
    using assms by linarith
  then have "bal * vs1 (vesting_seconds p) \<le> bal * (now - coin_seconds_earned_last_update p)"
    by (rule mult_le_mono2)
  then have "cdd_accrued p bal now = bal * vs1 (vesting_seconds p)"
    unfolding cdd_accrued_def by (intro min_absorb2 trans_le_add2)
  then show ?thesis by (simp add: cdd_vested_def)
qed

context fc_laws
begin

lemma compute_coin_seconds_earned_exact:
  assumes "cdd_ok p (amount (ctx_balance ctx)) (ctx_now ctx)"
  shows "compute_coin_seconds_earned F p ctx =
    cdd_accrued p (nat (amount (ctx_balance ctx))) (ctx_now ctx)"
proof -
  define b where "b = nat (amount (ctx_balance ctx))"
  define d where "d = ctx_now ctx - coin_seconds_earned_last_update p"
  define v where "v = vs1 (vesting_seconds p)"
  have b: "b < 2 ^ 63" "u128_of_i64 F (amount (ctx_balance ctx)) = b"
    using assms int64_nat_bound by (auto simp: b_def cdd_ok_def u128_of_i64)
  have diff: "tps_diff F (ctx_now ctx) (coin_seconds_earned_last_update p) = int d"
    using assms by (simp add: d_def cdd_ok_def tps_diff of_nat_diff)
  have d: "d < 2 ^ 32" "v < 2 ^ 33" using assms vs1_bound by (auto simp: cdd_ok_def d_def v_def)
  have ud: "u128_of_i64 F (int d) = d" using d by (simp add: u128_of_i64 in_int64_def)
  have bd: "b * d < 2 ^ 127" using b(1) by (rule bound_mult_128) (use d in simp)
  have bv: "b * v < 2 ^ 127" using b(1) by (rule bound_mult_128) (use d in simp)
  have cs: "coin_seconds_earned p \<le> b * v" using assms by (simp add: cdd_ok_def b_def v_def)
  show ?thesis
    using bd bv cs
    by (simp add: compute_coin_seconds_earned_def cdd_accrued_def Let_def diff b ud
        u128_mul u128_add flip: b_def d_def v_def)
qed

lemma cdd_get_allowed_withdraw_exact:
  assumes "cdd_ok p (amount (ctx_balance ctx)) (ctx_now ctx)"
  shows "cdd_get_allowed_withdraw F p ctx = Inr
    \<lparr>amount = (if ctx_now ctx \<le> start_claim p then 0
               else int (cdd_vested p (nat (amount (ctx_balance ctx))) (ctx_now ctx))),
     asset_id = asset_id (ctx_balance ctx)\<rparr>"
proof -
  let ?b = "nat (amount (ctx_balance ctx))" and ?v = "vs1 (vesting_seconds p)"
  have b: "?b < 2 ^ 63" using assms int64_nat_bound by (auto simp: cdd_ok_def)
  moreover have "?b * ?v < 2 ^ 127"
    using assms b vs1_bound [of "vesting_seconds p"]
    by (intro bound_mult_128) (simp_all add: cdd_ok_def)
  then have "cdd_accrued p ?b (ctx_now ctx) < 2 ^ 128" by (simp add: cdd_accrued_def min_less_iff_disj)
  moreover have "cdd_vested p ?b (ctx_now ctx) < 2 ^ 63"
    using cdd_vested_le_balance b by (rule le_less_trans)
  moreover from this have "in_int64 (int (cdd_vested p ?b (ctx_now ctx)))"
    by (simp add: in_int64_def)
  ultimately show ?thesis
    using assms
    by (simp add: cdd_get_allowed_withdraw_def compute_coin_seconds_earned_exact u128_div
        u128_to_u64 flip: cdd_vested_def)
qed


lemma linear_get_allowed_withdraw_exact:
  assumes "linear_ok p (amount (ctx_balance ctx)) (ctx_now ctx)"
  shows "linear_get_allowed_withdraw F p ctx = Inr
    \<lparr>amount = linear_vested p (ctx_now ctx) - (begin_balance p - amount (ctx_balance ctx)),
     asset_id = asset_id (ctx_balance ctx)\<rparr>"
proof (cases "ctx_now ctx \<le> begin_timestamp p \<or>
    ctx_now ctx - begin_timestamp p < vesting_cliff_seconds p")
  case True
  then have "linear_vested p (ctx_now ctx) = 0" by (simp add: linear_vested_def)
  with assms have "begin_balance p = amount (ctx_balance ctx)" by (simp add: linear_ok_def)
  with True show ?thesis
    by (auto simp: linear_get_allowed_withdraw_def linear_vested_def Let_def tps_diff)
next
  case False
  let ?e = "ctx_now ctx - begin_timestamp p"
  have diff: "tps_diff F (ctx_now ctx) (begin_timestamp p) = int ?e"
    using False by (simp add: tps_diff of_nat_diff)
  have early: "emap (\<lambda>v. wrap64 (int v)) (u128_to_u64 F (u128_div F (u128_mul F
      (u128_of_i64 F (begin_balance p)) (u128_of_i64 F (int ?e))) (vesting_duration_seconds p)))
    = Inr (linear_vested p (ctx_now ctx))" if lt: "?e < vesting_duration_seconds p"
  proof -
    let ?b = "nat (begin_balance p)" and ?D = "vesting_duration_seconds p"
    have b: "0 \<le> begin_balance p" "in_int64 (begin_balance p)" "?D < 2 ^ 32"
      using assms by (auto simp: linear_ok_def)
    then have "?b < 2 ^ 63" by (intro int64_nat_bound)
    then have m: "?b * ?e < 2 ^ 127" by (rule bound_mult_128) (use lt b in simp)
    have q: "?b * ?e div ?D < 2 ^ 63"
      using mult_div_le [OF less_imp_le [OF lt]] \<open>?b < 2 ^ 63\<close> by (rule le_less_trans)
    have e: "u128_of_i64 F (int ?e) = ?e"
      using lt b u128_of_i64 [of "int ?e"] by (simp add: in_int64_def)
    have v: "linear_vested p (ctx_now ctx) = int (?b * ?e div ?D)"
      using lt False b by (simp add: linear_vested_def zdiv_int)
    have "u128_to_u64 F (?b * ?e div ?D) = Inr (?b * ?e div ?D)" using q by (simp add: u128_to_u64)
    moreover have "wrap64 (int (?b * ?e div ?D)) = int (?b * ?e div ?D)"
      using q by (intro wrap64_id) (simp add: in_int64_def)
    ultimately show ?thesis
      using lt m b by (simp add: e v u128_of_i64 u128_mul u128_div del: of_nat_mult)
  qed
  have total: "(if int ?e < int (vesting_duration_seconds p)
      then emap (\<lambda>v. wrap64 (int v)) (u128_to_u64 F (u128_div F (u128_mul F
        (u128_of_i64 F (begin_balance p)) (u128_of_i64 F (int ?e))) (vesting_duration_seconds p)))
      else Inr (begin_balance p)) = Inr (linear_vested p (ctx_now ctx))"
    using early False by (simp add: linear_vested_def del: of_nat_diff)
  have "0 \<le> linear_vested p (ctx_now ctx)" "linear_vested p (ctx_now ctx) \<le> begin_balance p"
    using assms linear_vested_range [of p] by (auto simp: linear_ok_def)
  then have "safe_sub F (begin_balance p) (amount (ctx_balance ctx))
      = Inr (begin_balance p - amount (ctx_balance ctx))"
    and "safe_sub F (linear_vested p (ctx_now ctx)) (begin_balance p - amount (ctx_balance ctx))
      = Inr (linear_vested p (ctx_now ctx) - (begin_balance p - amount (ctx_balance ctx)))"
    using assms by (auto simp: safe_sub linear_ok_def in_int64_def)
  moreover have "begin_timestamp p < ctx_now ctx" "int (vesting_cliff_seconds p) \<le> int ?e"
    using False by auto
  ultimately show ?thesis
    by (simp only: linear_get_allowed_withdraw_def Let_def diff total if_True ebind_Inr)
qed

lemma vbo_get_allowed_withdraw_exact:
  "vbo_ok vb now \<Longrightarrow> vbo_get_allowed_withdraw F vb now =
     Inr \<lparr>amount = vbo_vested vb now, asset_id = asset_id (vb_balance vb)\<rparr>"
  by (auto simp: vbo_get_allowed_withdraw_def vbo_ok_def vbo_vested_def vbo_ctx_def
      linear_get_allowed_withdraw_exact cdd_get_allowed_withdraw_exact split: vesting_policy.splits)

lemma vbo_is_withdraw_allowed_exact:
  "vbo_ok vb now \<Longrightarrow> asset_id amt = asset_id (vb_balance vb) \<Longrightarrow>
   vbo_is_withdraw_allowed F vb now amt = Inr (amount amt \<le> vbo_vested vb now)"
  by (auto simp: vbo_is_withdraw_allowed_def vbo_ok_def vbo_vested_def vbo_ctx_def
      linear_is_withdraw_allowed_def cdd_is_withdraw_allowed_def
      linear_get_allowed_withdraw_exact cdd_get_allowed_withdraw_exact split: vesting_policy.splits)

lemma vbo_vested_range:
  "vbo_ok vb now \<Longrightarrow> 0 \<le> vbo_vested vb now \<and> vbo_vested vb now \<le> amount (vb_balance vb)"
proof (cases "vb_policy vb")
  case (Linear p)
  assume "vbo_ok vb now"
  then show ?thesis
    using Linear linear_vested_range [of p now]
    by (auto simp: vbo_ok_def vbo_vested_def linear_ok_def)
next
  case (Cdd p)
  assume "vbo_ok vb now"
  then show ?thesis
    using Cdd cdd_vested_le_balance [of p "nat (amount (vb_balance vb))" now]
    by (auto simp: vbo_ok_def vbo_vested_def cdd_ok_def)
qed

lemma vbo_later:
  "vbo_ok vb t \<Longrightarrow> t \<le> t' \<Longrightarrow> t' < 2 ^ 32 \<Longrightarrow> vbo_ok vb t' \<and> vbo_vested vb t \<le> vbo_vested vb t'"
proof (cases "vb_policy vb")
  case (Linear p)
  assume "vbo_ok vb t" "t \<le> t'" "t' < 2 ^ 32"
  then show ?thesis
    using Linear linear_vested_mono [of p t t']
    by (auto simp: vbo_ok_def vbo_vested_def linear_ok_def)
next
  case (Cdd p)
  assume "vbo_ok vb t" "t \<le> t'" "t' < 2 ^ 32"
  then show ?thesis
    using Cdd cdd_vested_mono [of t t' p "nat (amount (vb_balance vb))"]
    by (auto simp: vbo_ok_def vbo_vested_def cdd_ok_def)
qed

text \<open>Spending \<open>x\<close> matured coins at the time of the last update.\<close>

lemma cdd_on_withdraw_exact:
  assumes ok: "cdd_ok p (amount (ctx_balance ctx)) (ctx_now ctx)"
    and x: "amount (ctx_amount ctx) = int n" "n \<le> cdd_vested p (nat (amount (ctx_balance ctx))) (ctx_now ctx)"
  shows "cdd_on_withdraw F p ctx = p\<lparr>
      coin_seconds_earned := cdd_accrued p (nat (amount (ctx_balance ctx))) (ctx_now ctx)
        - n * vs1 (vesting_seconds p),
      coin_seconds_earned_last_update := ctx_now ctx\<rparr>"
proof -
  let ?b = "nat (amount (ctx_balance ctx))" and ?v = "vs1 (vesting_seconds p)"
  have b: "?b < 2 ^ 63" using ok int64_nat_bound by (auto simp: cdd_ok_def)
  have "n \<le> ?b" using x(2) cdd_vested_le_balance le_trans by blast
  then have n: "u128_of_i64 F (int n) = n" using b by (subst u128_of_i64) (auto simp: in_int64_def)
  have need: "n * ?v \<le> cdd_accrued p ?b (ctx_now ctx)"
    using x(2) by (simp add: cdd_vested_def less_eq_div_iff_mult_less_eq)
  have "?b * ?v < 2 ^ 127"
    using b by (rule bound_mult_128) (use ok vs1_bound [of "vesting_seconds p"] in \<open>simp add: cdd_ok_def\<close>)
  then have acc: "cdd_accrued p ?b (ctx_now ctx) < 2 ^ 127" by (simp add: cdd_accrued_def min_less_iff_disj)
  then have "n * ?v < 2 ^ 128" using need by simp
  then show ?thesis
    using need acc ok x(1) n
    by (simp add: cdd_on_withdraw_def update_coin_seconds_earned_def Let_def
        compute_coin_seconds_earned_exact u128_mul u128_sub)
qed

lemma vbo_withdraw_exact:
  assumes ok: "vbo_ok vb t" and x: "0 \<le> x" "x \<le> vbo_vested vb t"
  shows "\<exists>vb'. vbo_withdraw F vb t \<lparr>amount = x, asset_id = asset_id (vb_balance vb)\<rparr> = Inr vb' \<and>
    vbo_ok vb' t \<and> vb_balance vb' = (vb_balance vb)\<lparr>amount := amount (vb_balance vb) - x\<rparr> \<and>
    vb_owner vb' = vb_owner vb \<and> vb_type vb' = vb_type vb \<and> vbo_vested vb' t = vbo_vested vb t - x"
proof (cases "vb_policy vb")
  case (Linear p)
  then show ?thesis
    using assms vbo_vested_range [OF ok]
    by (auto simp: vbo_withdraw_def vbo_ok_def vbo_vested_def linear_ok_def in_int64_def)
next
  case (Cdd p)
  let ?b = "nat (amount (vb_balance vb))" and ?v = "vs1 (vesting_seconds p)"
  let ?ctx = "vbo_ctx vb t \<lparr>amount = x, asset_id = asset_id (vb_balance vb)\<rparr>"
  from assms Cdd have ok': "cdd_ok p (amount (vb_balance vb)) t" by (simp add: vbo_ok_def)
  have n: "nat x \<le> cdd_vested p ?b t" "x \<le> amount (vb_balance vb)"
    using x Cdd vbo_vested_range [OF ok] by (auto simp: vbo_vested_def split: if_splits)
  have acc: "cdd_accrued p ?b t \<le> ?b * ?v" by (simp add: cdd_accrued_def)
  let ?p' = "p\<lparr>coin_seconds_earned := cdd_accrued p ?b t - nat x * ?v,
      coin_seconds_earned_last_update := t\<rparr>"
  have pol: "cdd_on_withdraw F p ?ctx = ?p'"
    using cdd_on_withdraw_exact [of p ?ctx "nat x"] ok' n x by (simp add: vbo_ctx_def)
  have b': "nat (amount (vb_balance vb) - x) = ?b - nat x" using x n by simp
  have le: "cdd_accrued p ?b t - nat x * ?v \<le> (?b - nat x) * ?v"
    using acc by (simp add: diff_mult_distrib)
  moreover have need: "nat x * ?v \<le> cdd_accrued p ?b t"
    using n(1) by (simp add: cdd_vested_def less_eq_div_iff_mult_less_eq)
  ultimately have "cdd_vested ?p' (?b - nat x) t = cdd_vested p ?b t - nat x"
    by (simp add: cdd_vested_def cdd_accrued_def [of ?p'] min_absorb1 div_minus_mult need)
  then show ?thesis
    using x n ok' le Cdd
    by (auto simp: vbo_withdraw_def pol vbo_ok_def vbo_vested_def cdd_ok_def b' in_int64_def
        of_nat_diff)
qed

lemma vbo_deposit_exact:
  assumes ok: "vbo_ok vb t" and pol: "vb_policy vb = Cdd p" and x: "0 \<le> x"
    and fits: "in_int64 (amount (vb_balance vb) + x)"
  shows "\<exists>vb'. vbo_deposit F vb t \<lparr>amount = x, asset_id = asset_id (vb_balance vb)\<rparr> = Inr vb' \<and>
    vbo_ok vb' t \<and> vb_balance vb' = (vb_balance vb)\<lparr>amount := amount (vb_balance vb) + x\<rparr> \<and>
    vb_owner vb' = vb_owner vb \<and> vb_type vb' = vb_type vb \<and> vbo_vested vb' t = vbo_vested vb t"
proof -
  let ?b = "nat (amount (vb_balance vb))" and ?v = "vs1 (vesting_seconds p)"
  let ?ctx = "vbo_ctx vb t \<lparr>amount = x, asset_id = asset_id (vb_balance vb)\<rparr>"
  let ?p' = "p\<lparr>coin_seconds_earned := cdd_accrued p ?b t, coin_seconds_earned_last_update := t\<rparr>"
  from ok pol have ok': "cdd_ok p (amount (vb_balance vb)) t" by (simp add: vbo_ok_def)
  then have pol': "cdd_on_deposit F p ?ctx = ?p'"
    by (simp add: cdd_on_deposit_def update_coin_seconds_earned_def compute_coin_seconds_earned_exact
        vbo_ctx_def)
  have b': "nat (amount (vb_balance vb) + x) = ?b + nat x"
    using ok' x by (simp add: cdd_ok_def nat_add_distrib)
  have "cdd_accrued p ?b t \<le> ?b * ?v" by (simp add: cdd_accrued_def)
  also have "\<dots> \<le> (?b + nat x) * ?v" by (simp add: add_mult_distrib)
  finally have le: "cdd_accrued p ?b t \<le> (?b + nat x) * ?v" .
  then have "cdd_vested ?p' (?b + nat x) t = cdd_vested p ?b t"
    by (simp add: cdd_vested_def cdd_accrued_def [of ?p'] min_absorb1)
  then show ?thesis
    using x fits ok' le pol
    by (auto simp: vbo_deposit_def pol' vbo_ok_def vbo_vested_def cdd_ok_def b')
qed

text \<open>
  A vested deposit is available at once. The product \<^verbatim>\<open>amount * vesting_seconds\<close> is computed
  in 64 bits, so it has to fit.
\<close>

lemma vbo_deposit_vested_exact:
  assumes ok: "vbo_ok vb t" and pol: "vb_policy vb = Cdd p" and x: "0 \<le> x"
    and fits: "in_int64 (amount (vb_balance vb) + x)"
    and prod: "x * int (vs1 (vesting_seconds p)) < 2 ^ 63"
  shows "\<exists>vb'. vbo_deposit_vested F vb t \<lparr>amount = x, asset_id = asset_id (vb_balance vb)\<rparr> = Inr vb' \<and>
    vbo_ok vb' t \<and> vb_balance vb' = (vb_balance vb)\<lparr>amount := amount (vb_balance vb) + x\<rparr> \<and>
    vb_owner vb' = vb_owner vb \<and> vb_type vb' = vb_type vb \<and>
    vbo_vested vb' t = (if t \<le> start_claim p then 0 else vbo_vested vb t + x)"
proof -
  let ?b = "nat (amount (vb_balance vb))" and ?v = "vs1 (vesting_seconds p)"
  let ?ctx = "vbo_ctx vb t \<lparr>amount = x, asset_id = asset_id (vb_balance vb)\<rparr>"
  let ?p' = "p\<lparr>coin_seconds_earned := cdd_accrued p ?b t + nat x * ?v,
      coin_seconds_earned_last_update := t\<rparr>"
  from ok pol have ok': "cdd_ok p (amount (vb_balance vb)) t" by (simp add: vbo_ok_def)
  have b: "?b < 2 ^ 63" using ok' int64_nat_bound by (auto simp: cdd_ok_def)
  have in64: "in_int64 (x * int ?v)" using x prod by (simp add: in_int64_def order_trans [of _ 0])
  then have cs: "u128_of_i64 F (wrap64 (x * int ?v)) = nat x * ?v"
    using x by (simp add: u128_of_i64 nat_mult_distrib)
  have "?b * ?v < 2 ^ 127"
    using b by (rule bound_mult_128) (use ok' vs1_bound [of "vesting_seconds p"] in \<open>simp add: cdd_ok_def\<close>)
  then have acc: "cdd_accrued p ?b t < 2 ^ 127" by (simp add: cdd_accrued_def min_less_iff_disj)
  have "int (nat x * ?v) < int (2 ^ 63)" using x prod by simp
  then have "nat x * ?v < 2 ^ 63" by (simp only: of_nat_less_iff)
  then have pol': "cdd_on_deposit_vested F p ?ctx = ?p'"
    using ok' acc
    by (simp add: cdd_on_deposit_vested_def cdd_on_deposit_def update_coin_seconds_earned_def
        compute_coin_seconds_earned_exact vbo_ctx_def Let_def cs u128_add)
  have b': "nat (amount (vb_balance vb) + x) = ?b + nat x"
    using ok' x by (simp add: cdd_ok_def nat_add_distrib)
  have "cdd_accrued p ?b t \<le> ?b * ?v" by (simp add: cdd_accrued_def)
  then have le: "cdd_accrued p ?b t + nat x * ?v \<le> (?b + nat x) * ?v" by (simp add: add_mult_distrib)
  then have "cdd_vested ?p' (?b + nat x) t = cdd_vested p ?b t + nat x"
    by (simp add: cdd_vested_def cdd_accrued_def [of ?p'] min_absorb1)
  then show ?thesis
    using x fits ok' le pol
    by (auto simp: vbo_deposit_vested_def pol' vbo_ok_def vbo_vested_def cdd_ok_def b')
qed

end

text \<open>A vesting balance is a locked balance, for every \<^verbatim>\<open>fc\<close> that keeps its laws.\<close>

definition vbo_asset :: "vesting_balance_object \<Rightarrow> share_type \<Rightarrow> asset" where
  "vbo_asset vb x = \<lparr>amount = x, asset_id = asset_id (vb_balance vb)\<rparr>"

sublocale fc_laws \<subseteq> locked: locked_balance vbo_ok "\<lambda>vb. amount (vb_balance vb)" vbo_vested
  "\<lambda>vb t x. vbo_is_withdraw_allowed F vb t (vbo_asset vb x)"
  "\<lambda>vb t x. vbo_withdraw F vb t (vbo_asset vb x)"
proof unfold_locales
  show "0 \<le> vbo_vested v t \<and> vbo_vested v t \<le> amount (vb_balance v)" if "vbo_ok v t" for v t
    using that by (rule vbo_vested_range)
  show "vbo_ok v t' \<and> vbo_vested v t \<le> vbo_vested v t'"
    if "vbo_ok v t" "t \<le> t'" "t' < 2 ^ 32" for v t t'
    using that by (rule vbo_later)
  show "vbo_is_withdraw_allowed F v t (vbo_asset v x) = Inr (x \<le> vbo_vested v t)"
    if "vbo_ok v t" for v t x
    using that by (simp add: vbo_is_withdraw_allowed_exact vbo_asset_def)
  show "\<exists>v'. vbo_withdraw F v t (vbo_asset v x) = Inr v' \<and>
      vbo_ok v' t \<and> amount (vb_balance v') = amount (vb_balance v) - x \<and>
      vbo_vested v' t = vbo_vested v t - x"
    if "vbo_ok v t" "0 \<le> x" "x \<le> vbo_vested v t" for v t x
    using vbo_withdraw_exact [OF that] by (auto simp: vbo_asset_def)
qed

context fc_laws
begin

lemmas vbo_run_bounded = locked.run_bounded

end

section \<open>Properties\<close>

text \<open>C20. Withdrawing: at any time \<^verbatim>\<open>get_allowed_withdraw\<close> returns the vested part, which
  lies between nothing and the whole balance; \<^verbatim>\<open>is_withdraw_allowed\<close> accepts exactly the
  amounts up to it; and withdrawing an accepted amount succeeds, takes it from the balance and from
  the vested part and keeps the invariant, for both policies.\<close>

theorem vbo_withdraw_contract:
  assumes "fc_laws F" and "vbo_ok vb t" and "0 \<le> x"
  shows "vbo_get_allowed_withdraw F vb t = Inr (vbo_asset vb (vbo_vested vb t)) \<and>
    0 \<le> vbo_vested vb t \<and> vbo_vested vb t \<le> amount (vb_balance vb) \<and>
    vbo_is_withdraw_allowed F vb t (vbo_asset vb x) = Inr (x \<le> vbo_vested vb t) \<and>
    (x \<le> vbo_vested vb t \<longrightarrow> (\<exists>vb'. vbo_withdraw F vb t (vbo_asset vb x) = Inr vb' \<and> vbo_ok vb' t \<and>
       vb_balance vb' = vbo_asset vb (amount (vb_balance vb) - x) \<and>
       vbo_vested vb' t = vbo_vested vb t - x))"
  using fc_laws.vbo_get_allowed_withdraw_exact [OF assms(1,2)] fc_laws.vbo_vested_range [OF assms(1,2)]
    fc_laws.vbo_is_withdraw_allowed_exact [OF assms(1,2)] fc_laws.vbo_withdraw_exact [OF assms]
  by (auto simp: vbo_asset_def)

definition sample_vbo :: vesting_balance_object where
  "sample_vbo = \<lparr>vb_owner = 7, vb_balance = core_asset 1000,
     vb_policy = Cdd \<lparr>vesting_seconds = 100, coin_seconds_earned = 20000, start_claim = 0,
       coin_seconds_earned_last_update = 1000\<rparr>, vb_type = No_type\<rparr>"

lemmas sample_vbo_eval = sample_vbo_def vbo_ok_def cdd_ok_def vbo_vested_def cdd_vested_def
  cdd_accrued_def vs1_def in_int64_def vbo_asset_def core_asset_def

theorem vbo_withdraw_contract_witness:
  "vbo_vested sample_vbo 1030 = 500 \<and>
   (\<exists>vb'. vbo_withdraw checked_fc sample_vbo 1030 (core_asset 350) = Inr vb' \<and> vbo_ok vb' 1030 \<and>
     vb_balance vb' = core_asset 650 \<and> vbo_vested vb' 1030 = 150)"
  using vbo_withdraw_contract [of checked_fc sample_vbo 1030 350] checked.fc_laws_axioms
  by (simp add: sample_vbo_eval)

text \<open>Any sequence of withdrawals, at times that do not decrease, that passes the check of the
  evaluator each time never takes more than the balance held at the start: the balance falls by
  exactly the sum of the withdrawals and is never negative.\<close>

theorem vbo_withdraw_run_bounded:
  assumes "fc_laws F" and "vbo_ok vb t"
    and "withdraw_run (\<lambda>v t x. vbo_is_withdraw_allowed F v t (vbo_asset v x))
           (\<lambda>v t x. vbo_withdraw F v t (vbo_asset v x)) vb t ws = Inr vb'"
  shows "amount (vb_balance vb') = amount (vb_balance vb) - sum_list (map snd ws) \<and>
    0 \<le> amount (vb_balance vb')"
  using fc_laws.vbo_run_bounded [OF assms] by simp

theorem vbo_withdraw_run_bounded_witness:
  "\<exists>vb'. withdraw_run (\<lambda>v t x. vbo_is_withdraw_allowed checked_fc v t (vbo_asset v x))
     (\<lambda>v t x. vbo_withdraw checked_fc v t (vbo_asset v x)) sample_vbo 1000 [(1030, 350), (1130, 650)]
     = Inr vb' \<and> amount (vb_balance vb') = 0"
proof -
  let ?run = "withdraw_run (\<lambda>v t x. vbo_is_withdraw_allowed checked_fc v t (vbo_asset v x))
     (\<lambda>v t x. vbo_withdraw checked_fc v t (vbo_asset v x)) sample_vbo 1000 [(1030, 350), (1130, 650)]"
  have "is_ok ?run"
    by (simp add: sample_vbo_eval vbo_is_withdraw_allowed_def vbo_withdraw_def cdd_is_withdraw_allowed_def
        cdd_get_allowed_withdraw_def cdd_on_withdraw_def update_coin_seconds_earned_def Let_def vbo_ctx_def
        compute_coin_seconds_earned_def checked_fc_def safe_check_def asset_le_def asset_less_def
        asset_sub_def wrap64_def)
  from this [unfolded is_ok_iff] obtain vb' where run: "?run = Inr vb'" ..
  have "vbo_ok sample_vbo 1000" by (simp add: sample_vbo_eval)
  from vbo_withdraw_run_bounded [OF checked.fc_laws_axioms this run] have "amount (vb_balance vb') = 0"
    by (simp add: sample_vbo_def)
  with run show ?thesis by (intro exI conjI)
qed

text \<open>Depositing into a coin-days-destroyed balance: a plain deposit adds the coins and leaves the
  vested part as it was; a vested deposit makes the new coins available at once (after
  \<^verbatim>\<open>start_claim\<close>), provided the product of amount and vesting period fits in 64 bits.\<close>

theorem vbo_deposit_contract:
  assumes "fc_laws F" and "vbo_ok vb t" and "vb_policy vb = Cdd p" and "0 \<le> x"
    and "in_int64 (amount (vb_balance vb) + x)"
  shows "(\<exists>vb'. vbo_deposit F vb t (vbo_asset vb x) = Inr vb' \<and> vbo_ok vb' t \<and>
       vb_balance vb' = vbo_asset vb (amount (vb_balance vb) + x) \<and> vbo_vested vb' t = vbo_vested vb t) \<and>
    (x * int (vs1 (vesting_seconds p)) < 2 ^ 63 \<longrightarrow>
     (\<exists>vb'. vbo_deposit_vested F vb t (vbo_asset vb x) = Inr vb' \<and> vbo_ok vb' t \<and>
       vb_balance vb' = vbo_asset vb (amount (vb_balance vb) + x) \<and>
       vbo_vested vb' t = (if t \<le> start_claim p then 0 else vbo_vested vb t + x)))"
  using fc_laws.vbo_deposit_exact [OF assms] fc_laws.vbo_deposit_vested_exact [OF assms]
  by (auto simp: vbo_asset_def)

theorem vbo_deposit_contract_witness:
  "(\<exists>vb'. vbo_deposit checked_fc sample_vbo 1030 (core_asset 200) = Inr vb' \<and>
      vb_balance vb' = core_asset 1200 \<and> vbo_vested vb' 1030 = 500) \<and>
   (\<exists>vb'. vbo_deposit_vested checked_fc sample_vbo 1030 (core_asset 200) = Inr vb' \<and>
      vb_balance vb' = core_asset 1200 \<and> vbo_vested vb' 1030 = 700)"
  using vbo_deposit_contract [of checked_fc sample_vbo 1030 _ 200] checked.fc_laws_axioms
  by (auto simp: sample_vbo_eval)

text \<open>Maturity: once \<^verbatim>\<open>max(vesting_seconds, 1)\<close> seconds have passed since the last update and
  the claim has started, the whole balance may be withdrawn, and withdrawing it leaves zero.\<close>

theorem cdd_matures:
  assumes "fc_laws F" and "vbo_ok vb t" and "vb_policy vb = Cdd p"
    and "coin_seconds_earned_last_update p + vs1 (vesting_seconds p) \<le> t" and "start_claim p < t"
  shows "vbo_get_allowed_withdraw F vb t = Inr (vb_balance vb) \<and>
    (\<exists>vb'. vbo_withdraw F vb t (vb_balance vb) = Inr vb' \<and> amount (vb_balance vb') = 0)"
proof -
  have "0 \<le> amount (vb_balance vb)" using assms(2,3) by (simp add: vbo_ok_def cdd_ok_def)
  moreover from this have v: "vbo_vested vb t = amount (vb_balance vb)"
    using assms(3-5) by (simp add: vbo_vested_def cdd_fully_vested)
  ultimately show ?thesis
    using fc_laws.vbo_get_allowed_withdraw_exact [OF assms(1,2)]
      fc_laws.vbo_withdraw_exact [OF assms(1,2), of "amount (vb_balance vb)"]
    by auto
qed

theorem cdd_matures_witness:
  "vbo_get_allowed_withdraw checked_fc sample_vbo 1100 = Inr (core_asset 1000)"
  using cdd_matures [of checked_fc sample_vbo 1100] checked.fc_laws_axioms
  by (simp add: sample_vbo_eval)

end
