(* ===== verification/Price.thy ===== *)
theory Price
  imports Asset
begin

text \<open>
  \<^verbatim>\<open>struct price\<close> of \<^verbatim>\<open>protocol/asset.hpp\<close> and its operators in
  \<^verbatim>\<open>protocol/asset.cpp\<close>: a ratio of two amounts, compared by cross multiplication in 128
  bits, and the conversion of an amount at a price, which rounds down.
\<close>

record price =
  base :: asset
  quote :: asset

definition null_price :: price where
  "null_price = \<lparr>base = core_asset 0, quote = core_asset 0\<rparr>"

definition cross :: "fc_lib \<Rightarrow> asset \<Rightarrow> asset \<Rightarrow> nat" where
  "cross F x y = mp_mul F (mp_of_i64 F (amount x)) (mp_of_i64 F (amount y))"

definition price_eq :: "fc_lib \<Rightarrow> price \<Rightarrow> price \<Rightarrow> bool" where
  "price_eq F a b =
     (if (asset_id (base a), asset_id (quote a)) \<noteq> (asset_id (base b), asset_id (quote b)) then False
      else cross F (quote b) (base a) = cross F (quote a) (base b))"

definition price_less :: "fc_lib \<Rightarrow> price \<Rightarrow> price \<Rightarrow> bool" where
  "price_less F a b =
     (if asset_id (base a) < asset_id (base b) then True
      else if asset_id (base b) < asset_id (base a) then False
      else if asset_id (quote a) < asset_id (quote b) then True
      else if asset_id (quote b) < asset_id (quote a) then False
      else cross F (quote b) (base a) < cross F (quote a) (base b))"

definition price_le :: "fc_lib \<Rightarrow> price \<Rightarrow> price \<Rightarrow> bool" where
  "price_le F a b = (price_eq F a b \<or> price_less F a b)"

definition price_greater :: "fc_lib \<Rightarrow> price \<Rightarrow> price \<Rightarrow> bool" where
  "price_greater F a b = (\<not> price_le F a b)"

definition price_ge :: "fc_lib \<Rightarrow> price \<Rightarrow> price \<Rightarrow> bool" where
  "price_ge F a b = (\<not> price_less F a b)"

definition price_invert :: "price \<Rightarrow> price" where
  "price_invert p = \<lparr>base = quote p, quote = base p\<rparr>"

definition unit_price :: "asset_id_t \<Rightarrow> price" where
  "unit_price a = \<lparr>base = \<lparr>amount = 1, asset_id = a\<rparr>, quote = \<lparr>amount = 1, asset_id = a\<rparr>\<rparr>"

definition asset_div :: "asset \<Rightarrow> asset \<Rightarrow> price result" where
  "asset_div b q =
     ebind (fc_assert (asset_id b \<noteq> asset_id q) ''base.asset_id != quote.asset_id'') (\<lambda>_.
     Inr \<lparr>base = b, quote = q\<rparr>)"

definition price_max :: "asset_id_t \<Rightarrow> asset_id_t \<Rightarrow> price result" where
  "price_max b q =
     asset_div \<lparr>amount = GRAPHENE_MAX_SHARE_SUPPLY, asset_id = b\<rparr> \<lparr>amount = 1, asset_id = q\<rparr>"

definition price_min :: "asset_id_t \<Rightarrow> asset_id_t \<Rightarrow> price result" where
  "price_min b q =
     asset_div \<lparr>amount = 1, asset_id = b\<rparr> \<lparr>amount = GRAPHENE_MAX_SHARE_SUPPLY, asset_id = q\<rparr>"

text \<open>One branch of \<^verbatim>\<open>asset * price\<close>: \<open>from\<close> and \<open>to\<close> are the two sides of the price.\<close>

definition convert_at :: "fc_lib \<Rightarrow> asset \<Rightarrow> asset \<Rightarrow> asset \<Rightarrow> asset result" where
  "convert_at F a from to =
     ebind (fc_assert (0 < amount from) ''amount.value > 0'') (\<lambda>_.
     let result = mp_div F (cross F a to) (mp_of_i64 F (amount from)) in
     ebind (fc_assert (int result \<le> GRAPHENE_MAX_SHARE_SUPPLY) ''result <= GRAPHENE_MAX_SHARE_SUPPLY'') (\<lambda>_.
     Inr \<lparr>amount = mp_to_i64 F result, asset_id = asset_id to\<rparr>))"

definition asset_mul_price :: "fc_lib \<Rightarrow> asset \<Rightarrow> price \<Rightarrow> asset result" where
  "asset_mul_price F a b =
     (if asset_id a = asset_id (base b) then convert_at F a (base b) (quote b)
      else if asset_id a = asset_id (quote b) then convert_at F a (quote b) (base b)
      else Inl (Thrown ''invalid asset * price''))"

definition price_is_null :: "fc_lib \<Rightarrow> price \<Rightarrow> bool" where
  "price_is_null F p = price_eq F p null_price"

definition price_validate :: "price \<Rightarrow> unit result" where
  "price_validate p =
     ebind (fc_assert (0 < amount (base p)) ''base.amount > share_type(0)'') (\<lambda>_.
     ebind (fc_assert (0 < amount (quote p)) ''quote.amount > share_type(0)'') (\<lambda>_.
     fc_assert (asset_id (base p) \<noteq> asset_id (quote p)) ''base.asset_id != quote.asset_id''))"

text \<open>The value of a price as a rational number, and the prices that have one.\<close>

definition price_value :: "price \<Rightarrow> rat" where
  "price_value p = of_int (amount (base p)) / of_int (amount (quote p))"

definition price_pos :: "price \<Rightarrow> bool" where
  "price_pos p \<longleftrightarrow> 0 < amount (base p) \<and> in_int64 (amount (base p)) \<and>
     0 < amount (quote p) \<and> in_int64 (amount (quote p))"

definition same_market :: "price \<Rightarrow> price \<Rightarrow> bool" where
  "same_market a b \<longleftrightarrow> asset_id (base a) = asset_id (base b) \<and> asset_id (quote a) = asset_id (quote b)"

section \<open>Lemmas\<close>

context fc_laws
begin

lemma cross_exact:
  assumes "0 \<le> amount x" "in_int64 (amount x)" "0 \<le> amount y" "in_int64 (amount y)"
  shows "cross F x y = nat (amount x * amount y)"
proof -
  have "nat (amount x) < 2 ^ 63" "nat (amount y) < 2 ^ 63" using assms int64_nat_bound by blast+
  then have "nat (amount x) * nat (amount y) < 2 ^ 127" by (intro bound_mult_128) simp_all
  then show ?thesis using assms by (simp add: cross_def mp_of_i64 mp_mul nat_mult_distrib)
qed

lemma convert_at_exact:
  assumes "0 \<le> amount a" "in_int64 (amount a)" "0 < amount x" "in_int64 (amount x)"
    and "0 \<le> amount y" "in_int64 (amount y)"
  shows "convert_at F a x y =
    (if amount a * amount y div amount x \<le> GRAPHENE_MAX_SHARE_SUPPLY
     then Inr \<lparr>amount = amount a * amount y div amount x, asset_id = asset_id y\<rparr>
     else Inl (Assert_failed ''result <= GRAPHENE_MAX_SHARE_SUPPLY''))"
proof -
  have "nat (amount a) < 2 ^ 63" "nat (amount y) < 2 ^ 63" using assms int64_nat_bound by blast+
  then have "nat (amount a) * nat (amount y) < 2 ^ 127" by (intro bound_mult_128) simp_all
  then have m: "nat (amount a * amount y) < 2 ^ 128" using assms by (simp add: nat_mult_distrib)
  have q: "mp_div F (cross F a y) (mp_of_i64 F (amount x)) = nat (amount a * amount y div amount x)"
    using assms m by (simp add: cross_exact mp_of_i64 mp_div nat_div_distrib)
  have nn: "0 \<le> amount a * amount y div amount x" using assms by (simp add: pos_imp_zdiv_nonneg_iff)
  have "mp_to_i64 F (nat (amount a * amount y div amount x)) = amount a * amount y div amount x"
    if "amount a * amount y div amount x \<le> GRAPHENE_MAX_SHARE_SUPPLY"
    using that nn by (subst mp_to_i64) (simp_all add: GRAPHENE_MAX_SHARE_SUPPLY_def)
  then show ?thesis
    using assms nn by (simp add: convert_at_def q Let_def fc_assert_def)
qed

lemma price_less_value:
  assumes "price_pos a" "price_pos b" "same_market a b"
  shows "price_less F a b \<longleftrightarrow> price_value a < price_value b"
    and "price_eq F a b \<longleftrightarrow> price_value a = price_value b"
proof -
  have "(price_value a < price_value b) =
      (of_int (amount (base a) * amount (quote b)) < (of_int (amount (base b) * amount (quote a)) :: rat))"
    using assms by (simp add: price_pos_def price_value_def field_simps)
  then have lt: "(price_value a < price_value b) =
      (amount (base a) * amount (quote b) < amount (base b) * amount (quote a))"
    by (simp only: of_int_less_iff)
  have "(price_value a = price_value b) =
      (of_int (amount (base a) * amount (quote b)) = (of_int (amount (base b) * amount (quote a)) :: rat))"
    using assms by (simp add: price_pos_def price_value_def field_simps)
  then have eq: "(price_value a = price_value b) =
      (amount (base a) * amount (quote b) = amount (base b) * amount (quote a))"
    by (simp only: of_int_eq_iff)
  have c: "cross F (quote b) (base a) = nat (amount (base a) * amount (quote b))"
    "cross F (quote a) (base b) = nat (amount (base b) * amount (quote a))"
    using assms by (simp_all add: cross_exact price_pos_def mult.commute)
  have p: "0 < amount (base a) * amount (quote b)" "0 < amount (base b) * amount (quote a)"
    using assms by (simp_all add: price_pos_def)
  show "price_less F a b \<longleftrightarrow> price_value a < price_value b"
    using assms(3) p by (simp add: price_less_def c lt same_market_def)
  show "price_eq F a b \<longleftrightarrow> price_value a = price_value b"
    using assms(3) p by (simp add: price_eq_def c eq same_market_def eq_nat_nat_iff)
qed

end

section \<open>Properties\<close>

text \<open>C22. The order of prices is the order of the ratios: for two prices of the same market with
  positive amounts, \<^verbatim>\<open><\<close>, \<^verbatim>\<open>==\<close>, \<^verbatim>\<open><=\<close>, \<^verbatim>\<open>>\<close> and \<^verbatim>\<open>>=\<close> compare the rational
  numbers base / quote exactly: no product is cut off, so exactly one of less, equal, greater holds.\<close>

theorem price_order_exact:
  assumes "fc_laws F" and "price_pos a" and "price_pos b" and "same_market a b"
  shows "price_less F a b = (price_value a < price_value b) \<and>
    price_eq F a b = (price_value a = price_value b) \<and>
    price_le F a b = (price_value a \<le> price_value b) \<and>
    price_greater F a b = (price_value b < price_value a) \<and>
    price_ge F a b = (price_value b \<le> price_value a)"
  using fc_laws.price_less_value [OF assms]
  by (auto simp: price_le_def price_greater_def price_ge_def)

theorem price_order_exact_witness:
  "price_less checked_fc
     \<lparr>base = \<lparr>amount = 1, asset_id = 0\<rparr>, quote = \<lparr>amount = 3, asset_id = 1\<rparr>\<rparr>
     \<lparr>base = \<lparr>amount = 9000000000000000000, asset_id = 0\<rparr>,
      quote = \<lparr>amount = 9000000000000000000, asset_id = 1\<rparr>\<rparr>"
  using price_order_exact [OF checked.fc_laws_axioms,
    of "\<lparr>base = \<lparr>amount = 1, asset_id = 0\<rparr>, quote = \<lparr>amount = 3, asset_id = 1\<rparr>\<rparr>"
       "\<lparr>base = \<lparr>amount = 9000000000000000000, asset_id = 0\<rparr>,
         quote = \<lparr>amount = 9000000000000000000, asset_id = 1\<rparr>\<rparr>"]
  by (simp add: price_pos_def same_market_def in_int64_def price_value_def)

text \<open>Converting an amount at a price and back never gains: the conversion is the exact quotient
  rounded down, it fails only when the result exceeds the largest supply, and converting the result
  back gives at most the amount one started with.\<close>

theorem convert_back_no_gain:
  assumes "fc_laws F" and "price_pos p" and "asset_id (base p) \<noteq> asset_id (quote p)"
    and "asset_id a = asset_id (base p)" and "0 \<le> amount a" and "in_int64 (amount a)"
    and "asset_mul_price F a p = Inr b" and "asset_mul_price F b p = Inr c"
  shows "amount b = amount a * amount (quote p) div amount (base p) \<and> asset_id b = asset_id (quote p) \<and>
    amount c \<le> amount a \<and> asset_id c = asset_id a"
proof -
  let ?x = "amount (base p)" and ?y = "amount (quote p)"
  have pos: "0 < ?x" "in_int64 ?x" "0 < ?y" "in_int64 ?y" using assms(2) by (simp_all add: price_pos_def)
  note ex = fc_laws.convert_at_exact [OF assms(1)]
  have b: "b = \<lparr>amount = amount a * ?y div ?x, asset_id = asset_id (quote p)\<rparr>" "amount b \<le> GRAPHENE_MAX_SHARE_SUPPLY"
    using assms(4-7) pos by (auto simp: asset_mul_price_def ex split: if_splits)
  moreover have nn: "0 \<le> amount b" using b pos assms(5) by (simp add: pos_imp_zdiv_nonneg_iff)
  moreover from this b(2) have "in_int64 (amount b)" by (simp add: in_int64_def GRAPHENE_MAX_SHARE_SUPPLY_def)
  ultimately have c: "c = \<lparr>amount = amount b * ?x div ?y, asset_id = asset_id (base p)\<rparr>"
    using assms(3,8) pos by (auto simp: asset_mul_price_def ex split: if_splits)
  have "amount b * ?x \<le> amount a * ?y" 
    using b(1) pos_mod_sign [OF pos(1), of "amount a * ?y"] by (simp flip: minus_mod_eq_div_mult)
  then have "amount b * ?x div ?y \<le> amount a" using pos(3) by (metis zdiv_mono1 nonzero_mult_div_cancel_right less_irrefl)
  with b c assms(4) show ?thesis by simp
qed

theorem convert_back_no_gain_witness:
  "\<exists>b c. asset_mul_price checked_fc (core_asset 10)
       \<lparr>base = core_asset 3, quote = \<lparr>amount = 7, asset_id = 1\<rparr>\<rparr> = Inr b \<and> amount b = 23 \<and>
     asset_mul_price checked_fc b \<lparr>base = core_asset 3, quote = \<lparr>amount = 7, asset_id = 1\<rparr>\<rparr> = Inr c \<and>
     amount c \<le> 10"
proof -
  let ?p = "\<lparr>base = core_asset 3, quote = \<lparr>amount = 7, asset_id = 1\<rparr>\<rparr>"
  have 1: "asset_mul_price checked_fc (core_asset 10) ?p = Inr \<lparr>amount = 23, asset_id = 1\<rparr>"
    by (simp add: asset_mul_price_def convert_at_def cross_def checked_fc_def wrap64_def
        GRAPHENE_MAX_SHARE_SUPPLY_def)
  have 2: "asset_mul_price checked_fc \<lparr>amount = 23, asset_id = 1\<rparr> ?p = Inr (core_asset 9)"
    by (simp add: asset_mul_price_def convert_at_def cross_def checked_fc_def wrap64_def
        GRAPHENE_MAX_SHARE_SUPPLY_def core_asset_def)
  from convert_back_no_gain [OF checked.fc_laws_axioms _ _ _ _ _ 1 2] 1 2 show ?thesis
    by (simp add: price_pos_def in_int64_def)
qed

end
