(* ===== verification/Fee_Schedule.thy ===== *)
theory Fee_Schedule
  imports Price
begin

text \<open>
  \<^verbatim>\<open>protocol/fee_schedule.cpp\<close>: the fee of an operation. The operation's own
  \<^verbatim>\<open>calculate_fee\<close> (an argument here, see the theories of the operations) is applied to the
  parameters of the schedule, or to the defaults of the operation's struct when the schedule has
  none; the value is scaled, converted at a price, and raised until it is worth the scaled value.
\<close>

record fee_parameters =
  fp_fee :: nat
  fp_price_per_kbyte :: nat

datatype operation_tag =
    Op_transfer | Op_override_transfer
  | Op_listing_create | Op_listing_update | Op_listing_delete | Op_listing_report
  | Op_escrow_create | Op_escrow_release | Op_escrow_return | Op_escrow_extend
  | Op_exchange_create | Op_exchange_complete
  | Op_welcome_bonus | Op_referral_bonus | Op_sale_bonus | Op_verification
  | Op_founder_bonus | Op_witness_bonus
  | Op_vesting_balance_create | Op_vesting_balance_withdraw

record fee_schedule =
  fs_parameters :: "operation_tag \<Rightarrow> fee_parameters option"
  fs_scale :: nat

definition GRAPHENE_BLOCKCHAIN_PRECISION :: nat where
  "GRAPHENE_BLOCKCHAIN_PRECISION = 100000"

text \<open>The initial values in the \<^verbatim>\<open>fee_parameters_type\<close> of each operation.\<close>

definition default_fee_parameters :: "operation_tag \<Rightarrow> fee_parameters" where
  "default_fee_parameters tag =
     (let P = GRAPHENE_BLOCKCHAIN_PRECISION in
      case tag of
        Op_transfer \<Rightarrow> \<lparr>fp_fee = 20 * P, fp_price_per_kbyte = 10 * P\<rparr>
      | Op_override_transfer \<Rightarrow> \<lparr>fp_fee = 20 * P, fp_price_per_kbyte = 10\<rparr>
      | Op_listing_create \<Rightarrow> \<lparr>fp_fee = 20 * P, fp_price_per_kbyte = 0\<rparr>
      | Op_listing_update \<Rightarrow> \<lparr>fp_fee = 20 * P, fp_price_per_kbyte = 0\<rparr>
      | Op_listing_delete \<Rightarrow> \<lparr>fp_fee = 0, fp_price_per_kbyte = 0\<rparr>
      | Op_listing_report \<Rightarrow> \<lparr>fp_fee = P, fp_price_per_kbyte = 0\<rparr>
      | Op_escrow_create \<Rightarrow> \<lparr>fp_fee = 20 * P, fp_price_per_kbyte = 10\<rparr>
      | Op_escrow_release \<Rightarrow> \<lparr>fp_fee = 0, fp_price_per_kbyte = 10\<rparr>
      | Op_escrow_return \<Rightarrow> \<lparr>fp_fee = 0, fp_price_per_kbyte = 10\<rparr>
      | Op_escrow_extend \<Rightarrow> \<lparr>fp_fee = P, fp_price_per_kbyte = 10\<rparr>
      | Op_exchange_create \<Rightarrow> \<lparr>fp_fee = 0, fp_price_per_kbyte = 0\<rparr>
      | Op_exchange_complete \<Rightarrow> \<lparr>fp_fee = 0, fp_price_per_kbyte = 0\<rparr>
      | Op_welcome_bonus \<Rightarrow> \<lparr>fp_fee = 0, fp_price_per_kbyte = 0\<rparr>
      | Op_referral_bonus \<Rightarrow> \<lparr>fp_fee = 0, fp_price_per_kbyte = 0\<rparr>
      | Op_sale_bonus \<Rightarrow> \<lparr>fp_fee = 0, fp_price_per_kbyte = 0\<rparr>
      | Op_verification \<Rightarrow> \<lparr>fp_fee = 0, fp_price_per_kbyte = 0\<rparr>
      | Op_founder_bonus \<Rightarrow> \<lparr>fp_fee = 0, fp_price_per_kbyte = 0\<rparr>
      | Op_witness_bonus \<Rightarrow> \<lparr>fp_fee = 0, fp_price_per_kbyte = 0\<rparr>
      | Op_vesting_balance_create \<Rightarrow> \<lparr>fp_fee = P, fp_price_per_kbyte = 0\<rparr>
      | Op_vesting_balance_withdraw \<Rightarrow> \<lparr>fp_fee = 0, fp_price_per_kbyte = 0\<rparr>)"

definition calculate_data_fee :: "fc_lib \<Rightarrow> nat \<Rightarrow> nat \<Rightarrow> nat result" where
  "calculate_data_fee F bytes price_per_kbyte =
     (let result = u128_div F (u128_mul F bytes price_per_kbyte) 1024 in
      ebind (fc_assert (int result \<le> GRAPHENE_MAX_SHARE_SUPPLY) ''result <= GRAPHENE_MAX_SHARE_SUPPLY'') (\<lambda>_.
      u128_to_u64 F result))"

text \<open>\<^verbatim>\<open>if(memo) core_fee_required += calculate_data_fee(...)\<close>; the packed size of a memo comes
  from \<^verbatim>\<open>fc::raw::pack_size\<close> and is part of the operation here.\<close>

definition add_memo_fee :: "fc_lib \<Rightarrow> fee_parameters \<Rightarrow> nat option \<Rightarrow> share_type \<Rightarrow> share_type result" where
  "add_memo_fee F k memo_size core_fee =
     (case memo_size of
        None \<Rightarrow> Inr core_fee
      | Some n \<Rightarrow> ebind (calculate_data_fee F n (fp_price_per_kbyte k)) (\<lambda>x. safe_add F core_fee (wrap64 (int x))))"

text \<open>\<^verbatim>\<open>base_operation::calculate_fee\<close>, for the operations that do not define their own.\<close>

definition base_calculate_fee :: "fee_parameters \<Rightarrow> share_type result" where
  "base_calculate_fee k = Inr (wrap64 (int (fp_fee k)))"

text \<open>\<^verbatim>\<open>fee_helper::cget\<close> and the visitor: an assertion that fails is caught, and the fee is
  computed again with the parameters found or the defaults.\<close>

definition fee_helper_cget :: "fee_schedule \<Rightarrow> operation_tag \<Rightarrow> fee_parameters result" where
  "fee_helper_cget fs tag =
     (case fs_parameters fs tag of
        None \<Rightarrow> Inl (Assert_failed ''itr != parameters.end()'')
      | Some k \<Rightarrow> Inr k)"

definition calc_fee_visitor ::
  "fee_schedule \<Rightarrow> operation_tag \<Rightarrow> (fee_parameters \<Rightarrow> share_type result) \<Rightarrow> nat result" where
  "calc_fee_visitor fs tag op_fee =
     (let as_u64 = (\<lambda>v. nat (v mod 2 ^ 64)) in
      case ebind (fee_helper_cget fs tag) op_fee of
        Inr v \<Rightarrow> Inr (as_u64 v)
      | Inl (Assert_failed _) \<Rightarrow>
          emap as_u64 (op_fee
            (case fs_parameters fs tag of Some k \<Rightarrow> k | None \<Rightarrow> default_fee_parameters tag))
      | Inl e \<Rightarrow> Inl e)"

text \<open>\<^verbatim>\<open>while( result * core_exchange_rate < asset( scaled ) ) result.amount++\<close>. Not returning
  would be \<open>None\<close>.\<close>

partial_function (option) raise_fee :: "fc_lib \<Rightarrow> price \<Rightarrow> asset \<Rightarrow> asset \<Rightarrow> asset result option" where
  "raise_fee F rate target result =
     (case ebind (asset_mul_price F result rate) (\<lambda>v. asset_less v target) of
        Inl e \<Rightarrow> Some (Inl e)
      | Inr cheaper \<Rightarrow>
          (if cheaper then
             (case safe_add F (amount result) 1 of
                Inl e \<Rightarrow> Some (Inl e)
              | Inr a \<Rightarrow> raise_fee F rate target (result\<lparr>amount := a\<rparr>))
           else Some (Inr result)))"

definition scaled_fee :: "fc_lib \<Rightarrow> fee_schedule \<Rightarrow> nat \<Rightarrow> nat result" where
  "scaled_fee F fs base_value =
     (let scaled = u128_div F (u128_mul F base_value (fs_scale fs)) GRAPHENE_100_PERCENT in
      ebind (fc_assert (int scaled \<le> GRAPHENE_MAX_SHARE_SUPPLY) ''scaled <= GRAPHENE_MAX_SHARE_SUPPLY'') (\<lambda>_.
      u128_to_u64 F scaled))"

definition calculate_fee ::
  "fc_lib \<Rightarrow> fee_schedule \<Rightarrow> operation_tag \<Rightarrow> (fee_parameters \<Rightarrow> share_type result) \<Rightarrow> price
    \<Rightarrow> asset result option" where
  "calculate_fee F fs tag op_fee core_exchange_rate =
     (case ebind (calc_fee_visitor fs tag op_fee) (\<lambda>base_value.
           ebind (scaled_fee F fs base_value) (\<lambda>scaled.
           ebind (asset_mul_price F (core_asset (wrap64 (int scaled))) core_exchange_rate) (\<lambda>result.
           Inr (core_asset (wrap64 (int scaled)), result)))) of
        Inl e \<Rightarrow> Some (Inl e)
      | Inr (target, result) \<Rightarrow>
          map_option (\<lambda>r. ebind r (\<lambda>a.
              ebind (fc_assert (amount a \<le> GRAPHENE_MAX_SHARE_SUPPLY) ''result.amount <= GRAPHENE_MAX_SHARE_SUPPLY'') (\<lambda>_.
              Inr a)))
            (raise_fee F core_exchange_rate target result))"

text \<open>
  \<^verbatim>\<open>calculate_fee_for_operation\<close> of the evaluator: the amount of the fee at the unit price of the
  core asset. The loop always returns there (see below), so the last case does not arise.
\<close>

definition required_fee ::
  "fc_lib \<Rightarrow> fee_schedule \<Rightarrow> operation_tag \<Rightarrow> (fee_parameters \<Rightarrow> share_type result) \<Rightarrow> share_type result" where
  "required_fee F fs tag op_fee =
     (case calculate_fee F fs tag op_fee (unit_price 0) of
        Some r \<Rightarrow> emap amount r
      | None \<Rightarrow> Inl (Thrown ''no result''))"

section \<open>Lemmas\<close>

text \<open>The least amount at \<open>b\<close> core per \<open>q\<close> units that is worth \<open>s\<close> core is the quotient rounded
  down, or one more.\<close>

lemma worth_iff:
  assumes q: "0 < (q::int)"
  shows "s \<le> n * b div q \<longleftrightarrow> s * q \<le> n * b"
proof (intro iffI)
  assume "s * q \<le> n * b"
  then have "s * q div q \<le> n * b div q" using q by (intro zdiv_mono1)
  with q show "s \<le> n * b div q" by simp
next
  assume "s \<le> n * b div q"
  then have "s * q \<le> n * b div q * q" using q by (intro mult_right_mono) simp_all
  also have "\<dots> \<le> n * b" using pos_mod_sign [OF q, of "n * b"] by (simp flip: minus_mod_eq_div_mult)
  finally show "s * q \<le> n * b" .
qed

lemma quotient_suffices:
  assumes "0 < (b::int)" and "0 < q"
  shows "s \<le> (s * q div b + 1) * b div q"
proof -
  have "s * q < (s * q div b + 1) * b"
    using assms(1) pos_mod_bound [OF assms(1), of "s * q"] by (simp add: algebra_simps flip: minus_mod_eq_mult_div)
  then show ?thesis using assms(2) by (simp add: worth_iff)
qed

lemma quotient_minimal:
  assumes "0 < (b::int)" and "0 < q" and "s \<le> n * b div q"
  shows "s * q div b \<le> n"
proof -
  have "s * q \<le> n * b" using assms by (simp add: worth_iff)
  then have "s * q div b \<le> n * b div b" using assms(1) by (rule zdiv_mono1)
  then show ?thesis using assms(1) by simp
qed

lemma least_worth:
  assumes "0 < (b::int)" and "0 < q"
  obtains m where "s \<le> m * b div q" and "\<forall>k. s \<le> k * b div q \<longrightarrow> m \<le> k"
proof (cases "s \<le> (s * q div b) * b div q")
  case True
  with quotient_minimal [OF assms, of s] that show thesis by blast
next
  case False
  have "s * q div b + 1 \<le> k" if k: "s \<le> k * b div q" for k
  proof -
    have "s * q div b \<le> k" by (rule quotient_minimal [OF assms k])
    moreover have "s * q div b \<noteq> k" using k False by auto
    ultimately show ?thesis by simp
  qed
  with quotient_suffices [OF assms] that show thesis by blast
qed

text \<open>
  The exchange rate of an asset against the core coin: a valid price with the core coin on either side, which is what
  \<^verbatim>\<open>asset_options::validate\<close> demands.
\<close>

definition core_side :: "price \<Rightarrow> asset" where
  "core_side p = (if asset_id (base p) = 0 then base p else quote p)"

definition other_side :: "price \<Rightarrow> asset" where
  "other_side p = (if asset_id (base p) = 0 then quote p else base p)"

definition core_rate :: "price \<Rightarrow> bool" where
  "core_rate p \<longleftrightarrow> is_ok (price_validate p) \<and> (asset_id (base p) = 0 \<or> asset_id (quote p) = 0) \<and>
     in_int64 (amount (base p)) \<and> in_int64 (amount (quote p))"

lemma core_rateD:
  assumes "core_rate p"
  shows "0 < amount (core_side p)" and "0 < amount (other_side p)"
    and "in_int64 (amount (core_side p))" and "in_int64 (amount (other_side p))"
    and "asset_id (core_side p) = 0" and "asset_id (other_side p) \<noteq> 0"
  using assms by (auto simp: core_rate_def price_validate_def core_side_def other_side_def is_ok_iff)

context fc_laws
begin

text \<open>At the unit price of the core asset the loop does nothing.\<close>

lemma mul_unit_price:
  "0 \<le> s \<Longrightarrow> s \<le> GRAPHENE_MAX_SHARE_SUPPLY \<Longrightarrow>
   asset_mul_price F (core_asset s) (unit_price 0) = Inr (core_asset s)"
  using convert_at_exact [of "core_asset s" "\<lparr>amount = 1, asset_id = 0\<rparr>" "\<lparr>amount = 1, asset_id = 0\<rparr>"]
  by (simp add: asset_mul_price_def unit_price_def in_int64_def GRAPHENE_MAX_SHARE_SUPPLY_def core_asset_def)

lemma raise_fee_unit:
  "0 \<le> s \<Longrightarrow> s \<le> GRAPHENE_MAX_SHARE_SUPPLY \<Longrightarrow>
   raise_fee F (unit_price 0) (core_asset s) (core_asset s) = Some (Inr (core_asset s))"
  by (subst raise_fee.simps) (simp add: mul_unit_price asset_less_def)

text \<open>At the exchange rate of another asset it stops after at most one step, at the least sufficient amount.\<close>

lemma mul_core:
  assumes "core_rate rate" and "0 \<le> s" and "s \<le> GRAPHENE_MAX_SHARE_SUPPLY"
  shows "asset_mul_price F (core_asset s) rate =
    (if s * amount (other_side rate) div amount (core_side rate) \<le> GRAPHENE_MAX_SHARE_SUPPLY
     then Inr \<lparr>amount = s * amount (other_side rate) div amount (core_side rate), asset_id = asset_id (other_side rate)\<rparr>
     else Inl (Assert_failed ''result <= GRAPHENE_MAX_SHARE_SUPPLY''))"
proof -
  note R = core_rateD [OF assms(1)]
  have "asset_mul_price F (core_asset s) rate = convert_at F (core_asset s) (core_side rate) (other_side rate)"
    using R(5) by (auto simp: asset_mul_price_def core_side_def other_side_def split: if_splits)
  moreover have "in_int64 s" using assms(2,3) by (simp add: in_int64_def GRAPHENE_MAX_SHARE_SUPPLY_def)
  ultimately show ?thesis using R assms(2) by (simp add: convert_at_exact)
qed

lemma mul_other:
  assumes "core_rate rate" and "0 \<le> n" and "in_int64 n"
  shows "asset_mul_price F \<lparr>amount = n, asset_id = asset_id (other_side rate)\<rparr> rate =
    (if n * amount (core_side rate) div amount (other_side rate) \<le> GRAPHENE_MAX_SHARE_SUPPLY
     then Inr (core_asset (n * amount (core_side rate) div amount (other_side rate)))
     else Inl (Assert_failed ''result <= GRAPHENE_MAX_SHARE_SUPPLY''))"
proof -
  note R = core_rateD [OF assms(1)]
  have "asset_mul_price F \<lparr>amount = n, asset_id = asset_id (other_side rate)\<rparr> rate =
      convert_at F \<lparr>amount = n, asset_id = asset_id (other_side rate)\<rparr> (other_side rate) (core_side rate)"
    using R(5,6) by (auto simp: asset_mul_price_def core_side_def other_side_def)
  with R assms(2,3) show ?thesis by (simp add: convert_at_exact core_asset_def)
qed

lemma raise_fee_exact:
  fixes rate :: price
  defines "c \<equiv> amount (core_side rate)" and "q \<equiv> amount (other_side rate)" and "i \<equiv> asset_id (other_side rate)"
  assumes rate: "core_rate rate" and s: "0 \<le> s" "s \<le> GRAPHENE_MAX_SHARE_SUPPLY"
    and n: "s * q div c \<le> GRAPHENE_MAX_SHARE_SUPPLY"
  obtains m where "raise_fee F rate (core_asset s) \<lparr>amount = s * q div c, asset_id = i\<rparr> =
      Some (if m * c div q \<le> GRAPHENE_MAX_SHARE_SUPPLY then Inr \<lparr>amount = m, asset_id = i\<rparr>
            else Inl (Assert_failed ''result <= GRAPHENE_MAX_SHARE_SUPPLY''))"
    and "s \<le> m * c div q" and "\<forall>k. s \<le> k * c div q \<longrightarrow> m \<le> k"
proof -
  let ?n = "s * q div c"
  have pos: "0 < c" "0 < q" using core_rateD(1,2) [OF rate] by (simp_all add: c_def q_def)
  have nn: "0 \<le> ?n" using s pos by (simp add: pos_imp_zdiv_nonneg_iff)
  have in64: "in_int64 ?n" "in_int64 (?n + 1)" using nn n by (simp_all add: in_int64_def GRAPHENE_MAX_SHARE_SUPPLY_def)
  note v = mul_other [OF rate, folded c_def q_def i_def]
  show ?thesis
  proof (cases "s \<le> ?n * c div q")
    case True
    have "raise_fee F rate (core_asset s) \<lparr>amount = ?n, asset_id = i\<rparr> =
        Some (if ?n * c div q \<le> GRAPHENE_MAX_SHARE_SUPPLY then Inr \<lparr>amount = ?n, asset_id = i\<rparr>
              else Inl (Assert_failed ''result <= GRAPHENE_MAX_SHARE_SUPPLY''))"
      using True by (subst raise_fee.simps) (simp add: v nn in64 asset_less_def)
    from that [OF this True] quotient_minimal [OF pos] show ?thesis by blast
  next
    case False
    then have less: "?n * c div q < s" by simp
    have enough: "s \<le> (?n + 1) * c div q" by (rule quotient_suffices [OF pos])
    have "raise_fee F rate (core_asset s) \<lparr>amount = ?n, asset_id = i\<rparr> = raise_fee F rate (core_asset s) \<lparr>amount = ?n + 1, asset_id = i\<rparr>"
      using less s(2) by (subst raise_fee.simps) (simp add: v nn in64 asset_less_def safe_add safe_check_def)
    also have "\<dots> = Some (if (?n + 1) * c div q \<le> GRAPHENE_MAX_SHARE_SUPPLY then Inr \<lparr>amount = ?n + 1, asset_id = i\<rparr>
        else Inl (Assert_failed ''result <= GRAPHENE_MAX_SHARE_SUPPLY''))"
      using enough nn by (subst raise_fee.simps) (simp add: v in64 asset_less_def)
    finally show ?thesis
    proof (rule that [OF _ enough], intro allI impI)
      fix k
      assume k: "s \<le> k * c div q"
      have "?n \<le> k" by (rule quotient_minimal [OF pos k])
      moreover have "?n \<noteq> k" using k less by auto
      ultimately show "?n + 1 \<le> k" by simp
    qed
  qed
qed

lemma scaled_fee_exact:
  assumes "v < 2 ^ 64" and "fs_scale fs < 2 ^ 32"
  shows "scaled_fee F fs v =
    (if int (v * fs_scale fs div 10000) \<le> GRAPHENE_MAX_SHARE_SUPPLY then Inr (v * fs_scale fs div 10000)
     else Inl (Assert_failed ''scaled <= GRAPHENE_MAX_SHARE_SUPPLY''))"
proof -
  have m: "v * fs_scale fs < 2 ^ 128"
  proof -
    have "v * fs_scale fs \<le> v * 2 ^ 32" using assms(2) by simp
    also have "\<dots> < 2 ^ 64 * 2 ^ 32" using assms(1) by (rule mult_strict_right_mono) simp
    finally show ?thesis by simp
  qed
  let ?x = "v * fs_scale fs div 10000"
  have x: "u128_div F (u128_mul F v (fs_scale fs)) GRAPHENE_100_PERCENT = ?x"
    using m by (simp add: GRAPHENE_100_PERCENT_def u128_mul u128_div)
  show ?thesis
  proof (cases "int ?x \<le> GRAPHENE_MAX_SHARE_SUPPLY")
    case True
    then have "?x < 2 ^ 64" by (simp add: GRAPHENE_MAX_SHARE_SUPPLY_def)
    with True show ?thesis by (simp only: scaled_fee_def Let_def x u128_to_u64 fc_assert_True ebind_Inr if_True)
  next
    case False
    then show ?thesis by (simp only: scaled_fee_def Let_def x fc_assert_False ebind_Inl if_False)
  qed
qed

lemma scaled_fee_bounds:
  assumes "scaled_fee F fs base_value = Inr s"
  shows "int s \<le> GRAPHENE_MAX_SHARE_SUPPLY \<and> wrap64 (int s) = int s"
proof -
  let ?x = "u128_div F (u128_mul F base_value (fs_scale fs)) GRAPHENE_100_PERCENT"
  have x: "int ?x \<le> GRAPHENE_MAX_SHARE_SUPPLY" "u128_to_u64 F ?x = Inr s"
    using assms by (auto simp: scaled_fee_def Let_def)
  then have "?x < 2 ^ 64" by (simp add: GRAPHENE_MAX_SHARE_SUPPLY_def)
  then have "s = ?x" using x(2) u128_to_u64 by auto
  with x(1) show ?thesis by (simp add: in_int64_def GRAPHENE_MAX_SHARE_SUPPLY_def)
qed

lemma calculate_fee_unit:
  assumes "calc_fee_visitor fs tag op_fee = Inr base_value" and "scaled_fee F fs base_value = Inr s"
  shows "calculate_fee F fs tag op_fee (unit_price 0) = Some (Inr (core_asset (int s)))"
  using assms scaled_fee_bounds [OF assms(2)]
  by (simp add: calculate_fee_def mul_unit_price raise_fee_unit)

lemma calculate_fee_unit_returns: "calculate_fee F fs tag op_fee (unit_price 0) \<noteq> None"
proof (cases "calc_fee_visitor fs tag op_fee")
  case (Inl e)
  then show ?thesis by (simp add: calculate_fee_def)
next
  case (Inr v)
  then show ?thesis
  proof (cases "scaled_fee F fs v")
    case (Inl e)
    with \<open>calc_fee_visitor fs tag op_fee = Inr v\<close> show ?thesis by (simp add: calculate_fee_def)
  next
    case s: (Inr s)
    from calculate_fee_unit [OF Inr s] show ?thesis by simp
  qed
qed

end

lemmas required_fee_eval = required_fee_def calculate_fee_def scaled_fee_def calc_fee_visitor_def
  fee_helper_cget_def base_calculate_fee_def default_fee_parameters_def GRAPHENE_BLOCKCHAIN_PRECISION_def
  GRAPHENE_100_PERCENT_def GRAPHENE_MAX_SHARE_SUPPLY_def add_memo_fee_def asset_mul_price_def
  convert_at_def cross_def unit_price_def raise_fee.simps asset_less_def

section \<open>Properties\<close>

text \<open>C23. The fee of an operation in another asset: the computation always returns, and unless the fee is out of
  range it returns the least amount of the asset whose value in core coins covers the scaled fee: every smaller amount
  is worth less. It throws exactly if that amount, or its value in core coins, exceeds the maximal supply. The exchange rate
  may have the core coin on either side.\<close>

theorem calculate_fee_least:
  assumes "fc_laws F" and "core_rate rate" and "calc_fee_visitor fs tag op_fee = Inr v" and "v < 2 ^ 64" and "fs_scale fs < 2 ^ 32"
    and "s = int (v * fs_scale fs div 10000)" and "s \<le> GRAPHENE_MAX_SHARE_SUPPLY"
  shows "\<exists>m e. s \<le> m * amount (core_side rate) div amount (other_side rate) \<and>
    (\<forall>k. s \<le> k * amount (core_side rate) div amount (other_side rate) \<longrightarrow> m \<le> k) \<and>
    calculate_fee F fs tag op_fee rate =
      Some (if m \<le> GRAPHENE_MAX_SHARE_SUPPLY \<and>
               m * amount (core_side rate) div amount (other_side rate) \<le> GRAPHENE_MAX_SHARE_SUPPLY
            then Inr \<lparr>amount = m, asset_id = asset_id (other_side rate)\<rparr> else Inl e)"
proof -
  let ?c = "amount (core_side rate)" and ?q = "amount (other_side rate)"
  have pos: "0 < ?c" "0 < ?q" using core_rateD(1,2) [OF assms(2)] .
  have s0: "0 \<le> s" using assms(6) by simp
  have w: "wrap64 s = s" using s0 assms(7) by (intro wrap64_id) (simp add: in_int64_def GRAPHENE_MAX_SHARE_SUPPLY_def)
  have sc: "scaled_fee F fs v = Inr (v * fs_scale fs div 10000)"
    using fc_laws.scaled_fee_exact [OF assms(1,4,5)] assms(6,7) by simp
  note mul = fc_laws.mul_core [OF assms(1,2) s0 assms(7)]
  show ?thesis
  proof (cases "s * ?q div ?c \<le> GRAPHENE_MAX_SHARE_SUPPLY")
    case False
    then have "calculate_fee F fs tag op_fee rate = Some (Inl (Assert_failed ''result <= GRAPHENE_MAX_SHARE_SUPPLY''))"
      using assms(3) sc mul w assms(6) by (simp add: calculate_fee_def)
    moreover obtain m where m: "s \<le> m * ?c div ?q" "\<forall>k. s \<le> k * ?c div ?q \<longrightarrow> m \<le> k"
      by (rule least_worth [OF pos])
    moreover have "\<not> m \<le> GRAPHENE_MAX_SHARE_SUPPLY" using quotient_minimal [OF pos m(1)] False by simp
    ultimately show ?thesis by (intro exI [of _ m] exI) auto
  next
    case True
    obtain m where m: "raise_fee F rate (core_asset s) \<lparr>amount = s * ?q div ?c, asset_id = asset_id (other_side rate)\<rparr> =
        Some (if m * ?c div ?q \<le> GRAPHENE_MAX_SHARE_SUPPLY then Inr \<lparr>amount = m, asset_id = asset_id (other_side rate)\<rparr>
              else Inl (Assert_failed ''result <= GRAPHENE_MAX_SHARE_SUPPLY''))"
      and least: "s \<le> m * ?c div ?q" "\<forall>k. s \<le> k * ?c div ?q \<longrightarrow> m \<le> k"
      by (rule fc_laws.raise_fee_exact [OF assms(1,2) s0 assms(7) True])
    let ?e = "if m * ?c div ?q \<le> GRAPHENE_MAX_SHARE_SUPPLY then Assert_failed ''result.amount <= GRAPHENE_MAX_SHARE_SUPPLY''
      else Assert_failed ''result <= GRAPHENE_MAX_SHARE_SUPPLY''"
    have "calculate_fee F fs tag op_fee rate =
        Some (if m \<le> GRAPHENE_MAX_SHARE_SUPPLY \<and> m * ?c div ?q \<le> GRAPHENE_MAX_SHARE_SUPPLY
              then Inr \<lparr>amount = m, asset_id = asset_id (other_side rate)\<rparr> else Inl ?e)"
      using assms(3) sc mul True w assms(6) m by (simp add: calculate_fee_def)
    with least show ?thesis by blast
  qed
qed

theorem calculate_fee_least_witness:
  "calculate_fee checked_fc \<lparr>fs_parameters = (\<lambda>_. None), fs_scale = 5000\<rparr> Op_transfer base_calculate_fee
     \<lparr>base = \<lparr>amount = 7, asset_id = 1\<rparr>, quote = core_asset 3\<rparr> = Some (Inr \<lparr>amount = 2333334, asset_id = 1\<rparr>)"
proof -
  let ?fs = "\<lparr>fs_parameters = (\<lambda>_. None), fs_scale = 5000\<rparr>" and ?p = "\<lparr>base = \<lparr>amount = 7, asset_id = 1\<rparr>, quote = core_asset 3\<rparr>"
  have v: "calc_fee_visitor ?fs Op_transfer base_calculate_fee = Inr 2000000"
    by (simp add: calc_fee_visitor_def fee_helper_cget_def base_calculate_fee_def default_fee_parameters_def
        GRAPHENE_BLOCKCHAIN_PRECISION_def wrap64_def)
  have p: "core_rate ?p" "amount (core_side ?p) = 3" "amount (other_side ?p) = 7" "asset_id (other_side ?p) = 1"
    by (simp_all add: core_rate_def price_validate_def in_int64_def core_side_def other_side_def core_asset_def)
  from calculate_fee_least [OF checked.fc_laws_axioms p(1) v _ _ refl, unfolded p] obtain m e where
    m: "1000000 \<le> m * 3 div 7" "\<forall>k. 1000000 \<le> k * 3 div 7 \<longrightarrow> m \<le> k"
      "calculate_fee checked_fc ?fs Op_transfer base_calculate_fee ?p =
        Some (if m \<le> GRAPHENE_MAX_SHARE_SUPPLY \<and> m * 3 div 7 \<le> GRAPHENE_MAX_SHARE_SUPPLY then Inr \<lparr>amount = m, asset_id = 1\<rparr> else Inl e)"
    by (auto simp: GRAPHENE_MAX_SHARE_SUPPLY_def)
  have "m \<le> 2333334" using m(2) [rule_format, of 2333334] by simp
  moreover have "2333334 \<le> m" using m(1) by simp
  ultimately have "m = 2333334" by simp
  with m(3) show ?thesis by (simp add: GRAPHENE_MAX_SHARE_SUPPLY_def)
qed

text \<open>The fee an operation has to pay is computed for every schedule and every operation (the
  computation always returns), and when it succeeds it is the scaled value of the operation's own fee:
  \<open>base * scale div 10000\<close>, without loss where the product fits 128 bits.\<close>

theorem required_fee_exact:
  assumes "fc_laws F" and "calc_fee_visitor fs tag op_fee = Inr v" and "v < 2 ^ 64" and "fs_scale fs < 2 ^ 32"
  shows "required_fee F fs tag op_fee =
    (if int (v * fs_scale fs div 10000) \<le> GRAPHENE_MAX_SHARE_SUPPLY
     then Inr (int (v * fs_scale fs div 10000))
     else Inl (Assert_failed ''scaled <= GRAPHENE_MAX_SHARE_SUPPLY''))"
proof -
  let ?x = "v * fs_scale fs div 10000"
  note x = fc_laws.scaled_fee_exact [OF assms(1,3,4)]
  show ?thesis
  proof (cases "int ?x \<le> GRAPHENE_MAX_SHARE_SUPPLY")
    case True
    with x have "scaled_fee F fs v = Inr ?x" by simp
    from fc_laws.calculate_fee_unit [OF assms(1,2) this] True show ?thesis by (simp add: required_fee_def)
  next
    case False
    with x assms(2) show ?thesis by (simp add: required_fee_def calculate_fee_def)
  qed
qed

theorem required_fee_exact_witness:
  "required_fee checked_fc \<lparr>fs_parameters = (\<lambda>_. None), fs_scale = 5000\<rparr> Op_transfer base_calculate_fee = Inr 1000000"
proof -
  let ?fs = "\<lparr>fs_parameters = (\<lambda>_. None), fs_scale = 5000\<rparr>"
  have "calc_fee_visitor ?fs Op_transfer base_calculate_fee = Inr 2000000"
    by (simp add: calc_fee_visitor_def fee_helper_cget_def base_calculate_fee_def default_fee_parameters_def
        GRAPHENE_BLOCKCHAIN_PRECISION_def wrap64_def)
  from required_fee_exact [OF checked.fc_laws_axioms this] show ?thesis
    by (simp add: GRAPHENE_MAX_SHARE_SUPPLY_def)
qed

end
