(* ===== verification/Authority.thy ===== *)
theory Authority
  imports Asset
begin

text \<open>
  Authorities and the check of signatures: \<^verbatim>\<open>struct authority\<close> and the class \<^verbatim>\<open>sign_state\<close> of
  \<^verbatim>\<open>protocol/transaction.cpp\<close>. A \<^verbatim>\<open>flat_map\<close> or \<^verbatim>\<open>flat_set\<close> is a finite map or set that is walked in
  the order of its keys. Public keys and addresses are numbers; how an address is derived from a key,
  by the hash functions of \<^verbatim>\<open>fc\<close>, is the parameter \<open>K\<close>.
\<close>

type_synonym public_key = nat
type_synonym address = nat

definition GRAPHENE_COMMITTEE_ACCOUNT :: account_id where
  "GRAPHENE_COMMITTEE_ACCOUNT = 0"

definition GRAPHENE_NULL_ACCOUNT :: account_id where
  "GRAPHENE_NULL_ACCOUNT = 3"

definition GRAPHENE_TEMP_ACCOUNT :: account_id where
  "GRAPHENE_TEMP_ACCOUNT = 4"

subsection \<open>Authorities\<close>

record authority =
  weight_threshold :: "32 word"
  account_auths :: "(account_id, 16 word) fmap"
  key_auths :: "(public_key, 16 word) fmap"
  address_auths :: "(address, 16 word) fmap"

definition empty_authority :: authority where
  "empty_authority = \<lparr>weight_threshold = 0, account_auths = fmempty, key_auths = fmempty, address_auths = fmempty\<rparr>"

definition add_authority :: "account_id \<Rightarrow> 16 word \<Rightarrow> authority \<Rightarrow> authority" where
  "add_authority k w a = a\<lparr>account_auths := fmupd k w (account_auths a)\<rparr>"

definition add_key_authority :: "public_key \<Rightarrow> 16 word \<Rightarrow> authority \<Rightarrow> authority" where
  "add_key_authority k w a = a\<lparr>key_auths := fmupd k w (key_auths a)\<rparr>"

definition weights :: "('k :: linorder, 16 word) fmap \<Rightarrow> nat" where
  "weights m = sum_list (map (\<lambda>(_, w). unat w) (sorted_list_of_fmap m))"

text \<open>The sum is taken in 64 bits, which no list of 16-bit weights that fits in memory exceeds.\<close>

definition is_impossible :: "authority \<Rightarrow> bool" where
  "is_impossible a =
     (weights (account_auths a) + weights (key_auths a) + weights (address_auths a) < unat (weight_threshold a))"

definition null_authority :: authority where
  "null_authority = add_authority GRAPHENE_NULL_ACCOUNT 1 (empty_authority\<lparr>weight_threshold := 1\<rparr>)"

subsection \<open>The state of the check\<close>

record key_lib =
  pts_address :: "public_key \<Rightarrow> bool \<Rightarrow> nat \<Rightarrow> address"
  key_address :: "public_key \<Rightarrow> address"

record sign_state =
  provided_signatures :: "(public_key, bool) fmap"
  available_keys :: "public_key fset"
  address_sigs :: "((address, public_key) fmap \<times> (address, public_key) fmap) option"
  approved_by :: "account_id fset"

definition init_sign_state :: "public_key fset \<Rightarrow> public_key fset \<Rightarrow> sign_state" where
  "init_sign_state sigs keys = \<lparr>provided_signatures = fmap_of_list (map (\<lambda>k. (k, False)) (sorted_list_of_fset sigs)),
     available_keys = keys, address_sigs = None, approved_by = {|GRAPHENE_TEMP_ACCOUNT|}\<rparr>"

definition signed_by :: "public_key \<Rightarrow> sign_state \<Rightarrow> bool \<times> sign_state" where
  "signed_by k s =
     (case fmlookup (provided_signatures s) k of
        None \<Rightarrow> if k |\<in>| available_keys s
                then (True, s\<lparr>provided_signatures := fmupd k True (provided_signatures s)\<rparr>)
                else (False, s)
      | Some _ \<Rightarrow> (True, s\<lparr>provided_signatures := fmupd k True (provided_signatures s)\<rparr>))"

definition addresses_of :: "key_lib \<Rightarrow> public_key \<Rightarrow> address list" where
  "addresses_of K k = [pts_address K k False 56, pts_address K k True 56, pts_address K k False 0,
     pts_address K k True 0, key_address K k]"

definition address_map :: "key_lib \<Rightarrow> public_key list \<Rightarrow> (address, public_key) fmap" where
  "address_map K ks = fold (\<lambda>k. fold (\<lambda>a. fmupd a k) (addresses_of K k)) ks fmempty"

definition fill_address_sigs :: "key_lib \<Rightarrow> sign_state \<Rightarrow> (address, public_key) fmap \<times> (address, public_key) fmap" where
  "fill_address_sigs K s =
     (case address_sigs s of
        Some p \<Rightarrow> p
      | None \<Rightarrow> (address_map K (sorted_list_of_fset (available_keys s)),
                 address_map K (map fst (sorted_list_of_fmap (provided_signatures s)))))"

text \<open>
  The second \<^verbatim>\<open>signed_by\<close>. When neither map has the address the code goes on to dereference the end
  iterator of \<^verbatim>\<open>provided_address_sigs\<close>: that is undefined behaviour, here the error \<open>Undefined\<close>.
\<close>

definition signed_by_address :: "key_lib \<Rightarrow> address \<Rightarrow> sign_state \<Rightarrow> (bool \<times> sign_state) result" where
  "signed_by_address K a s0 =
     (let (available, provided) = fill_address_sigs K s0;
          s = s0\<lparr>address_sigs := Some (available, provided)\<rparr> in
      case fmlookup provided a of
        Some k \<Rightarrow> Inr (True, s\<lparr>provided_signatures := fmupd k True (provided_signatures s)\<rparr>)
      | None \<Rightarrow>
          (case fmlookup available a of
             Some k \<Rightarrow>
               if k |\<in>| available_keys s
               then Inr (True, s\<lparr>provided_signatures := fmupd k True (provided_signatures s)\<rparr>)
               else Inr (False, s)
           | None \<Rightarrow> Inl Undefined))"

subsection \<open>Checking an authority\<close>

text \<open>
  The three loops of \<^verbatim>\<open>check_authority\<close> have one shape: a member that checks adds its weight, in 32
  bits, and the function returns true as soon as the threshold is reached, here \<open>None\<close>.
\<close>

fun auth_loop ::
  "('k \<Rightarrow> sign_state \<Rightarrow> (bool \<times> sign_state) result) \<Rightarrow> 32 word \<Rightarrow> ('k \<times> 16 word) list
    \<Rightarrow> 32 word \<times> sign_state \<Rightarrow> (32 word option \<times> sign_state) result" where
  "auth_loop chk thr [] (t, s) = Inr (Some t, s)"
| "auth_loop chk thr ((k, w) # xs) (t, s) =
     ebind (chk k s) (\<lambda>(ok, s').
       if ok
       then (let t' = t + ucast w in if thr \<le> t' then Inr (None, s') else auth_loop chk thr xs (t', s'))
       else auth_loop chk thr xs (t, s'))"

definition then_loop ::
  "('k \<Rightarrow> sign_state \<Rightarrow> (bool \<times> sign_state) result) \<Rightarrow> 32 word \<Rightarrow> ('k \<times> 16 word) list
    \<Rightarrow> 32 word option \<times> sign_state \<Rightarrow> (32 word option \<times> sign_state) result" where
  "then_loop chk thr xs = (\<lambda>(r, s). case r of None \<Rightarrow> Inr (None, s) | Some t \<Rightarrow> auth_loop chk thr xs (t, s))"

text \<open>A member account, unless already approved, is checked through its active authority, one level deeper.\<close>

definition check_account ::
  "(account_id \<Rightarrow> authority option result) \<Rightarrow> (authority option \<Rightarrow> sign_state \<Rightarrow> (bool \<times> sign_state) result)
    \<Rightarrow> account_id \<Rightarrow> sign_state \<Rightarrow> (bool \<times> sign_state) result" where
  "check_account get_active check a s =
     (if a |\<in>| approved_by s then Inr (True, s)
      else ebind (get_active a) (\<lambda>au.
           ebind (check au s) (\<lambda>(ok, s').
           Inr (ok, if ok then s'\<lparr>approved_by := finsert a (approved_by s')\<rparr> else s'))))"

text \<open>The argument \<open>n\<close> is \<^verbatim>\<open>max_recursion - depth\<close>.\<close>

definition check_members ::
  "key_lib \<Rightarrow> (account_id \<Rightarrow> sign_state \<Rightarrow> (bool \<times> sign_state) result) \<Rightarrow> authority option \<Rightarrow> sign_state
    \<Rightarrow> (bool \<times> sign_state) result" where
  "check_members K chk au s =
     (case au of
        None \<Rightarrow> Inr (False, s)
      | Some auth \<Rightarrow>
          (let thr = weight_threshold auth in
           ebind (auth_loop (\<lambda>k s. Inr (signed_by k s)) thr (sorted_list_of_fmap (key_auths auth)) (0, s)) (\<lambda>r1.
           ebind (then_loop (signed_by_address K) thr (sorted_list_of_fmap (address_auths auth)) r1) (\<lambda>r2.
           ebind (then_loop chk thr (sorted_list_of_fmap (account_auths auth)) r2) (\<lambda>(r, s').
           Inr (case r of None \<Rightarrow> True | Some t \<Rightarrow> thr \<le> t, s'))))))"

primrec check_authority ::
  "key_lib \<Rightarrow> (account_id \<Rightarrow> authority option result) \<Rightarrow> nat \<Rightarrow> authority option \<Rightarrow> sign_state
    \<Rightarrow> (bool \<times> sign_state) result" where
  "check_authority K ga 0 = check_members K (\<lambda>a s. Inr (a |\<in>| approved_by s, s))"
| "check_authority K ga (Suc n) = check_members K (check_account ga (check_authority K ga n))"

definition check_account_authority ::
  "key_lib \<Rightarrow> (account_id \<Rightarrow> authority option result) \<Rightarrow> nat \<Rightarrow> account_id \<Rightarrow> sign_state
    \<Rightarrow> (bool \<times> sign_state) result" where
  "check_account_authority K ga n i s =
     (if i |\<in>| approved_by s then Inr (True, s)
      else ebind (ga i) (\<lambda>au. check_authority K ga n au s))"

definition remove_unused_signatures :: "sign_state \<Rightarrow> bool \<times> sign_state" where
  "remove_unused_signatures s =
     (let unused = fmfilter (\<lambda>k. fmlookup (provided_signatures s) k = Some False) (provided_signatures s) in
      (unused \<noteq> fmempty, s\<lparr>provided_signatures := fmdrop_fset (fmdom unused) (provided_signatures s)\<rparr>))"

subsection \<open>The authorities of a transaction\<close>

text \<open>
  \<^verbatim>\<open>verify_authority\<close> after the requirements of the operations have been collected: \<open>ga\<close> and \<open>go\<close> are
  \<^verbatim>\<open>get_active\<close> and \<^verbatim>\<open>get_owner\<close>.
\<close>

definition require_other ::
  "key_lib \<Rightarrow> (account_id \<Rightarrow> authority option result) \<Rightarrow> nat \<Rightarrow> authority \<Rightarrow> sign_state \<Rightarrow> sign_state result" where
  "require_other K ga n auth s =
     ebind (check_authority K ga n (Some auth) s) (\<lambda>(ok, s1).
     ebind (fc_assert ok ''Missing Authority'') (\<lambda>_. Inr s1))"

definition require_active ::
  "key_lib \<Rightarrow> (account_id \<Rightarrow> authority option result) \<Rightarrow> (account_id \<Rightarrow> authority option result) \<Rightarrow> nat
    \<Rightarrow> account_id \<Rightarrow> sign_state \<Rightarrow> sign_state result" where
  "require_active K ga go n i s =
     ebind (check_account_authority K ga n i s) (\<lambda>(ok, s1).
     if ok then Inr s1
     else ebind (go i) (\<lambda>au.
          ebind (check_authority K ga n au s1) (\<lambda>(ok2, s2).
          ebind (fc_assert ok2 ''Missing Active Authority'') (\<lambda>_. Inr s2))))"

definition require_owner ::
  "key_lib \<Rightarrow> (account_id \<Rightarrow> authority option result) \<Rightarrow> (account_id \<Rightarrow> authority option result) \<Rightarrow> nat
    \<Rightarrow> account_id fset \<Rightarrow> account_id \<Rightarrow> sign_state \<Rightarrow> sign_state result" where
  "require_owner K ga go n owner_approvals i s =
     (if i |\<in>| owner_approvals then Inr s
      else ebind (go i) (\<lambda>au.
           ebind (check_authority K ga n au s) (\<lambda>(ok, s1).
           ebind (fc_assert ok ''Missing Owner Authority'') (\<lambda>_. Inr s1))))"

definition verify_required ::
  "key_lib \<Rightarrow> (account_id \<Rightarrow> authority option result) \<Rightarrow> (account_id \<Rightarrow> authority option result) \<Rightarrow> nat \<Rightarrow> bool
    \<Rightarrow> account_id fset \<Rightarrow> account_id fset \<Rightarrow> public_key fset
    \<Rightarrow> account_id fset \<Rightarrow> account_id fset \<Rightarrow> authority list \<Rightarrow> unit result" where
  "verify_required K ga go n allow_committee active_approvals owner_approvals sigs required_active required_owner other =
     ebind (fc_assert (allow_committee \<or> GRAPHENE_COMMITTEE_ACCOUNT |\<notin>| required_active)
              ''Committee account may only propose transactions'') (\<lambda>_.
     (let s0 = init_sign_state sigs {||};
          s = s0\<lparr>approved_by := approved_by s0 |\<union>| active_approvals |\<union>| owner_approvals\<rparr> in
     ebind (efold (require_other K ga n) other s) (\<lambda>s1.
     ebind (efold (require_active K ga go n) (sorted_list_of_fset required_active) s1) (\<lambda>s2.
     ebind (efold (require_owner K ga go n owner_approvals) (sorted_list_of_fset required_owner) s2) (\<lambda>s3.
     fc_assert (\<not> fst (remove_unused_signatures s3)) ''Unnecessary signature(s) detected'')))))"

subsection \<open>What it means to be authorised\<close>

text \<open>
  The specification has no recursion limit and no cache: an account is approved if it is in the base
  set, or if its active authority reaches its threshold with signing keys, addresses of signing keys,
  and approved accounts. \<open>sat n\<close> is the same with at most \<open>n\<close> levels of accounts.
\<close>

definition weight_in :: "('k :: linorder \<Rightarrow> bool) \<Rightarrow> ('k, 16 word) fmap \<Rightarrow> nat" where
  "weight_in P m = (\<Sum>(k, w)\<leftarrow>sorted_list_of_fmap m. if P k then unat w else 0)"

definition addr_signed :: "key_lib \<Rightarrow> public_key fset \<Rightarrow> address \<Rightarrow> bool" where
  "addr_signed K sigs a \<longleftrightarrow> (\<exists>k. k |\<in>| sigs \<and> a \<in> set (addresses_of K k))"

definition reaches :: "key_lib \<Rightarrow> public_key fset \<Rightarrow> (account_id \<Rightarrow> bool) \<Rightarrow> authority \<Rightarrow> bool" where
  "reaches K sigs P auth \<longleftrightarrow>
     unat (weight_threshold auth) \<le> weight_in (\<lambda>k. k |\<in>| sigs) (key_auths auth)
       + weight_in (addr_signed K sigs) (address_auths auth) + weight_in P (account_auths auth)"

inductive approved ::
  "key_lib \<Rightarrow> (account_id \<Rightarrow> authority option result) \<Rightarrow> public_key fset \<Rightarrow> account_id fset \<Rightarrow> account_id \<Rightarrow> bool"
  for K ga sigs ini where
  approved_base: "a |\<in>| ini \<Longrightarrow> approved K ga sigs ini a"
| approved_active: "ga a = Inr (Some auth) \<Longrightarrow> (\<forall>x\<in>S. approved K ga sigs ini x) \<Longrightarrow>
     reaches K sigs (\<lambda>x. x \<in> S) auth \<Longrightarrow> approved K ga sigs ini a"

primrec sat ::
  "key_lib \<Rightarrow> (account_id \<Rightarrow> authority option result) \<Rightarrow> public_key fset \<Rightarrow> account_id fset \<Rightarrow> nat \<Rightarrow> authority \<Rightarrow> bool" where
  "sat K ga sigs ini 0 = reaches K sigs (\<lambda>a. a |\<in>| ini)"
| "sat K ga sigs ini (Suc n) =
     reaches K sigs (\<lambda>a. a |\<in>| ini \<or> (case ga a of Inr (Some auth) \<Rightarrow> sat K ga sigs ini n auth | _ \<Rightarrow> False))"

text \<open>The state of the check while no key is added: \<open>app\<close> bounds the accounts approved so far from above,
  \<open>ini\<close> from below.\<close>

definition sign_inv :: "key_lib \<Rightarrow> public_key fset \<Rightarrow> account_id fset \<Rightarrow> account_id set \<Rightarrow> sign_state \<Rightarrow> bool" where
  "sign_inv K sigs ini app s \<longleftrightarrow>
     fmdom (provided_signatures s) = sigs \<and> available_keys s = {||} \<and>
     (address_sigs s = None \<or> address_sigs s = Some (fmempty, address_map K (sorted_list_of_fset sigs))) \<and>
     ini |\<subseteq>| approved_by s \<and> fset (approved_by s) \<subseteq> app"

section \<open>Lemmas\<close>

lemma unat_weight: "unat (ucast (w :: 16 word) :: 32 word) = unat w"
proof -
  have "unat w < 2 ^ 16" using unsigned_less [of w] by simp
  then have "take_bit 32 (unat w) = unat w" by (simp add: take_bit_nat_eq_self)
  then show ?thesis by (simp add: unsigned_ucast_eq)
qed

lemma unat_add_weight: "unat (t + ucast (w :: 16 word) :: 32 word) \<le> unat t + unat w"
  by (simp add: unat_word_ariths unat_weight)

lemma unat_add_weight_exact:
  "unat t + unat w < 2 ^ 32 \<Longrightarrow> unat (t + ucast (w :: 16 word) :: 32 word) = unat t + unat w"
  by (simp add: unat_word_ariths unat_weight)

lemma address_map_lookup:
  "fmlookup (address_map K ks) a = Some k \<Longrightarrow> k \<in> set ks \<and> a \<in> set (addresses_of K k)"
  "k \<in> set ks \<Longrightarrow> a \<in> set (addresses_of K k) \<Longrightarrow> fmlookup (address_map K ks) a \<noteq> None"
proof -
  have inner: "fmlookup (fold (\<lambda>a. fmupd a k) as m) a = (if a \<in> set as then Some k else fmlookup m a)" for as m k a
    by (induction as arbitrary: m) auto
  have outer: "fmlookup (fold (\<lambda>k. fold (\<lambda>a. fmupd a k) (addresses_of K k)) ks m) a = Some k \<Longrightarrow>
      (k \<in> set ks \<and> a \<in> set (addresses_of K k)) \<or> fmlookup m a = Some k" for m k
  proof (induction ks arbitrary: m)
    case (Cons x ks)
    from Cons.IH [OF Cons.prems [simplified]] show ?case by (auto simp: inner split: if_splits)
  qed simp
  have keep: "fmlookup m a \<noteq> None \<or> (\<exists>k \<in> set ks. a \<in> set (addresses_of K k)) \<Longrightarrow>
      fmlookup (fold (\<lambda>k. fold (\<lambda>a. fmupd a k) (addresses_of K k)) ks m) a \<noteq> None" for m
  proof (induction ks arbitrary: m)
    case (Cons x ks)
    show ?case using Cons.prems by (simp only: fold_simps, intro Cons.IH) (auto simp: inner)
  qed simp
  show "fmlookup (address_map K ks) a = Some k \<Longrightarrow> k \<in> set ks \<and> a \<in> set (addresses_of K k)"
    using outer [of fmempty] by (auto simp: address_map_def)
  show "k \<in> set ks \<Longrightarrow> a \<in> set (addresses_of K k) \<Longrightarrow> fmlookup (address_map K ks) a \<noteq> None"
    using keep [of fmempty] by (auto simp: address_map_def)
qed

lemma signed_by_inv:
  assumes "sign_inv K sigs ini app s" and "signed_by k s = (b, s')"
  shows "sign_inv K sigs ini app s' \<and> b = (k |\<in>| sigs)"
  using assms by (auto simp: sign_inv_def signed_by_def fmlookup_dom_iff finsert_absorb split: option.splits if_splits)

lemma signed_by_address_inv:
  assumes "sign_inv K sigs ini app s" and "signed_by_address K a s = Inr (b, s')"
  shows "sign_inv K sigs ini app s' \<and> b \<and> addr_signed K sigs a"
proof -
  have f: "fill_address_sigs K s = (fmempty, address_map K (sorted_list_of_fset sigs))"
    using assms(1)
    by (auto simp: sign_inv_def fill_address_sigs_def sorted_list_of_fmap_def comp_def address_map_def
        sorted_list_of_fset.rep_eq)
  with assms(2) obtain k where k: "fmlookup (address_map K (sorted_list_of_fset sigs)) a = Some k" "b"
    and s': "s' = s\<lparr>address_sigs := Some (fmempty, address_map K (sorted_list_of_fset sigs)),
      provided_signatures := fmupd k True (provided_signatures s)\<rparr>"
    by (auto simp: signed_by_address_def Let_def split: option.splits)
  from address_map_lookup(1) [OF k(1)] have "k |\<in>| sigs" "a \<in> set (addresses_of K k)" by auto
  with assms(1) k(2) show ?thesis
    by (auto simp: s' sign_inv_def addr_signed_def)
qed

subsection \<open>The loops\<close>

text \<open>One walk over the members: the weight that is counted lies between the weight of the members that
  have to check (\<open>Q\<close>) and of those that may (\<open>P\<close>).\<close>

definition checks ::
  "(sign_state \<Rightarrow> bool) \<Rightarrow> ('k \<Rightarrow> sign_state \<Rightarrow> (bool \<times> sign_state) result) \<Rightarrow> ('k \<Rightarrow> bool) \<Rightarrow> ('k \<Rightarrow> bool) \<Rightarrow> bool" where
  "checks I chk P Q \<longleftrightarrow>
     (\<forall>k s b s'. I s \<longrightarrow> chk k s = Inr (b, s') \<longrightarrow> I s' \<and> (b \<longrightarrow> P k) \<and> (Q k \<longrightarrow> b))"

lemma auth_loop_bounds:
  assumes "auth_loop chk thr xs (t, s) = Inr (r, s')" and "I s"
    and "checks I chk P Q"
  shows "I s' \<and>
    unat (case r of None \<Rightarrow> thr | Some t' \<Rightarrow> t') \<le> unat t + (\<Sum>(k, w)\<leftarrow>xs. if P k then unat w else 0) \<and>
    (unat t + (\<Sum>(k, w)\<leftarrow>xs. unat w) < 2 ^ 32 \<longrightarrow>
      (case r of None \<Rightarrow> True | Some t' \<Rightarrow> unat t + (\<Sum>(k, w)\<leftarrow>xs. if Q k then unat w else 0) \<le> unat t' \<and>
         unat t' \<le> unat t + (\<Sum>(k, w)\<leftarrow>xs. unat w)))"
  using assms
proof (induction xs arbitrary: t s)
  case Nil
  then show ?case by auto
next
  case (Cons x xs)
  obtain k w where x: "x = (k, w)" by (cases x)
  from Cons.prems(1) obtain b s1 where b: "chk k s = Inr (b, s1)"
    and rest: "(if b then (let t' = t + ucast w in if thr \<le> t' then Inr (None, s1) else auth_loop chk thr xs (t', s1))
        else auth_loop chk thr xs (t, s1)) = Inr (r, s')"
    by (auto simp: x)
  from Cons.prems(2,3) b have i: "I s1" "b \<Longrightarrow> P k" "Q k \<Longrightarrow> b" unfolding checks_def by blast+
  consider (no) "\<not> b" | (fin) "b" "thr \<le> t + ucast w" | (more) "b" "\<not> thr \<le> t + ucast w" by blast
  then show ?case
  proof cases
    case no
    with rest have "auth_loop chk thr xs (t, s1) = Inr (r, s')" by simp
    from Cons.IH [OF this i(1) Cons.prems(3)] no i(3) show ?thesis by (auto simp: x split: option.splits)
  next
    case fin
    then have "unat thr \<le> unat t + unat w" using unat_add_weight [of t w] by (simp add: word_le_nat_alt)
    with fin rest i show ?thesis by (auto simp: x)
  next
    case more
    with rest have "auth_loop chk thr xs (t + ucast w, s1) = Inr (r, s')" by (simp add: Let_def)
    from Cons.IH [OF this i(1) Cons.prems(3)] more i(2) unat_add_weight [of t w] unat_add_weight_exact [of t w]
    show ?thesis by (auto simp: x split: option.splits)
  qed
qed

text \<open>\<open>counted\<close>: what is known of the running total after some of the loops; \<open>fits\<close> says that the weights
  of the authority do not wrap around.\<close>

definition counted :: "32 word \<Rightarrow> bool \<Rightarrow> nat \<Rightarrow> nat \<Rightarrow> nat \<Rightarrow> 32 word option \<Rightarrow> bool" where
  "counted thr fits lo hi up r \<longleftrightarrow>
     unat (case r of None \<Rightarrow> thr | Some t \<Rightarrow> t) \<le> hi \<and>
     (fits \<longrightarrow> (case r of None \<Rightarrow> True | Some t \<Rightarrow> lo \<le> unat t \<and> unat t \<le> up))"

lemma then_loop_bounds:
  assumes run: "then_loop chk thr (sorted_list_of_fmap m) (r, s) = Inr (r', s')" and "I s" and "counted thr fits lo hi up r"
    and "fits \<Longrightarrow> up + weights m < 2 ^ 32"
    and "checks I chk P Q"
  shows "I s' \<and> counted thr fits (lo + weight_in Q m) (hi + weight_in P m) (up + weights m) r'"
proof (cases r)
  case None
  with assms show ?thesis by (auto simp: then_loop_def counted_def)
next
  case (Some t)
  with run have "auth_loop chk thr (sorted_list_of_fmap m) (t, s) = Inr (r', s')" by (simp add: then_loop_def)
  then have "I s' \<and>
    unat (case r' of None \<Rightarrow> thr | Some t' \<Rightarrow> t') \<le> unat t + weight_in P m \<and>
    (unat t + weights m < 2 ^ 32 \<longrightarrow>
      (case r' of None \<Rightarrow> True | Some t' \<Rightarrow> unat t + weight_in Q m \<le> unat t' \<and> unat t' \<le> unat t + weights m))"
    using auth_loop_bounds [OF _ assms(2,5)] unfolding weight_in_def weights_def by blast
  with Some assms(3,4) show ?thesis by (auto simp: counted_def split: option.splits)
qed

definition total_weight :: "authority \<Rightarrow> nat" where
  "total_weight auth = weights (key_auths auth) + weights (address_auths auth) + weights (account_auths auth)"

lemma check_members_bounds:
  assumes run: "check_members K chk (Some auth) s = Inr (b, s')" and s: "sign_inv K sigs ini app s"
    and chk: "checks (sign_inv K sigs ini app) chk P Q"
  shows "sign_inv K sigs ini app s' \<and> (b \<longrightarrow> reaches K sigs P auth) \<and>
    (total_weight auth < 2 ^ 32 \<and> reaches K sigs Q auth \<longrightarrow> b)"
proof -
  let ?I = "sign_inv K sigs ini app" and ?thr = "weight_threshold auth" and ?fits = "total_weight auth < 2 ^ 32"
  let ?k = "weight_in (\<lambda>k. k |\<in>| sigs) (key_auths auth)" and ?a = "weight_in (addr_signed K sigs) (address_auths auth)"
  from run obtain r1 s1 r2 s2 r where
      k: "then_loop (\<lambda>k s. Inr (signed_by k s)) ?thr (sorted_list_of_fmap (key_auths auth)) (Some 0, s) = Inr (r1, s1)"
    and a: "then_loop (signed_by_address K) ?thr (sorted_list_of_fmap (address_auths auth)) (r1, s1) = Inr (r2, s2)"
    and u: "then_loop chk ?thr (sorted_list_of_fmap (account_auths auth)) (r2, s2) = Inr (r, s')"
    and b: "b = (case r of None \<Rightarrow> True | Some t \<Rightarrow> ?thr \<le> t)"
    by (auto simp: check_members_def Let_def then_loop_def)
  have 1: "?I s1 \<and> counted ?thr ?fits (0 + ?k) (0 + ?k) (0 + weights (key_auths auth)) r1"
    by (rule then_loop_bounds [where I = ?I, OF k s]) (auto simp: counted_def total_weight_def checks_def dest: signed_by_inv)
  have 2: "?I s2 \<and> counted ?thr ?fits (0 + ?k + ?a) (0 + ?k + ?a) (0 + weights (key_auths auth) + weights (address_auths auth)) r2"
    by (rule then_loop_bounds [where I = ?I, OF a]) (use 1 in \<open>auto simp: total_weight_def checks_def dest: signed_by_address_inv\<close>)
  have "?I s' \<and> counted ?thr ?fits (0 + ?k + ?a + weight_in Q (account_auths auth)) (0 + ?k + ?a + weight_in P (account_auths auth))
      (0 + weights (key_auths auth) + weights (address_auths auth) + weights (account_auths auth)) r"
    by (rule then_loop_bounds [where I = ?I, OF u _ _ _ chk]) (use 2 in \<open>auto simp: total_weight_def\<close>)
  then show ?thesis
    by (auto simp: b counted_def reaches_def word_le_nat_alt split: option.splits)
qed

subsection \<open>The check agrees with the specification\<close>

abbreviation approval_inv ::
  "key_lib \<Rightarrow> (account_id \<Rightarrow> authority option result) \<Rightarrow> public_key fset \<Rightarrow> account_id fset \<Rightarrow> sign_state \<Rightarrow> bool" where
  "approval_inv K ga sigs ini \<equiv> sign_inv K sigs ini (Collect (approved K ga sigs ini))"

definition no_wrap :: "(account_id \<Rightarrow> authority option result) \<Rightarrow> bool" where
  "no_wrap ga \<longleftrightarrow> (\<forall>a auth. ga a = Inr (Some auth) \<longrightarrow> total_weight auth < 2 ^ 32)"

lemma approved_reaches:
  "ga a = Inr (Some auth) \<Longrightarrow> reaches K sigs (approved K ga sigs ini) auth \<Longrightarrow> approved K ga sigs ini a"
  by (rule approved_active [where S = "Collect (approved K ga sigs ini)"]) auto

lemma check_members_None: "check_members K chk None s = Inr (b, s') \<longleftrightarrow> \<not> b \<and> s' = s"
  by (auto simp: check_members_def)

lemma check_authority_None: "check_authority K ga n None s = Inr (b, s') \<longleftrightarrow> \<not> b \<and> s' = s"
  by (cases n) (auto simp: check_members_None)

lemma check_authority_bounds:
  assumes "approval_inv K ga sigs ini s" and "check_authority K ga n (Some auth) s = Inr (b, s')"
  shows "approval_inv K ga sigs ini s' \<and> (b \<longrightarrow> reaches K sigs (approved K ga sigs ini) auth) \<and>
    (no_wrap ga \<and> total_weight auth < 2 ^ 32 \<and> sat K ga sigs ini n auth \<longrightarrow> b)"
  using assms
proof (induction n arbitrary: auth s b s')
  case 0
  have "checks (approval_inv K ga sigs ini) (\<lambda>a s. Inr (a |\<in>| approved_by s, s)) (approved K ga sigs ini) (\<lambda>a. a |\<in>| ini)"
    by (auto simp: checks_def sign_inv_def)
  from check_members_bounds [OF 0(2) [simplified] 0(1) this] show ?case by auto
next
  case (Suc n)
  let ?I = "approval_inv K ga sigs ini"
    and ?Q = "\<lambda>a. a |\<in>| ini \<or> no_wrap ga \<and> (case ga a of Inr (Some auth) \<Rightarrow> sat K ga sigs ini n auth | _ \<Rightarrow> False)"
  have "checks ?I (check_account ga (check_authority K ga n)) (approved K ga sigs ini) ?Q"
    unfolding checks_def
  proof (intro allI impI)
    fix a s b s'
    assume s: "?I s" and run: "check_account ga (check_authority K ga n) a s = Inr (b, s')"
    show "?I s' \<and> (b \<longrightarrow> approved K ga sigs ini a) \<and> (?Q a \<longrightarrow> b)"
    proof (cases "a |\<in>| approved_by s")
      case True
      with run s show ?thesis by (auto simp: check_account_def sign_inv_def)
    next
      case False
      with run obtain au s1 where au: "ga a = Inr au" and c: "check_authority K ga n au s = Inr (b, s1)"
        and s': "s' = (if b then s1\<lparr>approved_by := finsert a (approved_by s1)\<rparr> else s1)"
        by (auto simp: check_account_def split: if_splits)
      have nini: "a |\<notin>| ini" using False s by (auto simp: sign_inv_def)
      show ?thesis
      proof (cases au)
        case None
        with c have "\<not> b" "s1 = s" by (auto simp: check_authority_None)
        with None s' s au nini show ?thesis by auto
      next
        case (Some auth)
        note ih = Suc.IH [OF s c [unfolded Some]]
        have "b \<longrightarrow> approved K ga sigs ini a" using ih approved_reaches au Some by blast
        moreover from this ih s' have "?I s'" by (auto simp: sign_inv_def)
        moreover have "?Q a \<longrightarrow> b" using ih au Some nini by (auto simp: no_wrap_def)
        ultimately show ?thesis by blast
      qed
    qed
  qed
  from check_members_bounds [OF Suc.prems(2) [simplified] Suc.prems(1) this] show ?case by (auto cong: if_cong)
qed

lemma check_account_authority_sound:
  assumes "approval_inv K ga sigs ini s" and "check_account_authority K ga n i s = Inr (b, s')"
  shows "approval_inv K ga sigs ini s' \<and> (b \<longrightarrow> approved K ga sigs ini i)"
proof (cases "i |\<in>| approved_by s")
  case True
  with assms show ?thesis by (auto simp: check_account_authority_def sign_inv_def)
next
  case False
  with assms(2) obtain au where au: "ga i = Inr au" and c: "check_authority K ga n au s = Inr (b, s')"
    by (auto simp: check_account_authority_def)
  show ?thesis
  proof (cases au)
    case None
    with c assms(1) show ?thesis by (auto simp: check_authority_None)
  next
    case (Some auth)
    with check_authority_bounds [OF assms(1)] c approved_reaches au show ?thesis by blast
  qed
qed

text \<open>Without address authorities, and if every account is found, the check never throws.\<close>

lemma auth_loop_is_ok:
  "(\<And>k s. k \<in> fst ` set xs \<Longrightarrow> is_ok (chk k s)) \<Longrightarrow> is_ok (auth_loop chk thr xs (t, s))"
proof (induction xs arbitrary: t s)
  case (Cons x xs)
  obtain k w where x: "x = (k, w)" by (cases x)
  from Cons.prems [of k s] obtain b s' where "chk k s = Inr (b, s')" by (auto simp: x is_ok_iff)
  with Cons show ?case by (auto simp: x Let_def is_ok_iff)
qed (simp add: is_ok_iff)

lemma check_members_is_ok:
  assumes "address_auths auth = fmempty" and "\<And>a s. is_ok (chk a s)"
  shows "is_ok (check_members K chk (Some auth) s)"
proof -
  let ?thr = "weight_threshold auth"
  have "is_ok (auth_loop (\<lambda>k s. Inr (signed_by k s)) ?thr (sorted_list_of_fmap (key_auths auth)) (0, s))"
    by (rule auth_loop_is_ok) (simp add: is_ok_iff)
  then obtain r1 s1 where 1: "auth_loop (\<lambda>k s. Inr (signed_by k s)) ?thr (sorted_list_of_fmap (key_auths auth)) (0, s) = Inr (r1, s1)"
    by (auto simp: is_ok_iff)
  have 2: "then_loop (signed_by_address K) ?thr (sorted_list_of_fmap (address_auths auth)) (r1, s1) = Inr (r1, s1)"
    using assms(1) by (cases r1) (simp_all add: then_loop_def sorted_list_of_fmap_def sorted_list_of_fset.rep_eq)
  have "is_ok (then_loop chk ?thr (sorted_list_of_fmap (account_auths auth)) (r1, s1))"
  proof (cases r1)
    case (Some t)
    have "is_ok (auth_loop chk ?thr (sorted_list_of_fmap (account_auths auth)) (t, s1))"
      by (rule auth_loop_is_ok) (rule assms(2))
    with Some show ?thesis by (simp add: then_loop_def)
  qed (simp add: then_loop_def is_ok_def)
  then show ?thesis using 1 2 by (auto simp: check_members_def Let_def is_ok_iff)
qed

definition all_found :: "(account_id \<Rightarrow> authority option result) \<Rightarrow> bool" where
  "all_found ga \<longleftrightarrow> (\<forall>a. \<exists>au. ga a = Inr au \<and> (\<forall>auth. au = Some auth \<longrightarrow> address_auths auth = fmempty))"

lemma check_authority_is_ok:
  "all_found ga \<Longrightarrow> address_auths auth = fmempty \<Longrightarrow> is_ok (check_authority K ga n (Some auth) s)"
proof (induction n arbitrary: auth s)
  case 0
  have "is_ok (check_members K (\<lambda>a s. Inr (a |\<in>| approved_by s, s)) (Some auth) s)"
    by (rule check_members_is_ok [OF 0(2)]) (simp add: is_ok_def)
  then show ?case by simp
next
  case (Suc n)
  have "is_ok (check_account ga (check_authority K ga n) a s)" for a s
  proof -
    from Suc.prems(1) obtain au where au: "ga a = Inr au" and "\<And>auth. au = Some auth \<Longrightarrow> address_auths auth = fmempty"
      by (auto simp: all_found_def)
    then have "is_ok (check_authority K ga n au s)"
      using Suc.IH Suc.prems(1) check_authority_None [of K ga n s] by (cases au) (auto simp: is_ok_iff)
    with au show ?thesis by (auto simp: check_account_def is_ok_iff)
  qed
  with Suc.prems show ?case by (simp add: check_members_is_ok)
qed

subsection \<open>The requirements of a transaction\<close>

lemma efold_all:
  assumes "efold f xs s = Inr s'" and "I s" and "\<And>x s s'. I s \<Longrightarrow> f x s = Inr s' \<Longrightarrow> I s' \<and> R x"
  shows "I s' \<and> (\<forall>x\<in>set xs. R x)"
  using assms(1,2)
proof (induction xs arbitrary: s)
  case (Cons x xs)
  from Cons.prems(1) obtain s1 where "f x s = Inr s1" and r: "efold f xs s1 = Inr s'" by auto
  with assms(3) Cons.prems(2) have "I s1" "R x" by blast+
  with Cons.IH [OF r] show ?case by simp
qed simp

definition authorised ::
  "key_lib \<Rightarrow> (account_id \<Rightarrow> authority option result) \<Rightarrow> (account_id \<Rightarrow> authority option result) \<Rightarrow> public_key fset
    \<Rightarrow> account_id fset \<Rightarrow> account_id \<Rightarrow> bool" where
  "authorised K ga go sigs ini i \<longleftrightarrow>
     approved K ga sigs ini i \<or> (\<exists>auth. go i = Inr (Some auth) \<and> reaches K sigs (approved K ga sigs ini) auth)"

lemma require_other_sound:
  assumes "approval_inv K ga sigs ini s" and "require_other K ga n auth s = Inr s'"
  shows "approval_inv K ga sigs ini s' \<and> reaches K sigs (approved K ga sigs ini) auth"
proof -
  from assms(2) have "check_authority K ga n (Some auth) s = Inr (True, s')" by (auto simp: require_other_def)
  from check_authority_bounds [OF assms(1) this] show ?thesis by simp
qed

lemma owner_check_sound:
  assumes "approval_inv K ga sigs ini s" and "check_authority K ga n au s = Inr (True, s')"
  shows "approval_inv K ga sigs ini s' \<and> (\<exists>auth. au = Some auth \<and> reaches K sigs (approved K ga sigs ini) auth)"
proof (cases au)
  case None
  with assms(2) show ?thesis by (simp add: check_authority_None)
next
  case (Some auth)
  from check_authority_bounds [OF assms(1) assms(2) [unfolded Some]] Some show ?thesis by simp
qed

lemma require_active_sound:
  assumes "approval_inv K ga sigs ini s" and "require_active K ga go n i s = Inr s'"
  shows "approval_inv K ga sigs ini s' \<and> authorised K ga go sigs ini i"
proof -
  from assms(2) obtain ok s1 where c: "check_account_authority K ga n i s = Inr (ok, s1)"
    and rest: "if ok then s' = s1 else \<exists>au. go i = Inr au \<and> check_authority K ga n au s1 = Inr (True, s')"
    by (auto simp: require_active_def split: if_splits)
  note s1 = check_account_authority_sound [OF assms(1) c]
  show ?thesis
  proof (cases ok)
    case True
    with s1 rest show ?thesis by (simp add: authorised_def)
  next
    case False
    with rest obtain au where "go i = Inr au" and o: "check_authority K ga n au s1 = Inr (True, s')" by auto
    with s1 owner_check_sound [OF _ o] show ?thesis by (auto simp: authorised_def)
  qed
qed

lemma require_owner_sound:
  assumes "approval_inv K ga sigs ini s" and "require_owner K ga go n oa i s = Inr s'"
  shows "approval_inv K ga sigs ini s' \<and>
   (i |\<in>| oa \<or> (\<exists>auth. go i = Inr (Some auth) \<and> reaches K sigs (approved K ga sigs ini) auth))"
proof (cases "i |\<in>| oa")
  case False
  with assms(2) obtain au where "go i = Inr au" and o: "check_authority K ga n au s = Inr (True, s')"
    by (auto simp: require_owner_def)
  with owner_check_sound [OF assms(1) o] show ?thesis by auto
qed (use assms in \<open>simp add: require_owner_def\<close>)

lemma init_approval_inv:
  "approval_inv K ga sigs ini ((init_sign_state sigs {||})\<lparr>approved_by := ini\<rparr>)"
  by (auto simp: sign_inv_def init_sign_state_def approved_base comp_def)

lemma verify_required_sound:
  assumes "verify_required K ga go n allow aa oa sigs ra ro other = Inr u"
  defines "ini \<equiv> {|GRAPHENE_TEMP_ACCOUNT|} |\<union>| aa |\<union>| oa"
  shows "\<forall>auth\<in>set other. reaches K sigs (approved K ga sigs ini) auth"
    and "\<forall>i. i |\<in>| ra \<longrightarrow> authorised K ga go sigs ini i"
    and "\<forall>i. i |\<in>| ro \<longrightarrow> i |\<in>| oa \<or> (\<exists>auth. go i = Inr (Some auth) \<and> reaches K sigs (approved K ga sigs ini) auth)"
    and "allow \<or> GRAPHENE_COMMITTEE_ACCOUNT |\<notin>| ra"
proof -
  let ?I = "approval_inv K ga sigs ini" and ?s = "(init_sign_state sigs {||})\<lparr>approved_by := ini\<rparr>"
  from assms(1) obtain s1 s2 s3 where 1: "efold (require_other K ga n) other ?s = Inr s1"
    and 2: "efold (require_active K ga go n) (sorted_list_of_fset ra) s1 = Inr s2"
    and 3: "efold (require_owner K ga go n oa) (sorted_list_of_fset ro) s2 = Inr s3"
    and c: "allow \<or> GRAPHENE_COMMITTEE_ACCOUNT |\<notin>| ra"
    by (auto simp: verify_required_def Let_def ini_def init_sign_state_def)
  show "allow \<or> GRAPHENE_COMMITTEE_ACCOUNT |\<notin>| ra" by (fact c)
  have a1: "?I s1 \<and> (\<forall>auth\<in>set other. reaches K sigs (approved K ga sigs ini) auth)"
    by (rule efold_all [where I = ?I, OF 1 init_approval_inv]) (rule require_other_sound)
  then show "\<forall>auth\<in>set other. reaches K sigs (approved K ga sigs ini) auth" by blast
  have a2: "?I s2 \<and> (\<forall>i\<in>set (sorted_list_of_fset ra). authorised K ga go sigs ini i)"
    by (rule efold_all [where I = ?I, OF 2]) (use a1 require_active_sound in blast)+
  then show "\<forall>i. i |\<in>| ra \<longrightarrow> authorised K ga go sigs ini i" by simp
  have "?I s3 \<and> (\<forall>i\<in>set (sorted_list_of_fset ro). i |\<in>| oa \<or>
      (\<exists>auth. go i = Inr (Some auth) \<and> reaches K sigs (approved K ga sigs ini) auth))"
    by (rule efold_all [where I = ?I, OF 3]) (use a2 require_owner_sound in blast)+
  then show "\<forall>i. i |\<in>| ro \<longrightarrow> i |\<in>| oa \<or> (\<exists>auth. go i = Inr (Some auth) \<and> reaches K sigs (approved K ga sigs ini) auth)"
    by simp
qed

section \<open>Properties\<close>

text \<open>A small system of authorities: account 6 has key 60, account 7 needs two of the keys 70, 71 and of
  account 6, and account 8 is held by account 7.\<close>

definition sample_key_lib :: key_lib where
  "sample_key_lib = \<lparr>pts_address = (\<lambda>k c v. 10000 * k + 100 * v + (if c then 1 else 0)), key_address = (\<lambda>k. 10000 * k + 99)\<rparr>"

definition key_authority :: "public_key \<Rightarrow> authority" where
  "key_authority k = add_key_authority k 1 (empty_authority\<lparr>weight_threshold := 1\<rparr>)"

definition sample_active :: "account_id \<Rightarrow> authority option result" where
  "sample_active a = Inr
     (if a = 6 then Some (key_authority 60)
      else if a = 7 then Some (add_authority 6 1 (add_key_authority 70 1 (add_key_authority 71 1 (empty_authority\<lparr>weight_threshold := 2\<rparr>))))
      else if a = 8 then Some (add_authority 7 1 (empty_authority\<lparr>weight_threshold := 1\<rparr>))
      else None)"

lemmas authority_eval = sample_active_def key_authority_def add_authority_def add_key_authority_def empty_authority_def
  weight_in_def reaches_def sorted_list_of_fmap_def sorted_list_of_fset.rep_eq total_weight_def weights_def

text \<open>C15. The check of an authority is the specification: if it succeeds the authority is reached by the
  signing keys and by approved accounts, and if the authority can be reached within the recursion limit
  (and no sum of weights exceeds 32 bits) it succeeds; without address authorities it always returns.\<close>

theorem check_authority_exact:
  assumes "s = (init_sign_state sigs {||})\<lparr>approved_by := ini\<rparr>"
  shows "(check_authority K ga n (Some auth) s = Inr (True, s') \<longrightarrow> reaches K sigs (approved K ga sigs ini) auth) \<and>
    (no_wrap ga \<and> total_weight auth < 2 ^ 32 \<and> sat K ga sigs ini n auth \<and>
      check_authority K ga n (Some auth) s = Inr (b, s') \<longrightarrow> b) \<and>
    (all_found ga \<and> address_auths auth = fmempty \<longrightarrow> is_ok (check_authority K ga n (Some auth) s))"
  using check_authority_bounds [OF init_approval_inv] check_authority_is_ok unfolding assms by blast

theorem check_authority_exact_witness:
  "\<exists>auth s'. sample_active 8 = Inr (Some auth) \<and>
     check_authority sample_key_lib sample_active 2 (Some auth) (init_sign_state {|60, 70|} {||}) = Inr (True, s')"
proof -
  let ?auth = "add_authority 7 1 (empty_authority\<lparr>weight_threshold := 1\<rparr>)"
  let ?ini = "{|GRAPHENE_TEMP_ACCOUNT|}" and ?sigs = "{|60, 70|}"
  let ?s = "(init_sign_state ?sigs {||})\<lparr>approved_by := ?ini\<rparr>"
  have s: "?s = init_sign_state ?sigs {||}" by (simp add: init_sign_state_def)
  note exact = check_authority_exact [where K = sample_key_lib and ga = sample_active and n = 2 and auth = ?auth
      and sigs = ?sigs and ini = ?ini, OF refl]
  have "all_found sample_active" "address_auths ?auth = fmempty"
    by (simp_all add: all_found_def authority_eval)
  then have "is_ok (check_authority sample_key_lib sample_active 2 (Some ?auth) ?s)" using exact by blast
  then obtain b s' where r: "check_authority sample_key_lib sample_active 2 (Some ?auth) ?s = Inr (b, s')"
    by (auto simp: is_ok_iff)
  have "no_wrap sample_active" "total_weight ?auth < 2 ^ 32"
    by (auto simp: no_wrap_def authority_eval)
  moreover have "sat sample_key_lib sample_active ?sigs ?ini 2 ?auth"
    by (simp add: numeral_2_eq_2 authority_eval)
  ultimately have b using r exact by blast
  with r s show ?thesis by (auto simp: sample_active_def)
qed

text \<open>C31. An authority that names an address none of the signing keys has is not refused: the check runs
  into the end iterator of the map of addresses, which is undefined behaviour.\<close>

theorem unknown_address_undefined:
  assumes "\<not> addr_signed K sigs a" and "auth = empty_authority\<lparr>weight_threshold := 1, address_auths := fmupd a 1 fmempty\<rparr>"
  shows "check_authority K ga n (Some auth) (init_sign_state sigs {||}) = Inl Undefined"
proof -
  let ?s = "init_sign_state sigs {||}"
  have "sign_inv K sigs {||} UNIV ?s" by (simp add: sign_inv_def init_sign_state_def comp_def)
  from signed_by_address_inv [OF this, of a] assms(1) have "\<not> is_ok (signed_by_address K a ?s)"
    by (auto simp: is_ok_iff)
  then have "signed_by_address K a ?s = Inl Undefined"
    by (auto simp: signed_by_address_def is_ok_def Let_def split: option.splits prod.splits if_splits)
  then show ?thesis
    by (cases n) (simp_all add: check_members_def assms(2) empty_authority_def then_loop_def sorted_list_of_fmap_def
        sorted_list_of_fset.rep_eq)
qed

theorem unknown_address_undefined_witness:
  "check_authority sample_key_lib sample_active 2
     (Some (empty_authority\<lparr>weight_threshold := 1, address_auths := fmupd 5 1 fmempty\<rparr>)) (init_sign_state {|60|} {||}) = Inl Undefined"
  by (rule unknown_address_undefined) (simp_all add: addr_signed_def addresses_of_def sample_key_lib_def)

end
