(* ===== verification/Chain_State.thy ===== *)
theory Chain_State
  imports Vesting Fee_Schedule Authority
begin

text \<open>
  The chain database as the evaluators see it: one table per object type and the two property
  objects. Records keep the fields of the C++ classes that the modelled code reads or writes.
  Instance numbers of objects are \<open>nat\<close>; an object does not repeat its own number. The
  balance index is keyed by its unique key \<^verbatim>\<open>by_account_asset\<close>: no code uses the object id
  of a balance.
\<close>

subsection \<open>Fees of the marketplace\<close>

record omnibazaar_fee_type =
  omnibazaar_fee :: "asset option"
  escrow_fee :: "asset option"
  referrer_buyer_fee :: "asset option"
  referrer_seller_fee :: "asset option"
  publisher_fee :: "asset option"

definition no_ob_fee :: omnibazaar_fee_type where
  "no_ob_fee = \<lparr>omnibazaar_fee = None, escrow_fee = None, referrer_buyer_fee = None,
     referrer_seller_fee = None, publisher_fee = None\<rparr>"

subsection \<open>Objects\<close>

record escrow_options =
  voted_witness :: bool
  active_witness :: bool
  positive_rating :: bool

record account_object =
  acc_name :: string
  registrar :: account_id
  referrer :: account_id
  network_fee_percentage :: nat
  referrer_rewards_percentage :: nat
  acc_votes :: "nat list"
  acc_statistics :: nat
  whitelisting_accounts :: "account_id list"
  blacklisting_accounts :: "account_id list"
  allowed_assets :: "asset_id_t list option"
  cashback_vb :: "nat option"
  escrow_vb :: "nat option"
  publisher_vb :: "nat option"
  founder_sale_vb :: "nat option"
  referrer_sale_vb :: "nat option"
  drive_id :: string
  mac_address :: string
  received_welcome_bonus :: bool
  is_a_publisher :: bool
  is_an_escrow :: bool
  acc_escrow_fee :: nat
  acc_buyers :: "account_id set"
  acc_escrows :: "account_id set"
  implicit_escrow_options :: escrow_options
  listings_count :: "64 word"
  sent_referral_bonus :: bool
  is_referrer :: bool
  acc_publisher_fee :: nat
  reputation_unweighted_score :: "16 word"
  pop_score :: "16 word"
  reputation_votes_count :: nat
  verified :: bool
  acc_owner :: authority
  acc_active :: authority

record account_statistics_object =
  stat_owner :: account_id
  lifetime_fees_paid :: share_type
  pending_fees :: share_type
  pending_vested_fees :: share_type
  reputation_votes :: "(account_id, nat \<times> asset) fmap"
  my_reputation_votes :: "account_id fset"

record asset_object =
  asset_issuer :: account_id
  whitelist_authorities :: "account_id list"
  blacklist_authorities :: "account_id list"
  white_list_flag :: bool
  transfer_restricted :: bool
  override_authority :: bool
  core_exchange_rate :: price
  dynamic_asset_data_id :: nat

record asset_dynamic_data_object =
  current_supply :: share_type
  accumulated_fees :: share_type
  fee_pool :: share_type

record listing_object =
  lst_seller :: account_id
  lst_publisher :: account_id
  lst_price :: asset
  lst_hash :: string
  lst_quantity :: "32 word"
  lst_expiration_time :: time_sec
  seller_score :: "16 word"
  reported_score :: "32 word"
  reported_accounts :: "account_id set"
  lst_priority_fee :: nat
  created_at :: time_sec
  updated_at :: time_sec

record escrow_object =
  esc_expiration_time :: time_sec
  esc_buyer :: account_id
  esc_seller :: account_id
  esc_escrow :: account_id
  esc_amount :: asset
  esc_transfer_to_escrow :: bool
  esc_listing :: "nat option"
  esc_listing_count :: "32 word option"
  esc_ob_fee :: omnibazaar_fee_type

record exchange_object =
  exc_coin_name :: string
  exc_tx_id :: string
  exc_sender :: account_id
  exc_amount :: asset

record witness_object =
  witness_account :: account_id
  witness_vote_id :: nat
  pay_vb :: "nat option"
  last_aslot :: "64 word"
  signing_key :: public_key
  total_missed :: int
  last_confirmed_block_num :: nat
  total_produced :: int

record chain_parameters =
  current_fees :: fee_schedule
  block_interval :: nat
  reserve_percent_of_fee :: nat
  cashback_vesting_period_seconds :: nat
  cashback_vesting_threshold :: share_type
  witness_pay_vesting_seconds :: nat
  maximum_escrow_lifetime :: nat
  maximum_listing_lifetime :: nat
  listing_ban_threshold :: "32 word"
  maximum_listing_priority_fee :: nat
  publisher_fee_min :: "share_type option"
  publisher_fee_max :: "share_type option"
  maximum_time_until_expiration :: nat
  max_authority_depth :: nat
  maintenance_skip_slots :: nat
  witness_pay_per_block :: share_type

record dynamic_global_property_object =
  dgp_time :: time_sec
  welcome_bonus :: share_type
  referral_bonus :: share_type
  sale_bonus :: share_type
  founder_bonus :: share_type
  witness_bonus :: share_type
  head_block_number :: nat
  head_block_id :: nat
  current_witness :: nat
  next_maintenance_time :: time_sec
  witness_budget :: share_type
  recently_missed_count :: "32 word"
  current_aslot :: "64 word"
  recent_slots_filled :: nat
  dynamic_flags :: "32 word"
  last_irreversible_block_num :: nat

subsection \<open>The database\<close>

record database =
  accounts :: "account_object table"
  statistics :: "account_statistics_object table"
  balances :: "(account_id \<times> asset_id_t, share_type) fmap"
  assets :: "asset_object table"
  asset_dyn :: "asset_dynamic_data_object table"
  vestings :: "vesting_balance_object table"
  listings :: "listing_object table"
  escrows :: "escrow_object table"
  exchanges :: "exchange_object table"
  witnesses :: "witness_object table"
  parameters :: chain_parameters
  active_witnesses :: "nat list"
  dyn_props :: dynamic_global_property_object
  initial_timestamp :: time_sec
  witness_schedule :: "nat list"
  block_summaries :: "nat table"

definition OMNIBAZAAR_FOUNDER_ACCOUNT :: account_id where
  "OMNIBAZAAR_FOUNDER_ACCOUNT = 6"

definition head_block_time :: "database \<Rightarrow> time_sec" where
  "head_block_time d = dgp_time (dyn_props d)"

text \<open>\<^verbatim>\<open>id(d)\<close>: fetch an object or throw.\<close>

definition get_account :: "database \<Rightarrow> account_id \<Rightarrow> account_object result" where
  "get_account d a = tbl_get (accounts d) a"

definition get_statistics :: "database \<Rightarrow> account_id \<Rightarrow> account_statistics_object result" where
  "get_statistics d a =
     ebind (get_account d a) (\<lambda>acc. tbl_get (statistics d) (acc_statistics acc))"

definition get_asset :: "database \<Rightarrow> asset_id_t \<Rightarrow> asset_object result" where
  "get_asset d a = tbl_get (assets d) a"

definition get_listing :: "database \<Rightarrow> nat \<Rightarrow> listing_object result" where
  "get_listing d i = tbl_get (listings d) i"

definition get_escrow :: "database \<Rightarrow> nat \<Rightarrow> escrow_object result" where
  "get_escrow d i = tbl_get (escrows d) i"

text \<open>\<^verbatim>\<open>d.modify(obj, f)\<close>, one per object type. Only the listings carry a second unique
  key, the hash of their contents.\<close>

definition listing_clash :: "listing_object \<Rightarrow> listing_object \<Rightarrow> bool" where
  "listing_clash x y = (lst_hash x = lst_hash y)"

interpretation listing_hash: unique_key listing_clash
  by unfold_locales (simp add: listing_clash_def)

definition modify_account ::
  "database \<Rightarrow> account_id \<Rightarrow> (account_object \<Rightarrow> account_object) \<Rightarrow> database result" where
  "modify_account d a f =
     ebind (tbl_modify no_clash (accounts d) a f) (\<lambda>t. Inr (d\<lparr>accounts := t\<rparr>))"

definition modify_statistics ::
  "database \<Rightarrow> nat \<Rightarrow> (account_statistics_object \<Rightarrow> account_statistics_object) \<Rightarrow> database result" where
  "modify_statistics d i f =
     ebind (tbl_modify no_clash (statistics d) i f) (\<lambda>t. Inr (d\<lparr>statistics := t\<rparr>))"

definition modify_asset_dyn ::
  "database \<Rightarrow> nat \<Rightarrow> (asset_dynamic_data_object \<Rightarrow> asset_dynamic_data_object) \<Rightarrow> database result" where
  "modify_asset_dyn d i f =
     ebind (tbl_modify no_clash (asset_dyn d) i f) (\<lambda>t. Inr (d\<lparr>asset_dyn := t\<rparr>))"

definition modify_vesting ::
  "database \<Rightarrow> nat \<Rightarrow> (vesting_balance_object \<Rightarrow> vesting_balance_object) \<Rightarrow> database result" where
  "modify_vesting d i f =
     ebind (tbl_modify no_clash (vestings d) i f) (\<lambda>t. Inr (d\<lparr>vestings := t\<rparr>))"

definition modify_listing ::
  "database \<Rightarrow> nat \<Rightarrow> (listing_object \<Rightarrow> listing_object) \<Rightarrow> database result" where
  "modify_listing d i f =
     ebind (tbl_modify listing_clash (listings d) i f) (\<lambda>t. Inr (d\<lparr>listings := t\<rparr>))"

definition modify_escrow ::
  "database \<Rightarrow> nat \<Rightarrow> (escrow_object \<Rightarrow> escrow_object) \<Rightarrow> database result" where
  "modify_escrow d i f =
     ebind (tbl_modify no_clash (escrows d) i f) (\<lambda>t. Inr (d\<lparr>escrows := t\<rparr>))"

text \<open>The dynamic data of the core asset, found through its asset object.\<close>

definition core_dyn_id :: "database \<Rightarrow> nat result" where
  "core_dyn_id d = emap dynamic_asset_data_id (get_asset d 0)"

definition core_dyn :: "database \<Rightarrow> asset_dynamic_data_object result" where
  "core_dyn d = ebind (core_dyn_id d) (tbl_get (asset_dyn d))"

subsection \<open>A small chain\<close>

text \<open>
  A concrete state on which the witnesses evaluate: the accounts 5 (registrar, referrer and
  founder), 6 (buyer), 7 (seller), 8 (escrow agent) and 9 (publisher), the core asset with 10000
  coins in circulation, no vesting balance, no listing, no escrow.
\<close>

definition sample_account :: account_object where
  "sample_account = \<lparr>acc_name = '''', registrar = 5, referrer = 5, network_fee_percentage = 2000,
     referrer_rewards_percentage = 5000, acc_votes = [], acc_statistics = 0,
     whitelisting_accounts = [], blacklisting_accounts = [], allowed_assets = None,
     cashback_vb = None, escrow_vb = None, publisher_vb = None, founder_sale_vb = None,
     referrer_sale_vb = None, drive_id = '''', mac_address = '''', received_welcome_bonus = False,
     is_a_publisher = False, is_an_escrow = False, acc_escrow_fee = 100, acc_buyers = {},
     acc_escrows = {}, implicit_escrow_options = \<lparr>voted_witness = False, active_witness = False,
     positive_rating = False\<rparr>, listings_count = 0, sent_referral_bonus = False,
     is_referrer = False, acc_publisher_fee = 0, reputation_unweighted_score = 5000,
     pop_score = 0, reputation_votes_count = 0, verified = False, acc_owner = null_authority, acc_active = null_authority\<rparr>"

definition sample_statistics :: account_statistics_object where
  "sample_statistics = \<lparr>stat_owner = 0, lifetime_fees_paid = 0, pending_fees = 0,
     pending_vested_fees = 0, reputation_votes = fmempty, my_reputation_votes = {||}\<rparr>"

definition sample_parameters :: chain_parameters where
  "sample_parameters = \<lparr>current_fees = \<lparr>fs_parameters = Map.empty, fs_scale = 0\<rparr>, block_interval = 5, reserve_percent_of_fee = 2000,
     cashback_vesting_period_seconds = 1000, cashback_vesting_threshold = 100,
     witness_pay_vesting_seconds = 1000, maximum_escrow_lifetime = 86400,
     maximum_listing_lifetime = 86400, listing_ban_threshold = 100,
     maximum_listing_priority_fee = 2000, publisher_fee_min = None, publisher_fee_max = None,
     maximum_time_until_expiration = 86400, max_authority_depth = 2, maintenance_skip_slots = 3, witness_pay_per_block = 0\<rparr>"

definition sample_accounts :: "account_object table" where
  "sample_accounts = \<lparr>next_id = 10, objs =
     fmupd 5 (sample_account\<lparr>acc_statistics := 5, is_referrer := True\<rparr>)
     (fmupd 6 (sample_account\<lparr>acc_statistics := 6, acc_escrows := {8}\<rparr>)
     (fmupd 7 (sample_account\<lparr>acc_statistics := 7, acc_escrows := {8}\<rparr>)
     (fmupd 8 (sample_account\<lparr>acc_statistics := 8, is_an_escrow := True\<rparr>)
     (fmupd 9 (sample_account\<lparr>acc_statistics := 9, is_a_publisher := True\<rparr>) fmempty))))\<rparr>"

definition sample_stats :: "account_statistics_object table" where
  "sample_stats = \<lparr>next_id = 10, objs =
     fmupd 5 (sample_statistics\<lparr>stat_owner := 5\<rparr>)
     (fmupd 6 (sample_statistics\<lparr>stat_owner := 6, pending_fees := 300\<rparr>)
     (fmupd 7 (sample_statistics\<lparr>stat_owner := 7\<rparr>)
     (fmupd 8 (sample_statistics\<lparr>stat_owner := 8\<rparr>)
     (fmupd 9 (sample_statistics\<lparr>stat_owner := 9\<rparr>) fmempty))))\<rparr>"

definition sample_dyn_props :: dynamic_global_property_object where
  "sample_dyn_props = \<lparr>dgp_time = 1560000000, welcome_bonus = 0,
     referral_bonus = 0, sale_bonus = 0, founder_bonus = 0, witness_bonus = 0, head_block_number = 100,
     head_block_id = 0, current_witness = 0, next_maintenance_time = 1560086400, witness_budget = 0,
     recently_missed_count = 0, current_aslot = 100, recent_slots_filled = 0, dynamic_flags = 0,
     last_irreversible_block_num = 90\<rparr>"

definition sample_db :: database where
  "sample_db = \<lparr>
     accounts = sample_accounts, statistics = sample_stats,
     balances = fmupd (6, 0) 8000 (fmupd (7, 0) 1000 fmempty),
     assets = \<lparr>next_id = 1, objs = fmupd 0 \<lparr>asset_issuer = 0, whitelist_authorities = [],
       blacklist_authorities = [], white_list_flag = False, transfer_restricted = False, override_authority = False,
       core_exchange_rate = \<lparr>base = core_asset 1, quote = core_asset 1\<rparr>,
       dynamic_asset_data_id = 0\<rparr> fmempty\<rparr>,
     asset_dyn = \<lparr>next_id = 1, objs = fmupd 0 \<lparr>current_supply = 10000, accumulated_fees = 700,
       fee_pool = 0\<rparr> fmempty\<rparr>,
     vestings = empty_table, listings = empty_table, escrows = empty_table,
     exchanges = empty_table, witnesses = empty_table, parameters = sample_parameters,
     active_witnesses = [], dyn_props = sample_dyn_props,
     initial_timestamp = 1500000000, witness_schedule = [], block_summaries = empty_table\<rparr>"

lemma sample_db_fields:
  "accounts sample_db = sample_accounts" "statistics sample_db = sample_stats"
  "balances sample_db = fmupd (6, 0) 8000 (fmupd (7, 0) 1000 fmempty)"
  "assets sample_db = \<lparr>next_id = 1, objs = fmupd 0 \<lparr>asset_issuer = 0, whitelist_authorities = [],
     blacklist_authorities = [], white_list_flag = False, transfer_restricted = False, override_authority = False,
     core_exchange_rate = \<lparr>base = core_asset 1, quote = core_asset 1\<rparr>,
     dynamic_asset_data_id = 0\<rparr> fmempty\<rparr>"
  "asset_dyn sample_db = \<lparr>next_id = 1, objs = fmupd 0 \<lparr>current_supply = 10000,
     accumulated_fees = 700, fee_pool = 0\<rparr> fmempty\<rparr>"
  "vestings sample_db = empty_table" "listings sample_db = empty_table"
  "escrows sample_db = empty_table" "exchanges sample_db = empty_table"
  "witnesses sample_db = empty_table" "parameters sample_db = sample_parameters"
  "active_witnesses sample_db = []" "initial_timestamp sample_db = 1500000000"
  "dyn_props sample_db = sample_dyn_props" "witness_schedule sample_db = []" "block_summaries sample_db = empty_table"
  by (simp_all add: sample_db_def)

lemma sample_dyn_props_fields:
  "dgp_time sample_dyn_props = 1560000000" "welcome_bonus sample_dyn_props = 0"
  "referral_bonus sample_dyn_props = 0" "sale_bonus sample_dyn_props = 0"
  "founder_bonus sample_dyn_props = 0" "witness_bonus sample_dyn_props = 0"
  "head_block_number sample_dyn_props = 100" "head_block_id sample_dyn_props = 0"
  "current_witness sample_dyn_props = 0" "next_maintenance_time sample_dyn_props = 1560086400"
  "witness_budget sample_dyn_props = 0" "recently_missed_count sample_dyn_props = 0"
  "current_aslot sample_dyn_props = 100" "recent_slots_filled sample_dyn_props = 0"
  "dynamic_flags sample_dyn_props = 0" "last_irreversible_block_num sample_dyn_props = 90"
  by (simp_all add: sample_dyn_props_def)

lemma sample_accounts_fields:
  "next_id sample_accounts = 10" "objs (sample_accounts\<lparr>objs := m\<rparr>) = m"
  "fmlookup (objs sample_accounts) 5 = Some (sample_account\<lparr>acc_statistics := 5, is_referrer := True\<rparr>)"
  "fmlookup (objs sample_accounts) 6 = Some (sample_account\<lparr>acc_statistics := 6, acc_escrows := {8}\<rparr>)"
  "fmlookup (objs sample_accounts) 7 = Some (sample_account\<lparr>acc_statistics := 7, acc_escrows := {8}\<rparr>)"
  "fmlookup (objs sample_accounts) 8 = Some (sample_account\<lparr>acc_statistics := 8, is_an_escrow := True\<rparr>)"
  "fmlookup (objs sample_accounts) 9 = Some (sample_account\<lparr>acc_statistics := 9, is_a_publisher := True\<rparr>)"
  by (simp_all add: sample_accounts_def)

lemma sample_stats_fields:
  "fmlookup (objs sample_stats) 5 = Some (sample_statistics\<lparr>stat_owner := 5\<rparr>)"
  "fmlookup (objs sample_stats) 6 =
     Some (sample_statistics\<lparr>stat_owner := 6, pending_fees := 300\<rparr>)"
  "fmlookup (objs sample_stats) 7 = Some (sample_statistics\<lparr>stat_owner := 7\<rparr>)"
  "fmlookup (objs sample_stats) 8 = Some (sample_statistics\<lparr>stat_owner := 8\<rparr>)"
  "fmlookup (objs sample_stats) 9 = Some (sample_statistics\<lparr>stat_owner := 9\<rparr>)"
  by (simp_all add: sample_stats_def)

lemma sample_account_fields:
  "acc_name sample_account = ''''"
  "registrar sample_account = 5"
  "referrer sample_account = 5"
  "network_fee_percentage sample_account = 2000"
  "referrer_rewards_percentage sample_account = 5000"
  "acc_votes sample_account = []"
  "acc_statistics sample_account = 0"
  "whitelisting_accounts sample_account = []"
  "blacklisting_accounts sample_account = []"
  "allowed_assets sample_account = None"
  "cashback_vb sample_account = None"
  "escrow_vb sample_account = None"
  "publisher_vb sample_account = None"
  "founder_sale_vb sample_account = None"
  "referrer_sale_vb sample_account = None"
  "drive_id sample_account = ''''"
  "mac_address sample_account = ''''"
  "received_welcome_bonus sample_account = False"
  "is_a_publisher sample_account = False"
  "is_an_escrow sample_account = False"
  "acc_escrow_fee sample_account = 100"
  "acc_buyers sample_account = {}"
  "acc_escrows sample_account = {}"
  "implicit_escrow_options sample_account = \<lparr>voted_witness = False, active_witness = False, positive_rating = False\<rparr>"
  "listings_count sample_account = 0"
  "sent_referral_bonus sample_account = False"
  "is_referrer sample_account = False"
  "acc_publisher_fee sample_account = 0"
  "reputation_unweighted_score sample_account = 5000"
  "pop_score sample_account = 0"
  "reputation_votes_count sample_account = 0"
  "verified sample_account = False"
  "acc_owner sample_account = null_authority"
  "acc_active sample_account = null_authority"
  by (simp_all add: sample_account_def)

lemma sample_statistics_fields:
  "stat_owner sample_statistics = 0"
  "lifetime_fees_paid sample_statistics = 0"
  "pending_fees sample_statistics = 0"
  "pending_vested_fees sample_statistics = 0"
  "reputation_votes sample_statistics = fmempty"
  "my_reputation_votes sample_statistics = {||}"
  by (simp_all add: sample_statistics_def)

lemma sample_parameters_fields:
  "current_fees sample_parameters = \<lparr>fs_parameters = Map.empty, fs_scale = 0\<rparr>"
  "block_interval sample_parameters = 5"
  "reserve_percent_of_fee sample_parameters = 2000"
  "cashback_vesting_period_seconds sample_parameters = 1000"
  "cashback_vesting_threshold sample_parameters = 100"
  "witness_pay_vesting_seconds sample_parameters = 1000"
  "maximum_escrow_lifetime sample_parameters = 86400"
  "maximum_listing_lifetime sample_parameters = 86400"
  "listing_ban_threshold sample_parameters = 100"
  "maximum_listing_priority_fee sample_parameters = 2000"
  "publisher_fee_min sample_parameters = None"
  "publisher_fee_max sample_parameters = None"
  "maximum_time_until_expiration sample_parameters = 86400"
  "max_authority_depth sample_parameters = 2"
  "maintenance_skip_slots sample_parameters = 3"
  "witness_pay_per_block sample_parameters = 0"
  by (simp_all add: sample_parameters_def)

lemmas sample_eval =
  sample_db_fields sample_dyn_props_fields sample_accounts_fields sample_stats_fields sample_account_fields sample_statistics_fields sample_parameters_fields empty_table_def
  core_asset_def head_block_time_def get_account_def get_statistics_def get_asset_def
  get_listing_def get_escrow_def modify_account_def modify_statistics_def modify_asset_dyn_def
  modify_vesting_def modify_listing_def modify_escrow_def core_dyn_id_def core_dyn_def tbl_eval

end
