(* ===== verification/Balances.thy ===== *)
theory Balances
  imports Chain_State
begin

text \<open>
  \<^verbatim>\<open>db_balance.cpp\<close> (balances, lazy vesting deposits, cashback), the fee helpers of
  \<^verbatim>\<open>account_object.cpp\<close> (\<^verbatim>\<open>cut_fee\<close>, \<^verbatim>\<open>process_fees\<close>, \<^verbatim>\<open>pay_fee\<close>) and
  \<^verbatim>\<open>deposit_fee\<close> of \<^verbatim>\<open>evaluator.cpp\<close>.

  The accounting identity of \<^verbatim>\<open>verify_asset_supplies\<close> in the tests, extended by the coins
  held in open escrows, is \<open>asset_gap\<close>: the supply of an asset minus everything that is held
  in it. Each operation states by how much it moves the gap; an operation that neither creates nor
  destroys coins keeps it.
\<close>

subsection \<open>Balances\<close>

definition get_balance :: "database \<Rightarrow> account_id \<Rightarrow> asset_id_t \<Rightarrow> asset" where
  "get_balance d acct aid =
     (case fmlookup (balances d) (acct, aid) of
        None \<Rightarrow> \<lparr>amount = 0, asset_id = aid\<rparr>
      | Some b \<Rightarrow> \<lparr>amount = b, asset_id = aid\<rparr>)"

definition adjust_balance :: "fc_lib \<Rightarrow> database \<Rightarrow> account_id \<Rightarrow> asset \<Rightarrow> database result" where
  "adjust_balance F d acct delta =
     (if amount delta = 0 then Inr d
      else case fmlookup (balances d) (acct, asset_id delta) of
        None \<Rightarrow>
          ebind (fc_assert (0 < amount delta) ''Insufficient Balance'') (\<lambda>_.
          Inr (d\<lparr>balances := fmupd (acct, asset_id delta) (amount delta) (balances d)\<rparr>))
      | Some b \<Rightarrow>
          ebind (if amount delta < 0
                 then ebind (asset_neg F delta) (\<lambda>need.
                      ebind (asset_ge \<lparr>amount = b, asset_id = asset_id delta\<rparr> need) (\<lambda>enough.
                      fc_assert enough ''Insufficient Balance''))
                 else Inr ()) (\<lambda>_.
          ebind (safe_add F b (amount delta)) (\<lambda>b'.
          Inr (d\<lparr>balances := fmupd (acct, asset_id delta) b' (balances d)\<rparr>))))"

subsection \<open>Vesting deposits\<close>

definition create_vesting :: "database \<Rightarrow> vesting_balance_object \<Rightarrow> (nat \<times> database) result" where
  "create_vesting d vb =
     ebind (tbl_create no_clash (vestings d) vb) (\<lambda>(i, t). Inr (i, d\<lparr>vestings := t\<rparr>))"

definition deposit_lazy_vesting ::
  "fc_lib \<Rightarrow> database \<Rightarrow> nat option \<Rightarrow> share_type \<Rightarrow> nat \<Rightarrow> account_id \<Rightarrow> bool \<Rightarrow> balance_type
    \<Rightarrow> (nat option \<times> database) result" where
  "deposit_lazy_vesting F d ovbid amt req_vesting_seconds req_owner require_vesting btype =
     (if amt = 0 then Inr (None, d)
      else
        let now = head_block_time d;
            create_new = ebind (create_vesting d \<lparr>
              vb_owner = req_owner,
              vb_balance = core_asset amt,
              vb_policy = Cdd \<lparr>
                vesting_seconds = req_vesting_seconds,
                coin_seconds_earned = u128_of_i64 F
                  (if require_vesting then 0 else wrap64 (amt * int req_vesting_seconds)),
                start_claim = 0,
                coin_seconds_earned_last_update = now\<rparr>,
              vb_type = btype\<rparr>) (\<lambda>(i, d'). Inr (Some i, d'))
        in case ovbid of
             None \<Rightarrow> create_new
           | Some i \<Rightarrow>
               ebind (tbl_get (vestings d) i) (\<lambda>vbo.
                 if vb_owner vbo \<noteq> req_owner then create_new
                 else case vb_policy vbo of
                   Linear _ \<Rightarrow> create_new
                 | Cdd p \<Rightarrow>
                     if vesting_seconds p \<noteq> req_vesting_seconds \<or> vb_type vbo \<noteq> btype
                     then create_new
                     else ebind (if require_vesting then vbo_deposit F vbo now (core_asset amt)
                                 else vbo_deposit_vested F vbo now (core_asset amt)) (\<lambda>vbo'.
                          ebind (modify_vesting d i (\<lambda>_. vbo')) (\<lambda>d'.
                          Inr (None, d')))))"

definition get_type_vb :: "balance_type \<Rightarrow> account_object \<Rightarrow> nat option" where
  "get_type_vb btype acct =
     (case btype of
        No_type \<Rightarrow> cashback_vb acct
      | Escrow_fee_type \<Rightarrow> escrow_vb acct
      | Publisher_fee_type \<Rightarrow> publisher_vb acct
      | Founder_sale_fee \<Rightarrow> founder_sale_vb acct
      | Referrer_sale_fee \<Rightarrow> referrer_sale_vb acct)"

definition set_type_vb :: "balance_type \<Rightarrow> nat \<Rightarrow> account_object \<Rightarrow> account_object" where
  "set_type_vb btype i acct =
     (case btype of
        No_type \<Rightarrow> acct\<lparr>cashback_vb := Some i\<rparr>
      | Escrow_fee_type \<Rightarrow> acct\<lparr>escrow_vb := Some i\<rparr>
      | Publisher_fee_type \<Rightarrow> acct\<lparr>publisher_vb := Some i\<rparr>
      | Founder_sale_fee \<Rightarrow> acct\<lparr>founder_sale_vb := Some i\<rparr>
      | Referrer_sale_fee \<Rightarrow> acct\<lparr>referrer_sale_vb := Some i\<rparr>)"

text \<open>The accounts of the chain itself: committee, witness, relaxed committee, null and temp.\<close>

definition is_chain_account :: "account_id \<Rightarrow> bool" where
  "is_chain_account a = (a = 0 \<or> a = 1 \<or> a = 2 \<or> a = 3 \<or> a = 4)"

definition deposit_cashback ::
  "fc_lib \<Rightarrow> database \<Rightarrow> account_id \<Rightarrow> share_type \<Rightarrow> bool \<Rightarrow> balance_type \<Rightarrow> database result" where
  "deposit_cashback F d acct amt require_vesting btype =
     ebind (get_account d acct) (\<lambda>acc.
       if amt = 0 then Inr d
       else if is_chain_account acct then
         ebind (core_dyn_id d) (\<lambda>i.
         ebind (tbl_get (asset_dyn d) i) (\<lambda>dd.
         ebind (safe_sub F (current_supply dd) amt) (\<lambda>s.
         modify_asset_dyn d i (\<lambda>x. x\<lparr>current_supply := s\<rparr>))))
       else
         ebind (deposit_lazy_vesting F d (get_type_vb btype acc) amt
           (cashback_vesting_period_seconds (parameters d)) acct require_vesting btype)
           (\<lambda>(new_vbid, d').
             case new_vbid of
               None \<Rightarrow> Inr d'
             | Some i \<Rightarrow> modify_account d' acct (set_type_vb btype i)))"

definition deposit_fee ::
  "fc_lib \<Rightarrow> database \<Rightarrow> account_id \<Rightarrow> asset option \<Rightarrow> balance_type \<Rightarrow> (share_type \<times> database) result" where
  "deposit_fee F d acct amt btype =
     (case amt of
        None \<Rightarrow> Inr (0, d)
      | Some a \<Rightarrow>
          ebind (deposit_cashback F d acct (amount a)
            (cashback_vesting_threshold (parameters d) < amount a) btype) (\<lambda>d'.
          Inr (amount a, d')))"

definition modify_witness :: "database \<Rightarrow> nat \<Rightarrow> (witness_object \<Rightarrow> witness_object) \<Rightarrow> database result" where
  "modify_witness d i f =
     ebind (tbl_modify no_clash (witnesses d) i f) (\<lambda>t. Inr (d\<lparr>witnesses := t\<rparr>))"

definition deposit_witness_pay :: "fc_lib \<Rightarrow> database \<Rightarrow> nat \<Rightarrow> share_type \<Rightarrow> database result" where
  "deposit_witness_pay F d wit amt =
     (if amt = 0 then Inr d
      else ebind (tbl_get (witnesses d) wit) (\<lambda>w.
           ebind (deposit_lazy_vesting F d (pay_vb w) amt
             (witness_pay_vesting_seconds (parameters d)) (witness_account w) True No_type)
             (\<lambda>(new_vbid, d').
               case new_vbid of
                 None \<Rightarrow> Inr d'
               | Some i \<Rightarrow> modify_witness d' wit (\<lambda>x. x\<lparr>pay_vb := Some i\<rparr>))))"

subsection \<open>Fees\<close>

definition cut_fee :: "fc_lib \<Rightarrow> share_type \<Rightarrow> nat \<Rightarrow> share_type result" where
  "cut_fee F a p =
     (if a = 0 \<or> p = 0 then Inr 0
      else if p = GRAPHENE_100_PERCENT then Inr a
      else emap (\<lambda>v. wrap64 (int v))
        (u128_to_u64 F (u128_div F (u128_mul F (u128_of_i64 F a) p) GRAPHENE_100_PERCENT)))"

definition stat_pay_fee ::
  "fc_lib \<Rightarrow> share_type \<Rightarrow> share_type \<Rightarrow> account_statistics_object \<Rightarrow> account_statistics_object result" where
  "stat_pay_fee F core_fee threshold s =
     (if threshold < core_fee
      then emap (\<lambda>x. s\<lparr>pending_fees := x\<rparr>) (safe_add F (pending_fees s) core_fee)
      else emap (\<lambda>x. s\<lparr>pending_vested_fees := x\<rparr>) (safe_add F (pending_vested_fees s) core_fee))"

text \<open>The lambda \<^verbatim>\<open>pay_out_fees\<close> of \<^verbatim>\<open>process_fees\<close>, and the method itself for the
  account \<open>a\<close> that owns the statistics.\<close>

definition pay_out_fees :: "fc_lib \<Rightarrow> account_id \<Rightarrow> share_type \<Rightarrow> bool \<Rightarrow> database \<Rightarrow> database result" where
  "pay_out_fees F a core_fee_total require_vesting d =
     ebind (get_account d a) (\<lambda>acc.
     ebind (cut_fee F core_fee_total (network_fee_percentage acc)) (\<lambda>network_cut.
     ebind (safe_sub F core_fee_total network_cut) (\<lambda>referral.
     ebind (tbl_get (asset_dyn d) 0) (\<lambda>dd.
     ebind (safe_add F (accumulated_fees dd) network_cut) (\<lambda>acc_fees.
     ebind (modify_asset_dyn d 0 (\<lambda>x. x\<lparr>accumulated_fees := acc_fees\<rparr>)) (\<lambda>d1.
     ebind (cut_fee F referral (referrer_rewards_percentage acc)) (\<lambda>referrer_cut.
     ebind (safe_sub F referral referrer_cut) (\<lambda>registrar_cut.
     ebind (deposit_cashback F d1 (referrer acc) referrer_cut require_vesting No_type) (\<lambda>d2.
     deposit_cashback F d2 (registrar acc) registrar_cut require_vesting No_type)))))))))"

definition process_fees :: "fc_lib \<Rightarrow> account_id \<Rightarrow> database \<Rightarrow> database result" where
  "process_fees F a d =
     ebind (get_account d a) (\<lambda>acc.
     ebind (tbl_get (statistics d) (acc_statistics acc)) (\<lambda>st.
       if 0 < pending_fees st \<or> 0 < pending_vested_fees st then
         ebind (pay_out_fees F a (pending_fees st) True d) (\<lambda>d1.
         ebind (pay_out_fees F a (pending_vested_fees st) False d1) (\<lambda>d2.
         ebind (safe_add F (pending_fees st) (pending_vested_fees st)) (\<lambda>paid.
         ebind (safe_add F (lifetime_fees_paid st) paid) (\<lambda>life.
         modify_statistics d2 (acc_statistics acc)
           (\<lambda>s. s\<lparr>lifetime_fees_paid := life, pending_fees := 0, pending_vested_fees := 0\<rparr>)))))
       else Inr d))"

subsection \<open>Accounting\<close>

definition asset_dyn_of :: "database \<Rightarrow> asset_id_t \<Rightarrow> asset_dynamic_data_object option" where
  "asset_dyn_of d a =
     Option.bind (tbl_find (assets d) a) (\<lambda>x. tbl_find (asset_dyn d) (dynamic_asset_data_id x))"

definition of_asset :: "asset_id_t \<Rightarrow> asset \<Rightarrow> int" where
  "of_asset a x = (if asset_id x = a then amount x else 0)"

definition held :: "asset_id_t \<Rightarrow> database \<Rightarrow> int" where
  "held a d =
     fm_sum (\<lambda>k b. if snd k = a then b else 0) (balances d)
   + tbl_sum (\<lambda>vb. of_asset a (vb_balance vb)) (vestings d)
   + tbl_sum (\<lambda>e. if esc_transfer_to_escrow e then 0 else of_asset a (esc_amount e)) (escrows d)
   + (if a = 0
      then tbl_sum (\<lambda>s. pending_fees s + pending_vested_fees s) (statistics d)
         + tbl_sum fee_pool (asset_dyn d)
      else 0)"

definition asset_gap :: "asset_id_t \<Rightarrow> database \<Rightarrow> int" where
  "asset_gap a d =
     (case asset_dyn_of d a of
        None \<Rightarrow> 0
      | Some x \<Rightarrow> current_supply x - accumulated_fees x) - held a d"

text \<open>The core asset uses the first dynamic data object, and no two assets share one.\<close>

definition assets_ok :: "database \<Rightarrow> bool" where
  "assets_ok d \<longleftrightarrow> core_dyn_id d = Inr 0 \<and>
     (\<forall>a b x y. tbl_find (assets d) a = Some x \<and> tbl_find (assets d) b = Some y \<and>
        dynamic_asset_data_id x = dynamic_asset_data_id y \<longrightarrow> a = b)"

definition balances_ok :: "database \<Rightarrow> bool" where
  "balances_ok d \<longleftrightarrow> fmpred (\<lambda>_ b. 0 \<le> b \<and> in_int64 b) (balances d)"

text \<open>
  Deposits write to the vesting table, to the supply of the core asset and to the five vesting
  references of an account; \<open>deposit_frame\<close> says that all the rest is as it was.
\<close>

definition strip_vb :: "account_object \<Rightarrow> account_object" where
  "strip_vb acc = acc\<lparr>cashback_vb := None, escrow_vb := None, publisher_vb := None,
     founder_sale_vb := None, referrer_sale_vb := None\<rparr>"

definition deposit_frame :: "database \<Rightarrow> database \<Rightarrow> bool" where
  "deposit_frame d d' \<longleftrightarrow>
     balances d' = balances d \<and> statistics d' = statistics d \<and> assets d' = assets d \<and>
     listings d' = listings d \<and> escrows d' = escrows d \<and> exchanges d' = exchanges d \<and>
     witnesses d' = witnesses d \<and> parameters d' = parameters d \<and> dyn_props d' = dyn_props d \<and>
     active_witnesses d' = active_witnesses d \<and> initial_timestamp d' = initial_timestamp d \<and>
     witness_schedule d' = witness_schedule d \<and> block_summaries d' = block_summaries d \<and>
     (\<forall>i. map_option strip_vb (tbl_find (accounts d') i) = map_option strip_vb (tbl_find (accounts d) i))"

subsection \<open>The interface of the ledger\<close>

text \<open>
  What the evaluators rely on when they move coins: a credit changes the gap by exactly its
  amount. Any list of credits that sums to nothing then keeps the gap.
\<close>

locale ledger =
  fixes gap :: "'s \<Rightarrow> int"
    and credit :: "'s \<Rightarrow> account_id \<Rightarrow> int \<Rightarrow> 's result"
  assumes credit_gap: "credit s a x = Inr s' \<Longrightarrow> gap s' = gap s - x"
begin

lemma credits_gap:
  "efold (\<lambda>(a, x) s. credit s a x) ps s = Inr s' \<Longrightarrow> gap s' = gap s - sum_list (map snd ps)"
proof (induction ps arbitrary: s)
  case Nil
  then show ?case by simp
next
  case (Cons p ps)
  obtain a x where p: "p = (a, x)" by (cases p)
  with Cons.prems obtain m where "credit s a x = Inr m"
    and m: "efold (\<lambda>(a, x) s. credit s a x) ps m = Inr s'" by auto
  from this(1) have "gap m = gap s - x" by (rule credit_gap)
  with Cons.IH [OF m] p show ?case by simp
qed

lemma balanced_credits_gap:
  "efold (\<lambda>(a, x) s. credit s a x) ps s = Inr s' \<Longrightarrow> sum_list (map snd ps) = 0 \<Longrightarrow> gap s' = gap s"
  using credits_gap by fastforce

end

section \<open>Lemmas\<close>

subsection \<open>Accounting of the primitive updates\<close>

lemma asset_gap_cong:
  "balances d' = balances d \<Longrightarrow> vestings d' = vestings d \<Longrightarrow> escrows d' = escrows d \<Longrightarrow>
   statistics d' = statistics d \<Longrightarrow> assets d' = assets d \<Longrightarrow> asset_dyn d' = asset_dyn d \<Longrightarrow>
   asset_gap a d' = asset_gap a d"
  by (simp add: asset_gap_def held_def asset_dyn_of_def)

lemma modify_account_gap: "modify_account d i f = Inr d' \<Longrightarrow> asset_gap a d' = asset_gap a d"
  by (auto simp: modify_account_def intro: asset_gap_cong)

lemma modify_listing_gap: "modify_listing d i f = Inr d' \<Longrightarrow> asset_gap a d' = asset_gap a d"
  by (auto simp: modify_listing_def intro: asset_gap_cong)

lemma modify_witness_gap: "modify_witness d i f = Inr d' \<Longrightarrow> asset_gap a d' = asset_gap a d"
  by (auto simp: modify_witness_def intro: asset_gap_cong)

lemma create_vesting_gap:
  "create_vesting d vb = Inr (i, d') \<Longrightarrow> asset_gap a d' = asset_gap a d - of_asset a (vb_balance vb)"
  by (auto simp: create_vesting_def asset_gap_def held_def asset_dyn_of_def tbl_create_sum
      split: prod.splits)

lemma modify_vesting_gap:
  "modify_vesting d i (\<lambda>_. vb') = Inr d' \<Longrightarrow> tbl_find (vestings d) i = Some vb \<Longrightarrow>
   asset_gap a d' = asset_gap a d - (of_asset a (vb_balance vb') - of_asset a (vb_balance vb))"
  by (auto simp: modify_vesting_def asset_gap_def held_def asset_dyn_of_def tbl_modify_sum)

lemma balances_upd_gap:
  "asset_gap a (d\<lparr>balances := fmupd (acct, aid) b' (balances d)\<rparr>) =
   asset_gap a d - (if aid = a then b' - (case fmlookup (balances d) (acct, aid) of None \<Rightarrow> 0 | Some b \<Rightarrow> b) else 0)"
  by (auto simp: asset_gap_def held_def asset_dyn_of_def fm_sum_upd fm_sum_drop split: option.splits)

lemma modify_statistics_gap:
  "modify_statistics d i f = Inr d' \<Longrightarrow> tbl_find (statistics d) i = Some s \<Longrightarrow>
   asset_gap a d' = asset_gap a d - (if a = 0 then pending_fees (f s) + pending_vested_fees (f s)
     - (pending_fees s + pending_vested_fees s) else 0)"
  by (auto simp: modify_statistics_def asset_gap_def held_def asset_dyn_of_def tbl_modify_sum)

text \<open>A change of the dynamic data of one asset.\<close>

lemma modify_dyn_gap:
  assumes "assets_ok d" and "tbl_find (assets d) x = Some ao" and "tbl_find (asset_dyn d) (dynamic_asset_data_id ao) = Some dd"
    and "modify_asset_dyn d (dynamic_asset_data_id ao) f = Inr d'"
  shows "asset_gap a d' = asset_gap a d
    + (if a = x then (current_supply (f dd) - accumulated_fees (f dd)) - (current_supply dd - accumulated_fees dd) else 0)
    - (if a = 0 then fee_pool (f dd) - fee_pool dd else 0)"
proof -
  have own: "dynamic_asset_data_id y \<noteq> dynamic_asset_data_id ao" if "a \<noteq> x" "tbl_find (assets d) a = Some y" for y
    using assms(1,2) that by (auto simp: assets_ok_def)
  have "asset_dyn_of d' a = (if a = x then Some (f dd) else asset_dyn_of d a)"
    using assms(2-4) own
    by (auto simp: modify_asset_dyn_def asset_dyn_of_def tbl_modify_find split: bind_splits)
  moreover have "asset_dyn_of d x = Some dd" using assms(2,3) by (simp add: asset_dyn_of_def)
  ultimately show ?thesis
    using assms(3,4)
    by (auto simp: modify_asset_dyn_def asset_gap_def held_def tbl_modify_sum)
qed

lemma modify_core_dyn_gap:
  assumes "assets_ok d" and "tbl_find (asset_dyn d) 0 = Some dd"
    and "modify_asset_dyn d 0 f = Inr d'" and "fee_pool (f dd) = fee_pool dd"
  shows "asset_gap a d' = asset_gap a d
    + (if a = 0 then (current_supply (f dd) - accumulated_fees (f dd)) - (current_supply dd - accumulated_fees dd) else 0)"
proof -
  from assms(1) obtain ao where "tbl_find (assets d) 0 = Some ao" "dynamic_asset_data_id ao = 0"
    by (auto simp: assets_ok_def core_dyn_id_def get_asset_def)
  then show ?thesis using modify_dyn_gap [OF assms(1)] assms(2-4) by fastforce
qed

lemma assets_ok_cong: "assets d' = assets d \<Longrightarrow> assets_ok d' = assets_ok d"
  by (simp add: assets_ok_def core_dyn_id_def get_asset_def)

subsection \<open>Balances\<close>

lemma get_balance_simps [simp]: "asset_id (get_balance d acct aid) = aid"
  by (simp add: get_balance_def split: option.splits)

context fc_laws
begin

lemma adjust_balance_gap:
  "adjust_balance F d acct delta = Inr d' \<Longrightarrow> asset_gap a d' = asset_gap a d - of_asset a delta"
  by (auto simp: adjust_balance_def balances_upd_gap of_asset_def safe_add
      split: if_splits option.splits)

lemma adjust_balance_get:
  "adjust_balance F d acct delta = Inr d' \<Longrightarrow>
   amount (get_balance d' a x) = amount (get_balance d a x)
     + (if a = acct \<and> x = asset_id delta then amount delta else 0)"
  by (auto simp: adjust_balance_def get_balance_def safe_add split: if_splits option.splits)

lemma adjust_balance_frame:
  "adjust_balance F d acct delta = Inr d' \<Longrightarrow> \<exists>b. d' = d\<lparr>balances := b\<rparr>"
  by (auto simp: adjust_balance_def split: if_splits option.splits intro: exI [of _ "balances d"])

lemma adjust_balance_keeps_ok:
  "adjust_balance F d acct delta = Inr d' \<Longrightarrow> in_int64 (amount delta) \<Longrightarrow> balances_ok d \<Longrightarrow> balances_ok d'"
  by (fastforce simp: adjust_balance_def balances_ok_def safe_add fmpred_iff
      split: if_splits option.splits)

text \<open>A debit succeeds exactly when the balance covers it; a credit when the sum fits.\<close>

lemma adjust_balance_is_ok:
  assumes "balances_ok d" and "in_int64 (amount delta)" and "amount delta \<noteq> - (2 ^ 63)"
  shows "is_ok (adjust_balance F d acct delta) \<longleftrightarrow>
    amount delta = 0 \<or> (0 \<le> amount (get_balance d acct (asset_id delta)) + amount delta \<and>
      in_int64 (amount (get_balance d acct (asset_id delta)) + amount delta))"
proof (cases "fmlookup (balances d) (acct, asset_id delta)")
  case None
  with assms show ?thesis by (auto simp: adjust_balance_def get_balance_def fc_assert_def)
next
  case (Some b)
  with assms(1) have "0 \<le> b" "in_int64 b" by (auto simp: balances_ok_def dest: fmpredD)
  with Some assms(2,3) show ?thesis
    by (auto simp: is_ok_iff adjust_balance_def get_balance_def safe_add in_int64_def)
qed

end

subsection \<open>Deposits\<close>

lemma deposit_frame_refl [simp]: "deposit_frame d d"
  by (simp add: deposit_frame_def)

lemma deposit_frame_trans: "deposit_frame a b \<Longrightarrow> deposit_frame b c \<Longrightarrow> deposit_frame a c"
  by (simp add: deposit_frame_def)

lemma strip_set_type_vb [simp]: "strip_vb (set_type_vb btype i acc) = strip_vb acc"
  by (cases btype) (simp_all add: strip_vb_def set_type_vb_def)

lemma modify_account_frame:
  "modify_account d acct (set_type_vb btype i) = Inr d' \<Longrightarrow> deposit_frame d d'"
  by (auto simp: modify_account_def deposit_frame_def tbl_modify_find map_option.compositionality comp_def)

context fc_laws
begin

lemma vbo_deposit_amount:
  "vbo_deposit F vb t amt = Inr vb' \<Longrightarrow>
   vb_balance vb' = (vb_balance vb)\<lparr>amount := amount (vb_balance vb) + amount amt\<rparr> \<and>
   asset_id amt = asset_id (vb_balance vb) \<and> vb_owner vb' = vb_owner vb \<and> vb_type vb' = vb_type vb"
  by (auto simp: vbo_deposit_def Let_def)

lemma vbo_deposit_vested_amount:
  "vbo_deposit_vested F vb t amt = Inr vb' \<Longrightarrow>
   vb_balance vb' = (vb_balance vb)\<lparr>amount := amount (vb_balance vb) + amount amt\<rparr> \<and>
   asset_id amt = asset_id (vb_balance vb) \<and> vb_owner vb' = vb_owner vb \<and> vb_type vb' = vb_type vb"
  by (auto simp: vbo_deposit_vested_def)

lemma deposit_lazy_vesting_gap:
  assumes "deposit_lazy_vesting F d ovbid amt vs own rv btype = Inr (r, d')"
  shows "asset_gap a d' = asset_gap a d - of_asset a (core_asset amt)"
proof -
  have new: "asset_gap a e = asset_gap a d - of_asset a (core_asset amt)"
    if "create_vesting d vb = Inr (i, e)" "vb_balance vb = core_asset amt" for vb i e
    using create_vesting_gap [OF that(1)] that(2) by simp
  have old: "asset_gap a e = asset_gap a d - of_asset a (core_asset amt)"
    if "tbl_find (vestings d) i = Some vb" and "modify_vesting d i (\<lambda>_. vb') = Inr e"
      and "(if rv then vbo_deposit F vb t (core_asset amt)
            else vbo_deposit_vested F vb t (core_asset amt)) = Inr vb'" for vb vb' i e t
  proof -
    have b: "vb_balance vb' = (vb_balance vb)\<lparr>amount := amount (vb_balance vb) + amt\<rparr>"
      "asset_id (vb_balance vb) = 0"
      using that(3) vbo_deposit_amount vbo_deposit_vested_amount by (force split: if_splits)+
    show ?thesis using modify_vesting_gap [OF that(2,1)] b by (simp add: of_asset_def)
  qed
  show ?thesis
    using assms
    by (auto simp: deposit_lazy_vesting_def Let_def of_asset_def [of _ "core_asset 0"]
        split: if_splits option.splits vesting_policy.splits intro: new old)
qed

lemma deposit_lazy_vesting_frame:
  "deposit_lazy_vesting F d ovbid amt vs own rv btype = Inr (r, d') \<Longrightarrow> \<exists>v. d' = d\<lparr>vestings := v\<rparr>"
  by (auto simp: deposit_lazy_vesting_def create_vesting_def modify_vesting_def Let_def
      split: if_splits option.splits vesting_policy.splits prod.splits intro: exI [of _ "vestings d"])

lemma deposit_cashback_gap:
  assumes *: "deposit_cashback F d acct amt rv btype = Inr d'" and ok: "assets_ok d"
  shows "asset_gap a d' = asset_gap a d - of_asset a (core_asset amt)"
proof (cases "amt = 0 \<or> \<not> is_chain_account acct")
  case True
  with * show ?thesis
    by (auto simp: deposit_cashback_def of_asset_def split: if_splits option.splits
        dest!: deposit_lazy_vesting_gap [where a = a] modify_account_gap [where a = a])
next
  case False
  with * ok obtain dd where "tbl_find (asset_dyn d) 0 = Some dd"
    and "modify_asset_dyn d 0 (\<lambda>x. x\<lparr>current_supply := current_supply dd - amt\<rparr>) = Inr d'"
    by (auto simp: deposit_cashback_def safe_sub assets_ok_def)
  with modify_core_dyn_gap [OF ok this, of a] show ?thesis by (simp add: of_asset_def)
qed

lemma deposit_cashback_frame: "deposit_cashback F d acct amt rv btype = Inr d' \<Longrightarrow> deposit_frame d d'"
proof -
  assume *: "deposit_cashback F d acct amt rv btype = Inr d'"
  have lazy: "deposit_frame d e" if "deposit_lazy_vesting F d o' amt vs acct rv btype = Inr (r, e)" for o' vs r e
    using deposit_lazy_vesting_frame [OF that] by (auto simp: deposit_frame_def)
  show ?thesis
    using * deposit_frame_trans
    by (fastforce simp: deposit_cashback_def modify_asset_dyn_def deposit_frame_def [of d "d\<lparr>asset_dyn := _\<rparr>"]
        split: if_splits option.splits dest: lazy modify_account_frame)
qed

lemma deposit_fee_gap:
  "deposit_fee F d acct amt btype = Inr (x, d') \<Longrightarrow> assets_ok d \<Longrightarrow>
   asset_gap a d' = asset_gap a d - of_asset a (core_asset x)"
  by (auto simp: deposit_fee_def of_asset_def dest!: deposit_cashback_gap [where a = a] split: option.splits)

lemma deposit_fee_frame: "deposit_fee F d acct amt btype = Inr (x, d') \<Longrightarrow> deposit_frame d d'"
  by (auto simp: deposit_fee_def dest: deposit_cashback_frame split: option.splits)

lemma deposit_fee_amount:
  "deposit_fee F d acct amt btype = Inr (x, d') \<Longrightarrow> x = (case amt of None \<Rightarrow> 0 | Some a \<Rightarrow> amount a)"
  by (auto simp: deposit_fee_def split: option.splits)

lemma deposit_witness_pay_gap:
  "deposit_witness_pay F d w amt = Inr d' \<Longrightarrow> asset_gap a d' = asset_gap a d - of_asset a (core_asset amt)"
  by (auto simp: deposit_witness_pay_def of_asset_def split: if_splits option.splits
      dest!: deposit_lazy_vesting_gap [where a = a] modify_witness_gap [where a = a])

end

text \<open>Crediting one account in one asset is a ledger.\<close>

sublocale fc_laws \<subseteq> coins: ledger "asset_gap a"
  "\<lambda>d acct x. adjust_balance F d acct \<lparr>amount = x, asset_id = a\<rparr>" for a
  by unfold_locales (auto dest: adjust_balance_gap [where a = a] simp: of_asset_def)

subsection \<open>Fees\<close>

lemma deposit_frame_assets_ok: "deposit_frame d d' \<Longrightarrow> assets_ok d' = assets_ok d"
  by (rule assets_ok_cong) (simp add: deposit_frame_def)

context fc_laws
begin

lemma cut_fee_exact:
  assumes "0 \<le> a" and "in_int64 a" and "p \<le> GRAPHENE_100_PERCENT"
  shows "cut_fee F a p = Inr (a * int p div 10000)"
proof -
  let ?n = "nat a"
  have n: "?n < 2 ^ 63" using assms int64_nat_bound by blast
  have p: "p \<le> 10000" using assms(3) by (simp add: GRAPHENE_100_PERCENT_def)
  have m: "?n * p < 2 ^ 127" using n by (rule bound_mult_128) (use p in simp)
  have le: "?n * p div 10000 \<le> ?n" using p by (rule mult_div_le)
  then have q: "?n * p div 10000 < 2 ^ 63" using n by (rule le_less_trans)
  have "u128_to_u64 F (?n * p div 10000) = Inr (?n * p div 10000)" using q by (simp add: u128_to_u64)
  moreover have "wrap64 (int (?n * p div 10000)) = int (?n * p div 10000)"
    using q by (intro wrap64_id) (simp add: in_int64_def)
  moreover have "int (?n * p div 10000) = a * int p div 10000"
    using assms(1) by (simp add: zdiv_int)
  moreover have "u128_div F (u128_mul F (u128_of_i64 F a) p) 10000 = ?n * p div 10000"
  proof -
    have "?n * p < 2 ^ 128" using m by simp
    with assms(1,2) show ?thesis by (simp add: u128_of_i64 u128_mul u128_div)
  qed
  ultimately show ?thesis by (simp add: cut_fee_def GRAPHENE_100_PERCENT_def)
qed

lemma cut_fee_range: "0 \<le> a \<Longrightarrow> p \<le> 10000 \<Longrightarrow> 0 \<le> a * int p div 10000 \<and> a * int p div 10000 \<le> a"
proof -
  assume "0 \<le> a" and p: "p \<le> 10000"
  then obtain n where n: "a = int n" using nonneg_int_cases by blast
  from p have "int (n * p div 10000) \<le> int n" by (simp only: zle_int mult_div_le)
  with n show ?thesis by (simp add: zdiv_int pos_imp_zdiv_nonneg_iff)
qed

lemma pay_out_fees_gap:
  assumes "pay_out_fees F a core_total rv d = Inr d'" and ok: "assets_ok d"
  shows "asset_gap x d' = asset_gap x d - of_asset x (core_asset core_total) \<and> deposit_frame d d'"
proof -
  from assms(1) obtain acc network_cut referrer_cut dd d1 d2
    where "get_account d a = Inr acc" "cut_fee F core_total (network_fee_percentage acc) = Inr network_cut"
      and "cut_fee F (core_total - network_cut) (referrer_rewards_percentage acc) = Inr referrer_cut"
      and dd: "tbl_find (asset_dyn d) 0 = Some dd"
      and d1: "modify_asset_dyn d 0 (\<lambda>x. x\<lparr>accumulated_fees := accumulated_fees dd + network_cut\<rparr>) = Inr d1"
      and d2: "deposit_cashback F d1 (referrer acc) referrer_cut rv No_type = Inr d2"
      and d': "deposit_cashback F d2 (registrar acc) (core_total - network_cut - referrer_cut) rv No_type = Inr d'"
    by (auto simp: pay_out_fees_def safe_sub safe_add)
  have f1: "deposit_frame d d1" using d1 by (auto simp: modify_asset_dyn_def deposit_frame_def)
  note f2 = deposit_cashback_frame [OF d2] and f3 = deposit_cashback_frame [OF d']
  have ok1: "assets_ok d1" using f1 ok by (simp add: deposit_frame_assets_ok)
  then have ok2: "assets_ok d2" using f2 by (simp add: deposit_frame_assets_ok)
  have "deposit_frame d d'" using f1 f2 f3 deposit_frame_trans by blast
  moreover have "asset_gap x d1 = asset_gap x d - of_asset x (core_asset network_cut)"
    using modify_core_dyn_gap [OF ok dd d1, of x] by (simp add: of_asset_def)
  ultimately show ?thesis
    using deposit_cashback_gap [OF d2 ok1, of x] deposit_cashback_gap [OF d' ok2, of x]
    by (auto simp: of_asset_def)
qed

lemma process_fees_cases:
  assumes "process_fees F a d = Inr d'"
  obtains (idle) "d' = d"
  | (paid) acc st d1 d2 where
      "get_account d a = Inr acc" "tbl_find (statistics d) (acc_statistics acc) = Some st"
      "pay_out_fees F a (pending_fees st) True d = Inr d1"
      "pay_out_fees F a (pending_vested_fees st) False d1 = Inr d2"
      "modify_statistics d2 (acc_statistics acc)
         (\<lambda>s. s\<lparr>lifetime_fees_paid := lifetime_fees_paid st + (pending_fees st + pending_vested_fees st),
                pending_fees := 0, pending_vested_fees := 0\<rparr>) = Inr d'"
  using assms that by (auto simp: process_fees_def safe_add split: if_splits)

lemma process_fees_gap:
  assumes run: "process_fees F a d = Inr d'" and ok: "assets_ok d"
  shows "asset_gap x d' = asset_gap x d"
  using run
proof (cases rule: process_fees_cases)
  case idle
  then show ?thesis by simp
next
  case (paid acc st d1 d2)
  note p1 = pay_out_fees_gap [OF paid(3) ok, of x]
  then have "assets_ok d1" using ok deposit_frame_assets_ok [of d d1] by simp
  note p2 = pay_out_fees_gap [OF paid(4) this, of x]
  have "tbl_find (statistics d2) (acc_statistics acc) = Some st"
    using p1 p2 paid(2) by (simp add: deposit_frame_def)
  from modify_statistics_gap [OF paid(5) this, of x] p1 p2 show ?thesis by (auto simp: of_asset_def)
qed

end

lemma sample_assets_ok: "assets_ok sample_db"
  by (simp add: assets_ok_def sample_eval split: if_splits)

section \<open>Properties\<close>

text \<open>C19. \<^verbatim>\<open>adjust_balance\<close>: it succeeds exactly when nothing is to be done or the new balance is
  neither negative nor beyond 64 bits; then the named balance has moved by the amount, every other
  balance is as before, nothing else in the database has changed, no balance is negative, and the
  accounting gap of the asset has fallen by the amount.\<close>

theorem adjust_balance_contract:
  assumes "fc_laws F" and "balances_ok d" and "in_int64 (amount delta)" and "amount delta \<noteq> - (2 ^ 63)"
  shows "(is_ok (adjust_balance F d acct delta) \<longleftrightarrow>
      amount delta = 0 \<or> (0 \<le> amount (get_balance d acct (asset_id delta)) + amount delta \<and>
        in_int64 (amount (get_balance d acct (asset_id delta)) + amount delta))) \<and>
    (\<forall>d'. adjust_balance F d acct delta = Inr d' \<longrightarrow>
      balances_ok d' \<and> (\<exists>b. d' = d\<lparr>balances := b\<rparr>) \<and>
      (\<forall>a x. amount (get_balance d' a x) = amount (get_balance d a x)
         + (if a = acct \<and> x = asset_id delta then amount delta else 0)) \<and>
      asset_gap (asset_id delta) d' = asset_gap (asset_id delta) d - amount delta)"
proof -
  note L = fc_laws.adjust_balance_keeps_ok [OF assms(1) _ assms(3,2)] fc_laws.adjust_balance_frame [OF assms(1)]
    fc_laws.adjust_balance_get [OF assms(1)] fc_laws.adjust_balance_gap [OF assms(1), where a = "asset_id delta"]
  show ?thesis
    using fc_laws.adjust_balance_is_ok [OF assms, of acct] L by (auto simp: of_asset_def)
qed

theorem adjust_balance_contract_witness:
  "is_ok (adjust_balance checked_fc sample_db 6 (core_asset (- 8000))) \<and>
   \<not> is_ok (adjust_balance checked_fc sample_db 6 (core_asset (- 8001)))"
proof -
  have ok: "balances_ok sample_db"
    by (simp add: balances_ok_def sample_db_fields fmpred_upd_iff fmdrop_fmupd in_int64_def)
  have bal: "get_balance sample_db 6 0 = core_asset 8000"
    by (simp add: get_balance_def sample_db_fields core_asset_def)
  note C = adjust_balance_contract [OF checked.fc_laws_axioms ok, where acct = 6, THEN conjunct1]
  show ?thesis
    using C [of "core_asset (- 8000)"] C [of "core_asset (- 8001)"] by (simp add: bal in_int64_def)
qed

text \<open>\<^verbatim>\<open>cut_fee\<close> rounds the share down: for a fee that is not negative and at most 100
  percent, it is \<open>a * p div 10000\<close>, between nothing and the whole fee.\<close>

theorem cut_fee_contract:
  assumes "fc_laws F" and "0 \<le> a" and "in_int64 a" and "p \<le> GRAPHENE_100_PERCENT"
  shows "cut_fee F a p = Inr (a * int p div 10000) \<and> 0 \<le> a * int p div 10000 \<and> a * int p div 10000 \<le> a"
  using fc_laws.cut_fee_exact [OF assms] fc_laws.cut_fee_range [OF assms(1,2), of p] assms(4)
  by (simp add: GRAPHENE_100_PERCENT_def)

theorem cut_fee_contract_witness: "cut_fee checked_fc 999 2500 = Inr 249"
  using cut_fee_contract [of checked_fc 999 2500] checked.fc_laws_axioms
  by (simp add: GRAPHENE_100_PERCENT_def in_int64_def)

text \<open>\<^verbatim>\<open>deposit_cashback\<close> moves exactly the amount into the holdings: whichever way it takes
  (a new vesting balance, an old one, or the reserve for an account of the chain itself), the gap of the
  core asset falls by the amount and no other gap moves, and outside the vesting table, the supply and
  the vesting references of accounts the database is as before.\<close>

theorem deposit_cashback_contract:
  assumes "fc_laws F" and "assets_ok d" and "deposit_cashback F d acct amt require_vesting btype = Inr d'"
  shows "asset_gap a d' = asset_gap a d - of_asset a (core_asset amt) \<and> deposit_frame d d'"
  using fc_laws.deposit_cashback_gap [OF assms(1,3,2)] fc_laws.deposit_cashback_frame [OF assms(1,3)] by blast

theorem deposit_cashback_contract_witness:
  "\<exists>d'. deposit_cashback checked_fc sample_db 7 40 False Escrow_fee_type = Inr d' \<and>
     asset_gap 0 d' = asset_gap 0 sample_db - 40"
proof -
  have "is_ok (deposit_cashback checked_fc sample_db 7 40 False Escrow_fee_type)"
    by (simp add: deposit_cashback_def deposit_lazy_vesting_def create_vesting_def is_chain_account_def
        get_type_vb_def sample_eval)
  from this [unfolded is_ok_iff] obtain d'
    where d': "deposit_cashback checked_fc sample_db 7 40 False Escrow_fee_type = Inr d'" ..
  from deposit_cashback_contract [OF checked.fc_laws_axioms sample_assets_ok d', of 0] d' show ?thesis
    by (simp add: of_asset_def)
qed

text \<open>C21. \<^verbatim>\<open>process_fees\<close> creates and destroys nothing: the network's cut, the referrer's and the
  registrar's add up to the pending fees, which it clears, so the gap of every asset stays.\<close>

theorem process_fees_conserves:
  assumes "fc_laws F" and "assets_ok d" and "process_fees F a d = Inr d'"
  shows "asset_gap x d' = asset_gap x d"
  using fc_laws.process_fees_gap [OF assms(1,3,2)] .

theorem process_fees_conserves_witness:
  "\<exists>d'. process_fees checked_fc 6 sample_db = Inr d' \<and> asset_gap 0 d' = asset_gap 0 sample_db"
proof -
  have "is_ok (process_fees checked_fc 6 sample_db)"
    by (simp add: process_fees_def pay_out_fees_def cut_fee_def GRAPHENE_100_PERCENT_def checked_fc_def
        safe_check_def in_int64_def wrap64_def deposit_cashback_def deposit_lazy_vesting_def
        create_vesting_def is_chain_account_def get_type_vb_def set_type_vb_def vbo_deposit_def
        vbo_deposit_vested_def cdd_on_deposit_def cdd_on_deposit_vested_def asset_add_def
        update_coin_seconds_earned_def compute_coin_seconds_earned_def vbo_ctx_def vs1_def sample_eval)
  from this [unfolded is_ok_iff] obtain d' where d': "process_fees checked_fc 6 sample_db = Inr d'" ..
  with process_fees_conserves [OF checked.fc_laws_axioms sample_assets_ok d'] show ?thesis by blast
qed

end
