(* ===== verification/Ob_Fees.thy ===== *)
theory Ob_Fees
  imports Balances
begin

text \<open>
  \<^verbatim>\<open>omnibazaar_fee_type.cpp\<close>: the five optional marketplace fees of an operation, the check
  that they cover what is required, their sum, and the fees of a sale.
\<close>

text \<open>One of the five blocks of \<^verbatim>\<open>is_enough\<close>.\<close>

definition fee_covers :: "asset option \<Rightarrow> asset option \<Rightarrow> unit result" where
  "fee_covers given required =
     (case required of
        None \<Rightarrow> Inr ()
      | Some r \<Rightarrow>
          (case given of
             None \<Rightarrow> Inl (Assert_failed ''fee is required but is not specified'')
           | Some g \<Rightarrow>
               ebind (fc_assert (asset_id g = asset_id r) ''Asset types don't match'') (\<lambda>_.
               ebind (asset_ge g r) (\<lambda>enough.
               fc_assert enough ''Insufficient fee''))))"

definition is_enough :: "omnibazaar_fee_type \<Rightarrow> omnibazaar_fee_type \<Rightarrow> bool result" where
  "is_enough given reference_fee =
     ebind (fee_covers (omnibazaar_fee given) (omnibazaar_fee reference_fee)) (\<lambda>_.
     ebind (fee_covers (escrow_fee given) (escrow_fee reference_fee)) (\<lambda>_.
     ebind (fee_covers (referrer_buyer_fee given) (referrer_buyer_fee reference_fee)) (\<lambda>_.
     ebind (fee_covers (referrer_seller_fee given) (referrer_seller_fee reference_fee)) (\<lambda>_.
     ebind (fee_covers (publisher_fee given) (publisher_fee reference_fee)) (\<lambda>_.
     Inr True)))))"

definition fee_amount :: "asset option \<Rightarrow> share_type" where
  "fee_amount f = (case f of None \<Rightarrow> 0 | Some a \<Rightarrow> amount a)"

definition ob_fee_sum :: "fc_lib \<Rightarrow> omnibazaar_fee_type \<Rightarrow> share_type result" where
  "ob_fee_sum F f =
     ebind (safe_add F (fee_amount (omnibazaar_fee f)) (fee_amount (escrow_fee f))) (\<lambda>s1.
     ebind (safe_add F s1 (fee_amount (referrer_buyer_fee f))) (\<lambda>s2.
     ebind (safe_add F s2 (fee_amount (referrer_seller_fee f))) (\<lambda>s3.
     safe_add F s3 (fee_amount (publisher_fee f)))))"

text \<open>A fee is set only when it is positive.\<close>

definition positive_fee :: "share_type \<Rightarrow> asset_id_t \<Rightarrow> asset option" where
  "positive_fee x aid = (if 0 < x then Some \<lparr>amount = x, asset_id = aid\<rparr> else None)"

definition set_sale_fees ::
  "fc_lib \<Rightarrow> database \<Rightarrow> listing_object \<Rightarrow> asset \<Rightarrow> account_id \<Rightarrow> account_id
    \<Rightarrow> omnibazaar_fee_type \<Rightarrow> omnibazaar_fee_type result" where
  "set_sale_fees F d listing amt buyer seller fees =
     ebind (cut_fee F (amount amt) (lst_priority_fee listing)) (\<lambda>ob.
     ebind (get_account d seller) (\<lambda>s.
     let fees1 = fees\<lparr>omnibazaar_fee := positive_fee ob (asset_id amt),
                      referrer_buyer_fee := None, referrer_seller_fee := None\<rparr> in
     if is_referrer s then
       ebind (get_account d buyer) (\<lambda>b.
       ebind (get_account d (referrer b)) (\<lambda>rb.
       ebind (if is_referrer rb
              then emap (\<lambda>x. positive_fee x (asset_id amt)) (cut_fee F (amount amt) (GRAPHENE_1_PERCENT div 4))
              else Inr None) (\<lambda>buyer_fee.
       ebind (get_account d (referrer s)) (\<lambda>rs.
       ebind (if is_referrer rs
              then emap (\<lambda>x. positive_fee x (asset_id amt)) (cut_fee F (amount amt) (GRAPHENE_1_PERCENT div 4))
              else Inr None) (\<lambda>seller_fee.
       Inr (fees1\<lparr>referrer_buyer_fee := buyer_fee, referrer_seller_fee := seller_fee\<rparr>))))))
     else Inr fees1))"

text \<open>The bounds of OM-749 on a publisher fee.\<close>

definition clamp_publisher_fee :: "chain_parameters \<Rightarrow> share_type \<Rightarrow> share_type" where
  "clamp_publisher_fee p fee =
     (let fee1 = (case publisher_fee_min p of None \<Rightarrow> fee | Some m \<Rightarrow> max fee m)
      in case publisher_fee_max p of None \<Rightarrow> fee1 | Some m \<Rightarrow> min fee1 m)"

subsection \<open>Specification\<close>

definition covers :: "asset option \<Rightarrow> asset option \<Rightarrow> bool" where
  "covers given required =
     (case required of None \<Rightarrow> True
      | Some r \<Rightarrow> (case given of None \<Rightarrow> False | Some g \<Rightarrow> asset_id g = asset_id r \<and> amount r \<le> amount g))"

definition fee_fields :: "omnibazaar_fee_type \<Rightarrow> asset option list" where
  "fee_fields f = [omnibazaar_fee f, escrow_fee f, referrer_buyer_fee f, referrer_seller_fee f, publisher_fee f]"

section \<open>Lemmas\<close>

lemma fee_covers_eq_Inr [simp, result_simps]: "fee_covers g r = Inr u \<longleftrightarrow> covers g r"
  by (auto simp: fee_covers_def covers_def split: option.splits)

lemma is_enough_eq_Inr [simp, result_simps]:
  "is_enough g r = Inr b \<longleftrightarrow> b \<and> list_all2 covers (fee_fields g) (fee_fields r)"
  by (auto simp: is_enough_def fee_fields_def)

context fc_laws
begin

lemma ob_fee_sum_eq_Inr:
  "ob_fee_sum F f = Inr s \<Longrightarrow> s = sum_list (map fee_amount (fee_fields f))"
  by (auto simp: ob_fee_sum_def fee_fields_def safe_add)

lemma set_sale_fees_cases:
  assumes "set_sale_fees F d l amt buyer seller fees = Inr f"
  obtains ob b s where "cut_fee F (amount amt) (lst_priority_fee l) = Inr ob"
    and "f = fees\<lparr>omnibazaar_fee := positive_fee ob (asset_id amt), referrer_buyer_fee := b, referrer_seller_fee := s\<rparr>"
    and "b = None \<or> (\<exists>x. cut_fee F (amount amt) (GRAPHENE_1_PERCENT div 4) = Inr x \<and> b = positive_fee x (asset_id amt))"
    and "s = None \<or> (\<exists>x. cut_fee F (amount amt) (GRAPHENE_1_PERCENT div 4) = Inr x \<and> s = positive_fee x (asset_id amt))"
proof -
  have opt: "o' = None \<or> (\<exists>x. c = Inr x \<and> o' = positive_fee x aid)"
    if "(if t then emap (\<lambda>x. positive_fee x aid) c else Inr None) = Inr o'" for t o' c aid
    using that by (auto split: if_splits)
  from assms obtain ob where ob: "cut_fee F (amount amt) (lst_priority_fee l) = Inr ob"
    by (auto simp: set_sale_fees_def)
  show ?thesis
  proof (cases "\<exists>s. get_account d seller = Inr s \<and> is_referrer s")
    case True
    with assms ob that show ?thesis by (clarsimp simp: set_sale_fees_def Let_def) (blast dest: opt)
  next
    case False
    with assms ob have "f = fees\<lparr>omnibazaar_fee := positive_fee ob (asset_id amt), referrer_buyer_fee := None, referrer_seller_fee := None\<rparr>"
      by (auto simp: set_sale_fees_def Let_def split: if_splits)
    with ob that show ?thesis by blast
  qed
qed

text \<open>The fees of a sale are the exact shares.\<close>

lemma set_sale_fees_exact:
  assumes run: "set_sale_fees F d l amt buyer seller fees = Inr f"
    and amt: "0 \<le> amount amt" "in_int64 (amount amt)" and prio: "lst_priority_fee l \<le> GRAPHENE_100_PERCENT"
  shows "fee_amount (omnibazaar_fee f) = amount amt * int (lst_priority_fee l) div 10000 \<and>
    fee_amount (referrer_buyer_fee f) \<in> {0, amount amt * 25 div 10000} \<and>
    fee_amount (referrer_seller_fee f) \<in> {0, amount amt * 25 div 10000} \<and>
    escrow_fee f = escrow_fee fees \<and> publisher_fee f = publisher_fee fees"
proof -
  from run obtain ob b s where ob: "cut_fee F (amount amt) (lst_priority_fee l) = Inr ob"
    and f: "f = fees\<lparr>omnibazaar_fee := positive_fee ob (asset_id amt), referrer_buyer_fee := b, referrer_seller_fee := s\<rparr>"
    and b: "b = None \<or> (\<exists>x. cut_fee F (amount amt) (GRAPHENE_1_PERCENT div 4) = Inr x \<and> b = positive_fee x (asset_id amt))"
    and s: "s = None \<or> (\<exists>x. cut_fee F (amount amt) (GRAPHENE_1_PERCENT div 4) = Inr x \<and> s = positive_fee x (asset_id amt))"
    by (rule set_sale_fees_cases)
  have q: "cut_fee F (amount amt) (GRAPHENE_1_PERCENT div 4) = Inr (amount amt * 25 div 10000)"
    using cut_fee_exact [OF amt, of 25] by (simp add: GRAPHENE_1_PERCENT_def GRAPHENE_100_PERCENT_def)
  have r: "0 \<le> amount amt * 25 div 10000" "0 \<le> amount amt * int (lst_priority_fee l) div 10000"
    using cut_fee_range [OF amt(1), of "lst_priority_fee l"] cut_fee_range [OF amt(1), of 25] prio
    by (simp_all add: GRAPHENE_100_PERCENT_def)
  have pf: "fee_amount (positive_fee z aid) = z" if "0 \<le> z" for z aid
    using that by (simp add: fee_amount_def positive_fee_def)
  have "ob = amount amt * int (lst_priority_fee l) div 10000" using ob cut_fee_exact [OF amt prio] by simp
  then have "fee_amount (positive_fee ob (asset_id amt)) = amount amt * int (lst_priority_fee l) div 10000"
    using r(2) by (simp only: pf)
  moreover have "fee_amount x \<in> {0, amount amt * 25 div 10000}"
    if "x = None \<or> (\<exists>z. cut_fee F (amount amt) (GRAPHENE_1_PERCENT div 4) = Inr z \<and> x = positive_fee z (asset_id amt))" for x
  proof (cases x)
    case None
    then show ?thesis by (simp add: fee_amount_def)
  next
    case (Some y)
    with that have "x = positive_fee (amount amt * 25 div 10000) (asset_id amt)" by (auto simp: q)
    then show ?thesis using pf [OF r(1)] by blast
  qed
  note this [OF b] this [OF s]
  ultimately show ?thesis by (simp add: f)
qed

end

lemma clamp_publisher_fee_bounds:
  assumes "publisher_fee_min p = Some lo" and "publisher_fee_max p = Some hi" and "lo \<le> hi"
  shows "lo \<le> clamp_publisher_fee p fee \<and> clamp_publisher_fee p fee \<le> hi"
  using assms by (simp add: clamp_publisher_fee_def)

end
