(* ===== verification/Evaluator.thy ===== *)
theory Evaluator
  imports Balances
begin

text \<open>
  The frame every operation runs in: \<^verbatim>\<open>evaluator.cpp\<close> and the template
  \<^verbatim>\<open>evaluator<DerivedEvaluator>\<close> of \<^verbatim>\<open>evaluator.hpp\<close> (fee preparation and conversion,
  the fee check, \<^verbatim>\<open>do_evaluate\<close>, fee payment, \<^verbatim>\<open>do_apply\<close>, the debit of the fee), with
  the white and black lists of \<^verbatim>\<open>is_authorized_asset\<close>. The two member functions a concrete
  evaluator supplies are arguments; the locale \<open>conserving_operation\<close> is what its \<^verbatim>\<open>do_apply\<close>
  promises and what then holds of the whole operation.
\<close>

definition HARDFORK_415_TIME :: time_sec where
  "HARDFORK_415_TIME = 1446652800"

definition HARDFORK_419_TIME :: time_sec where
  "HARDFORK_419_TIME = 1446652800"

record evaluation_state =
  skip_fee :: bool
  skip_fee_schedule_check :: bool

record fee_context =
  fee_from_account :: asset
  fee_statistics_id :: nat
  fee_asset_dyn_id :: nat
  core_fee_paid :: share_type

definition is_authorized_asset_slow ::
  "database \<Rightarrow> account_object \<Rightarrow> asset_id_t \<Rightarrow> asset_object \<Rightarrow> bool" where
  "is_authorized_asset_slow d acct aid asset_obj =
     (if (case allowed_assets acct of None \<Rightarrow> False | Some l \<Rightarrow> aid \<notin> set l) then False
      else if \<exists>i\<in>set (blacklisting_accounts acct). i \<in> set (blacklist_authorities asset_obj) then False
      else if HARDFORK_415_TIME < head_block_time d \<and> whitelist_authorities asset_obj = [] then True
      else \<exists>i\<in>set (whitelisting_accounts acct). i \<in> set (whitelist_authorities asset_obj))"

definition is_authorized_asset ::
  "database \<Rightarrow> account_object \<Rightarrow> asset_id_t \<Rightarrow> asset_object \<Rightarrow> bool" where
  "is_authorized_asset d acct aid asset_obj =
     (if \<not> white_list_flag asset_obj \<and> allowed_assets acct = None then True
      else is_authorized_asset_slow d acct aid asset_obj)"

definition prepare_fee :: "fc_lib \<Rightarrow> database \<Rightarrow> account_id \<Rightarrow> asset \<Rightarrow> fee_context result" where
  "prepare_fee F d acct fee =
     ebind (fc_assert (0 \<le> amount fee) ''fee.amount >= 0'') (\<lambda>_.
     ebind (get_account d acct) (\<lambda>acc.
     ebind (tbl_get (statistics d) (acc_statistics acc)) (\<lambda>_.
     ebind (get_asset d (asset_id fee)) (\<lambda>fa.
     ebind (tbl_get (asset_dyn d) (dynamic_asset_data_id fa)) (\<lambda>dyn.
     ebind (fc_assert (HARDFORK_419_TIME < head_block_time d \<longrightarrow> is_authorized_asset d acc (asset_id fee) fa)
              ''unauthorized due to whitelist / blacklist'') (\<lambda>_.
     ebind (if asset_id fee = 0 then Inr (amount fee)
            else ebind (asset_mul_price F fee (core_exchange_rate fa)) (\<lambda>from_pool.
                 ebind (fc_assert (asset_id from_pool = 0) ''fee_from_pool.asset_id == asset_id_type()'') (\<lambda>_.
                 ebind (fc_assert (amount from_pool \<le> fee_pool dyn) ''Fee pool balance'') (\<lambda>_.
                 Inr (amount from_pool))))) (\<lambda>core.
     Inr \<lparr>fee_from_account = fee, fee_statistics_id = acc_statistics acc,
           fee_asset_dyn_id = dynamic_asset_data_id fa, core_fee_paid = core\<rparr>)))))))"

definition convert_fee :: "fc_lib \<Rightarrow> evaluation_state \<Rightarrow> fee_context \<Rightarrow> database \<Rightarrow> database result" where
  "convert_fee F st fc d =
     (if \<not> skip_fee st \<and> asset_id (fee_from_account fc) \<noteq> 0 then
        ebind (tbl_get (asset_dyn d) (fee_asset_dyn_id fc)) (\<lambda>dyn.
        ebind (safe_add F (accumulated_fees dyn) (amount (fee_from_account fc))) (\<lambda>acc_fees.
        ebind (safe_sub F (fee_pool dyn) (core_fee_paid fc)) (\<lambda>pool.
        modify_asset_dyn d (fee_asset_dyn_id fc)
          (\<lambda>x. x\<lparr>accumulated_fees := acc_fees, fee_pool := pool\<rparr>))))
      else Inr d)"

definition pay_fee :: "fc_lib \<Rightarrow> evaluation_state \<Rightarrow> fee_context \<Rightarrow> database \<Rightarrow> database result" where
  "pay_fee F st fc d =
     (if \<not> skip_fee st then
        ebind (tbl_get (statistics d) (fee_statistics_id fc)) (\<lambda>s.
        ebind (stat_pay_fee F (core_fee_paid fc) (cashback_vesting_threshold (parameters d)) s) (\<lambda>s'.
        modify_statistics d (fee_statistics_id fc) (\<lambda>_. s')))
      else Inr d)"

definition evaluate ::
  "fc_lib \<Rightarrow> evaluation_state \<Rightarrow> account_id \<Rightarrow> asset \<Rightarrow> operation_tag
    \<Rightarrow> (fee_parameters \<Rightarrow> share_type result) \<Rightarrow> (database \<Rightarrow> unit result) \<Rightarrow> database
    \<Rightarrow> fee_context result" where
  "evaluate F st fee_payer fee tag op_fee do_evaluate d =
     ebind (prepare_fee F d fee_payer fee) (\<lambda>fc.
     ebind (if \<not> skip_fee_schedule_check st
            then ebind (required_fee F (current_fees (parameters d)) tag op_fee) (\<lambda>req.
                 fc_assert (req \<le> core_fee_paid fc) ''Insufficient Fee Paid'')
            else Inr ()) (\<lambda>_.
     ebind (do_evaluate d) (\<lambda>_.
     Inr fc)))"

definition apply_op ::
  "fc_lib \<Rightarrow> evaluation_state \<Rightarrow> account_id \<Rightarrow> fee_context \<Rightarrow> (database \<Rightarrow> ('r \<times> database) result)
    \<Rightarrow> database \<Rightarrow> ('r \<times> database) result" where
  "apply_op F st fee_payer fc do_apply d =
     ebind (convert_fee F st fc d) (\<lambda>d1.
     ebind (pay_fee F st fc d1) (\<lambda>d2.
     ebind (do_apply d2) (\<lambda>(r, d3).
     ebind (asset_neg F (fee_from_account fc)) (\<lambda>debit.
     ebind (adjust_balance F d3 fee_payer debit) (\<lambda>d4.
     Inr (r, d4))))))"

text \<open>\<^verbatim>\<open>start_evaluate\<close> with \<^verbatim>\<open>apply = true\<close>.\<close>

definition start_evaluate ::
  "fc_lib \<Rightarrow> evaluation_state \<Rightarrow> account_id \<Rightarrow> asset \<Rightarrow> operation_tag
    \<Rightarrow> (fee_parameters \<Rightarrow> share_type result) \<Rightarrow> (database \<Rightarrow> unit result)
    \<Rightarrow> (database \<Rightarrow> ('r \<times> database) result) \<Rightarrow> database \<Rightarrow> ('r \<times> database) result" where
  "start_evaluate F st fee_payer fee tag op_fee do_evaluate do_apply d =
     ebind (evaluate F st fee_payer fee tag op_fee do_evaluate d) (\<lambda>fc.
     apply_op F st fee_payer fc do_apply d)"

subsection \<open>What an operation promises\<close>

definition default_state :: evaluation_state where
  "default_state = \<lparr>skip_fee = False, skip_fee_schedule_check = False\<rparr>"

text \<open>
  An operation conserves when its \<^verbatim>\<open>do_apply\<close>, after an accepted \<^verbatim>\<open>do_evaluate\<close> on a
  state that differs only by the fee already booked, keeps every gap. \<open>state_ok\<close> is what the operation
  needs of the state it starts from.
\<close>

definition fee_booked :: "database \<Rightarrow> database \<Rightarrow> bool" where
  "fee_booked d d2 \<longleftrightarrow>
     (\<exists>dyn st. d2 = d\<lparr>asset_dyn := dyn, statistics := st\<rparr>) \<and> assets_ok d2"

locale conserving_operation =
  fixes state_ok :: "database \<Rightarrow> bool"
    and do_evaluate :: "database \<Rightarrow> unit result"
    and do_apply :: "database \<Rightarrow> ('r \<times> database) result"
  assumes apply_conserves:
    "state_ok d \<Longrightarrow> do_evaluate d = Inr u \<Longrightarrow> fee_booked d d2 \<Longrightarrow> do_apply d2 = Inr (r, d3) \<Longrightarrow>
     (\<forall>a. asset_gap a d3 = asset_gap a d2)"

section \<open>Lemmas\<close>

lemma stat_pay_fee_pending:
  "fc_laws F \<Longrightarrow> stat_pay_fee F c th s = Inr s' \<Longrightarrow>
   pending_fees s' + pending_vested_fees s' = pending_fees s + pending_vested_fees s + c"
  by (auto simp: stat_pay_fee_def fc_laws.safe_add split: if_splits)

context fc_laws
begin

text \<open>Booking the fee moves its core value from the pool, or nothing, to the pending fees, and the
  fee itself to the accumulated fees of its asset when that is not the core asset.\<close>

lemma convert_fee_gap:
  assumes "prepare_fee F d acct fee = Inr fc" and "convert_fee F default_state fc d = Inr d1"
    and "assets_ok d"
  shows "asset_gap a d1 = asset_gap a d - (if asset_id fee \<noteq> 0 \<and> a = asset_id fee then amount fee else 0)
      + (if asset_id fee \<noteq> 0 \<and> a = 0 then core_fee_paid fc else 0)
    \<and> (\<exists>dyn. d1 = d\<lparr>asset_dyn := dyn\<rparr>)"
proof (cases "asset_id fee = 0")
  case True
  with assms(1,2) show ?thesis
    by (auto simp: prepare_fee_def convert_fee_def intro: exI [of _ "asset_dyn d"])
next
  case False
  obtain fa dyn where fa: "tbl_find (assets d) (asset_id fee) = Some fa" "fee_asset_dyn_id fc = dynamic_asset_data_id fa"
    and dyn: "tbl_find (asset_dyn d) (dynamic_asset_data_id fa) = Some dyn" and fee: "fee_from_account fc = fee"
    using assms(1) by (auto simp: prepare_fee_def get_asset_def)
  from assms(2) False fa dyn fee
  have m: "modify_asset_dyn d (dynamic_asset_data_id fa) (\<lambda>x. x\<lparr>accumulated_fees := accumulated_fees dyn + amount fee,
      fee_pool := fee_pool dyn - core_fee_paid fc\<rparr>) = Inr d1"
    by (auto simp: convert_fee_def default_state_def safe_add safe_sub)
  have "\<exists>dyn. d1 = d\<lparr>asset_dyn := dyn\<rparr>" using m by (auto simp: modify_asset_dyn_def)
  with modify_dyn_gap [OF assms(3) fa(1) dyn m, of a] False show ?thesis by auto
qed

lemma pay_fee_gap:
  assumes "pay_fee F default_state fc d = Inr d1"
  shows "asset_gap a d1 = asset_gap a d - (if a = 0 then core_fee_paid fc else 0)
    \<and> (\<exists>st. d1 = d\<lparr>statistics := st\<rparr>)"
proof -
  from assms obtain s s' where s: "tbl_find (statistics d) (fee_statistics_id fc) = Some s"
    and s': "stat_pay_fee F (core_fee_paid fc) (cashback_vesting_threshold (parameters d)) s = Inr s'"
    and m: "modify_statistics d (fee_statistics_id fc) (\<lambda>_. s') = Inr d1"
    by (auto simp: pay_fee_def default_state_def)
  have "\<exists>st. d1 = d\<lparr>statistics := st\<rparr>" using m by (auto simp: modify_statistics_def)
  with modify_statistics_gap [OF m s, of a] stat_pay_fee_pending [OF fc_laws_axioms s'] show ?thesis
    by simp
qed

text \<open>The whole operation conserves when its \<^verbatim>\<open>do_apply\<close> does.\<close>

lemma start_evaluate_conserves:
  assumes op: "conserving_operation state_ok do_evaluate do_apply"
    and run: "start_evaluate F default_state payer fee tag op_fee do_evaluate do_apply d = Inr (r, d')"
    and ok: "assets_ok d" and st: "state_ok d"
  shows "asset_gap a d' = asset_gap a d"
proof -
  from run obtain fc d1 d2 d3 debit u where fc: "prepare_fee F d payer fee = Inr fc" and u: "do_evaluate d = Inr u"
    and d1: "convert_fee F default_state fc d = Inr d1" and d2: "pay_fee F default_state fc d1 = Inr d2"
    and d3: "do_apply d2 = Inr (r, d3)" and debit: "asset_neg F (fee_from_account fc) = Inr debit"
    and d': "adjust_balance F d3 payer debit = Inr d'"
    by (auto simp: start_evaluate_def evaluate_def apply_op_def)
  have fee: "fee_from_account fc = fee" "asset_id fee = 0 \<Longrightarrow> core_fee_paid fc = amount fee"
    using fc by (auto simp: prepare_fee_def)
  note g1 = convert_fee_gap [OF fc d1 ok, of a] and g2 = pay_fee_gap [OF d2, of a]
  have "fee_booked d d2"
    using g1 g2 ok by (auto simp: fee_booked_def cong: assets_ok_cong intro!: exI elim: assets_ok_cong [THEN iffD2, rotated])
  then have "asset_gap a d3 = asset_gap a d2"
    using conserving_operation.apply_conserves [OF op st u _ d3] by blast
  with g1 g2 adjust_balance_gap [OF d', of a] debit fee show ?thesis
    by (auto simp: of_asset_def split: if_splits)
qed

end

end
