(* ===== verification/Listing.thy ===== *)
theory Listing
  imports Ob_Fees Evaluator
begin

text \<open>
  Marketplace listings: \<^verbatim>\<open>listing.cpp\<close> (validation and fees of the four operations) and
  \<^verbatim>\<open>listing_evaluator.cpp\<close> (what they check and what they do). A seller publishes a listing
  at a publisher, who is paid a fee and counts the listings he hosts.
\<close>

definition HARDFORK_OM_749_TIME :: time_sec where
  "HARDFORK_OM_749_TIME = 1558310400"

definition HARDFORK_OM_774_TIME :: time_sec where
  "HARDFORK_OM_774_TIME = 1558310400"

subsection \<open>Operations\<close>

record listing_create_operation =
  lc_fee :: asset
  lc_ob_fee :: omnibazaar_fee_type
  lc_seller :: account_id
  lc_publisher :: account_id
  lc_price :: asset
  lc_listing_hash :: string
  lc_quantity :: "32 word"
  lc_priority_fee :: nat

record listing_update_operation =
  lu_fee :: asset
  lu_ob_fee :: omnibazaar_fee_type
  lu_seller :: account_id
  lu_listing_id :: nat
  lu_publisher :: "account_id option"
  lu_price :: "asset option"
  lu_listing_hash :: "string option"
  lu_quantity :: "32 word option"
  lu_update_expiration_time :: bool
  lu_priority_fee :: "nat option"

record listing_delete_operation =
  ld_fee :: asset
  ld_seller :: account_id
  ld_listing_id :: nat

record listing_report_operation =
  lr_fee :: asset
  lr_reporting_account :: account_id
  lr_listing_id :: nat

subsection \<open>Validation and fees\<close>

definition listing_create_validate :: "listing_create_operation \<Rightarrow> unit result" where
  "listing_create_validate op =
     ebind (fc_assert (0 < amount (lc_fee op)) ''fee.amount > 0'') (\<lambda>_.
     ebind (fc_assert (0 < amount (lc_price op)) ''price.amount > 0'') (\<lambda>_.
     fc_assert (asset_id (lc_price op) = 0) ''Listings support only core currency.''))"

definition listing_create_ob_fee ::
  "fc_lib \<Rightarrow> database \<Rightarrow> listing_create_operation \<Rightarrow> omnibazaar_fee_type result" where
  "listing_create_ob_fee F d op =
     (if lc_seller op \<noteq> lc_publisher op then
        ebind (get_account d (lc_publisher op)) (\<lambda>pub.
        ebind (cut_fee F (amount (lc_price op)) (acc_publisher_fee pub)) (\<lambda>cut.
        let fee = clamp_publisher_fee (parameters d) cut in
        Inr (no_ob_fee\<lparr>publisher_fee := positive_fee fee (asset_id (lc_price op))\<rparr>)))
      else Inr no_ob_fee)"

definition listing_update_validate :: "listing_update_operation \<Rightarrow> unit result" where
  "listing_update_validate op =
     ebind (fc_assert (0 < amount (lu_fee op)) ''fee.amount > 0'') (\<lambda>_.
     ebind (case lu_price op of
              None \<Rightarrow> Inr ()
            | Some p \<Rightarrow> fc_assert (asset_id p = 0) ''Listings support only core currency.'') (\<lambda>_.
     fc_assert (lu_publisher op \<noteq> None \<or> lu_price op \<noteq> None \<or> lu_listing_hash op \<noteq> None \<or>
        lu_quantity op \<noteq> None \<or> lu_update_expiration_time op \<or> lu_priority_fee op \<noteq> None) ''has_action''))"

definition listing_update_ob_fee ::
  "fc_lib \<Rightarrow> database \<Rightarrow> listing_update_operation \<Rightarrow> omnibazaar_fee_type result" where
  "listing_update_ob_fee F d op =
     ebind (case lu_publisher op of
              Some p \<Rightarrow> Inr p
            | None \<Rightarrow> emap lst_publisher (get_listing d (lu_listing_id op))) (\<lambda>final_publisher.
     if final_publisher = lu_seller op then Inr no_ob_fee
     else if lu_publisher op \<noteq> None \<or>
          head_block_time d < HARDFORK_OM_774_TIME \<and> lu_update_expiration_time op then
       ebind (case lu_price op of
                Some p \<Rightarrow> Inr p
              | None \<Rightarrow> emap lst_price (get_listing d (lu_listing_id op))) (\<lambda>final_price.
       ebind (get_account d final_publisher) (\<lambda>pub.
       ebind (cut_fee F (amount final_price) (acc_publisher_fee pub)) (\<lambda>cut.
       let fee = clamp_publisher_fee (parameters d) cut in
       Inr (no_ob_fee\<lparr>publisher_fee := positive_fee fee (asset_id final_price)\<rparr>))))
     else Inr no_ob_fee)"

definition listing_delete_validate :: "listing_delete_operation \<Rightarrow> unit result" where
  "listing_delete_validate op = fc_assert (0 \<le> amount (ld_fee op)) ''fee.amount >= 0''"

definition listing_report_validate :: "listing_report_operation \<Rightarrow> unit result" where
  "listing_report_validate op = fc_assert (0 \<le> amount (lr_fee op)) ''fee.amount >= 0''"

subsection \<open>Create\<close>

definition hash_exists :: "database \<Rightarrow> string \<Rightarrow> bool" where
  "hash_exists d h = (\<not> fmpred (\<lambda>_ l. lst_hash l \<noteq> h) (objs (listings d)))"

text \<open>The fees a listing operation may not carry.\<close>

definition only_publisher_fee :: "omnibazaar_fee_type \<Rightarrow> unit result" where
  "only_publisher_fee f =
     ebind (fc_assert (escrow_fee f = None) ''Listing does not require escrow fee.'') (\<lambda>_.
     ebind (fc_assert (omnibazaar_fee f = None) ''Listing does not require OmniBazaar fee.'') (\<lambda>_.
     ebind (fc_assert (referrer_buyer_fee f = None) ''Listing does not require buyer referrer fee.'') (\<lambda>_.
     fc_assert (referrer_seller_fee f = None) ''Listing does not require seller referrer fee.'')))"

definition listing_create_evaluate ::
  "fc_lib \<Rightarrow> listing_create_operation \<Rightarrow> database \<Rightarrow> unit result" where
  "listing_create_evaluate F op d =
     ebind (get_account d (lc_publisher op)) (\<lambda>pub.
     ebind (fc_assert (is_a_publisher pub) ''Specified account is not a publisher.'') (\<lambda>_.
     ebind (fc_assert (\<not> hash_exists d (lc_listing_hash op)) ''Listing hash already exists.'') (\<lambda>_.
     ebind (listing_create_ob_fee F d op) (\<lambda>required.
     ebind (is_enough (lc_ob_fee op) required) (\<lambda>_.
     ebind (only_publisher_fee (lc_ob_fee op)) (\<lambda>_.
     ebind (if head_block_time d < HARDFORK_OM_749_TIME
            then ebind (ob_fee_sum F (lc_ob_fee op)) (\<lambda>s.
                 fc_assert (s \<le> amount (lc_price op)) ''Fees are larger than listing price.'')
            else Inr ()) (\<lambda>_.
     ebind (case publisher_fee (lc_ob_fee op) of
              None \<Rightarrow> Inr ()
            | Some pf \<Rightarrow>
                ebind (safe_add F (amount pf) (amount (lc_fee op))) (\<lambda>need.
                fc_assert (need \<le> amount (get_balance d (lc_seller op) (asset_id (lc_price op))))
                  ''Insufficient funds to pay fee to publisher.'')) (\<lambda>_.
     fc_assert (lc_priority_fee op \<le> maximum_listing_priority_fee (parameters d))
       ''Invalid priority fee value.''))))))))"

definition inc_listings :: "account_object \<Rightarrow> account_object" where
  "inc_listings a = a\<lparr>listings_count := listings_count a + 1\<rparr>"

definition dec_listings :: "account_object \<Rightarrow> account_object" where
  "dec_listings a = (if 0 < listings_count a then a\<lparr>listings_count := listings_count a - 1\<rparr> else a)"

text \<open>Debit the seller and deposit the fee with the publisher.\<close>

definition pay_publisher ::
  "fc_lib \<Rightarrow> account_id \<Rightarrow> account_id \<Rightarrow> asset option \<Rightarrow> database \<Rightarrow> database result" where
  "pay_publisher F seller publisher fee d =
     (case fee of
        None \<Rightarrow> Inr d
      | Some pf \<Rightarrow>
          ebind (asset_neg F pf) (\<lambda>debit.
          ebind (adjust_balance F d seller debit) (\<lambda>d1.
          emap snd (deposit_fee F d1 publisher fee Publisher_fee_type))))"

definition new_listing :: "fc_lib \<Rightarrow> database \<Rightarrow> account_object \<Rightarrow> listing_create_operation \<Rightarrow> listing_object" where
  "new_listing F d seller_acc op = \<lparr>
     lst_seller = lc_seller op, lst_publisher = lc_publisher op, lst_price = lc_price op,
     lst_hash = lc_listing_hash op, lst_quantity = lc_quantity op,
     lst_expiration_time = tps_add F (head_block_time d) (maximum_listing_lifetime (parameters d)),
     seller_score = pop_score seller_acc, reported_score = 0, reported_accounts = {},
     lst_priority_fee = lc_priority_fee op,
     created_at = head_block_time d, updated_at = head_block_time d\<rparr>"

definition listing_create_apply ::
  "fc_lib \<Rightarrow> listing_create_operation \<Rightarrow> database \<Rightarrow> (nat \<times> database) result" where
  "listing_create_apply F op d =
     ebind (get_account d (lc_seller op)) (\<lambda>seller_acc.
     ebind (tbl_create listing_clash (listings d) (new_listing F d seller_acc op)) (\<lambda>(i, t).
     ebind (pay_publisher F (lc_seller op) (lc_publisher op) (publisher_fee (lc_ob_fee op))
              (d\<lparr>listings := t\<rparr>)) (\<lambda>d1.
     ebind (modify_account d1 (lc_publisher op) inc_listings) (\<lambda>d2.
     Inr (i, d2)))))"

subsection \<open>Update\<close>

definition listing_update_evaluate ::
  "fc_lib \<Rightarrow> listing_update_operation \<Rightarrow> database \<Rightarrow> unit result" where
  "listing_update_evaluate F op d =
     ebind (get_listing d (lu_listing_id op)) (\<lambda>listing.
     ebind (fc_assert (lu_seller op = lst_seller listing) ''Invalid seller account.'') (\<lambda>_.
     ebind (case lu_publisher op of
              None \<Rightarrow> Inr ()
            | Some p \<Rightarrow>
                ebind (get_account d p) (\<lambda>pub.
                fc_assert (is_a_publisher pub) ''Specified account is not a publisher.'')) (\<lambda>_.
     ebind (case lu_listing_hash op of
              None \<Rightarrow> Inr ()
            | Some h \<Rightarrow> fc_assert (\<not> hash_exists d h) ''Listing already exists.'') (\<lambda>_.
     ebind (listing_update_ob_fee F d op) (\<lambda>required.
     ebind (is_enough (lu_ob_fee op) required) (\<lambda>_.
     ebind (only_publisher_fee (lu_ob_fee op)) (\<lambda>_.
     ebind (if head_block_time d < HARDFORK_OM_749_TIME
            then ebind (ob_fee_sum F (lu_ob_fee op)) (\<lambda>s.
                 fc_assert (s \<le> amount (case lu_price op of Some p \<Rightarrow> p | None \<Rightarrow> lst_price listing))
                   ''Fees are larger than listing price.'')
            else Inr ()) (\<lambda>_.
     ebind (case publisher_fee (lu_ob_fee op) of
              None \<Rightarrow> Inr ()
            | Some pf \<Rightarrow>
                ebind (safe_add F (amount pf) (amount (lu_fee op))) (\<lambda>need.
                fc_assert (need \<le> amount (get_balance d (lu_seller op) (asset_id pf)))
                  ''Insufficient funds to pay fee to publisher.'')) (\<lambda>_.
     case lu_priority_fee op of
       None \<Rightarrow> Inr ()
     | Some p \<Rightarrow> fc_assert (p \<le> maximum_listing_priority_fee (parameters d))
                  ''Invalid priority fee value.'')))))))))"

definition update_listing ::
  "fc_lib \<Rightarrow> database \<Rightarrow> listing_update_operation \<Rightarrow> listing_object \<Rightarrow> listing_object" where
  "update_listing F d op l = l\<lparr>
     lst_hash := (case lu_listing_hash op of Some h \<Rightarrow> h | None \<Rightarrow> lst_hash l),
     lst_price := (case lu_price op of Some p \<Rightarrow> p | None \<Rightarrow> lst_price l),
     lst_publisher := (case lu_publisher op of Some p \<Rightarrow> p | None \<Rightarrow> lst_publisher l),
     lst_quantity := (case lu_quantity op of Some q \<Rightarrow> q | None \<Rightarrow> lst_quantity l),
     lst_expiration_time :=
       (if lu_update_expiration_time op
        then tps_add F (head_block_time d) (maximum_listing_lifetime (parameters d))
        else lst_expiration_time l),
     lst_priority_fee := (case lu_priority_fee op of Some p \<Rightarrow> p | None \<Rightarrow> lst_priority_fee l),
     updated_at := head_block_time d\<rparr>"

definition listing_update_apply ::
  "fc_lib \<Rightarrow> listing_update_operation \<Rightarrow> database \<Rightarrow> (unit \<times> database) result" where
  "listing_update_apply F op d =
     ebind (case lu_publisher op of
              None \<Rightarrow> Inr d
            | Some p \<Rightarrow>
                ebind (get_listing d (lu_listing_id op)) (\<lambda>l.
                ebind (modify_account d (lst_publisher l) dec_listings) (\<lambda>d1.
                modify_account d1 p inc_listings))) (\<lambda>d2.
     ebind (modify_listing d2 (lu_listing_id op) (update_listing F d2 op)) (\<lambda>d3.
     ebind (case publisher_fee (lu_ob_fee op) of
              None \<Rightarrow> Inr d3
            | Some _ \<Rightarrow>
                ebind (get_listing d3 (lu_listing_id op)) (\<lambda>l.
                pay_publisher F (lst_seller l) (lst_publisher l) (publisher_fee (lu_ob_fee op)) d3)) (\<lambda>d4.
     Inr ((), d4))))"

subsection \<open>Delete\<close>

definition listing_delete_evaluate :: "listing_delete_operation \<Rightarrow> database \<Rightarrow> unit result" where
  "listing_delete_evaluate op d =
     ebind (get_listing d (ld_listing_id op)) (\<lambda>listing.
     fc_assert (ld_seller op = lst_seller listing) ''Invalid seller account.'')"

definition remove_listing :: "nat \<Rightarrow> database \<Rightarrow> database" where
  "remove_listing i d = d\<lparr>listings := tbl_remove (listings d) i\<rparr>"

definition listing_delete_apply :: "listing_delete_operation \<Rightarrow> database \<Rightarrow> (unit \<times> database) result" where
  "listing_delete_apply op d =
     ebind (get_listing d (ld_listing_id op)) (\<lambda>listing.
     ebind (modify_account d (lst_publisher listing) dec_listings) (\<lambda>d1.
     Inr ((), remove_listing (ld_listing_id op) d1)))"

subsection \<open>Report\<close>

definition listing_report_evaluate :: "listing_report_operation \<Rightarrow> database \<Rightarrow> unit result" where
  "listing_report_evaluate op d =
     ebind (get_account d (lr_reporting_account op)) (\<lambda>acc.
     ebind (fc_assert (0 < pop_score acc) ''Proof of Participation score is too low.'') (\<lambda>_.
     ebind (get_listing d (lr_listing_id op)) (\<lambda>listing.
     fc_assert (lr_reporting_account op \<notin> reported_accounts listing) ''already reported listing'')))"

text \<open>The comparison that decides on a ban, on the unsigned 32-bit values of the source.\<close>

definition ban_listing :: "database \<Rightarrow> account_object \<Rightarrow> listing_object \<Rightarrow> bool" where
  "ban_listing d reporter l =
     (let future_score = reported_score l + ucast (pop_score reporter) in
      if seller_score l \<le> 0 then True
      else listing_ban_threshold (parameters d) \<le> future_score div ucast (seller_score l))"

definition listing_report_apply :: "listing_report_operation \<Rightarrow> database \<Rightarrow> (unit \<times> database) result" where
  "listing_report_apply op d =
     ebind (get_account d (lr_reporting_account op)) (\<lambda>reporter.
     ebind (get_listing d (lr_listing_id op)) (\<lambda>listing.
     if ban_listing d reporter listing then
       ebind (modify_account d (lst_publisher listing) dec_listings) (\<lambda>d1.
       Inr ((), remove_listing (lr_listing_id op) d1))
     else
       ebind (modify_listing d (lr_listing_id op)
         (\<lambda>l. l\<lparr>reported_score := reported_score l + ucast (pop_score reporter),
                reported_accounts := insert (lr_reporting_account op) (reported_accounts l)\<rparr>)) (\<lambda>d1.
       Inr ((), d1))))"

text \<open>
  A publisher fee is debited in its own asset but deposited in the core asset: in a fee of another
  asset the two do not cancel.
\<close>

definition misbooked :: "asset_id_t \<Rightarrow> asset option \<Rightarrow> int" where
  "misbooked a fee = (case fee of None \<Rightarrow> 0 | Some pf \<Rightarrow> of_asset a pf - of_asset a (core_asset (amount pf)))"

definition fee_in_core :: "omnibazaar_fee_type \<Rightarrow> bool" where
  "fee_in_core f \<longleftrightarrow> (case publisher_fee f of None \<Rightarrow> True | Some pf \<Rightarrow> asset_id pf = 0)"

subsection \<open>Steps and the invariant\<close>

text \<open>One accepted operation on listings.\<close>

inductive listing_step :: "fc_lib \<Rightarrow> database \<Rightarrow> database \<Rightarrow> bool" for F where
  create: "listing_create_evaluate F c d = Inr u \<Longrightarrow> listing_create_apply F c d = Inr (i, d') \<Longrightarrow>
     listing_step F d d'"
| update: "listing_update_evaluate F o' d = Inr u \<Longrightarrow> listing_update_apply F o' d = Inr (x, d') \<Longrightarrow>
     listing_step F d d'"
| delete: "listing_delete_evaluate x d = Inr u \<Longrightarrow> listing_delete_apply x d = Inr (y, d') \<Longrightarrow>
     listing_step F d d'"
| report: "listing_report_evaluate r d = Inr u \<Longrightarrow> listing_report_apply r d = Inr (y, d') \<Longrightarrow>
     listing_step F d d'"

definition published :: "account_id \<Rightarrow> database \<Rightarrow> int" where
  "published p d = tbl_sum (\<lambda>l. if lst_publisher l = p then 1 else 0) (listings d)"

definition count_of :: "database \<Rightarrow> account_id \<Rightarrow> 64 word option" where
  "count_of d p = map_option listings_count (tbl_find (accounts d) p)"

definition counts_ok :: "database \<Rightarrow> bool" where
  "counts_ok d \<longleftrightarrow> (\<forall>p c. count_of d p = Some c \<longrightarrow> uint c = published p d)"

definition total_ok :: "database \<Rightarrow> bool" where
  "total_ok d \<longleftrightarrow> tbl_sum (\<lambda>_. 1) (listings d) \<le> int (next_id (listings d))"

definition listings_inv :: "database \<Rightarrow> bool" where
  "listings_inv d \<longleftrightarrow> tbl_unique listing_clash (listings d) \<and> counts_ok d \<and> total_ok d"

section \<open>Lemmas\<close>

subsection \<open>Counting\<close>

lemma uint_inc: "uint c = n \<Longrightarrow> n + 1 < 2 ^ 64 \<Longrightarrow> uint (c + 1 :: 64 word) = n + 1"
  using uint_add_lem [of c 1] by simp

lemma uint_dec: "uint c = n \<Longrightarrow> 1 \<le> n \<Longrightarrow> uint (c - 1 :: 64 word) = n - 1 \<and> 0 < c"
  using uint_sub_lem [of 1 c] by (simp add: word_less_def)

lemma published_le_total: "published p d \<le> tbl_sum (\<lambda>_. 1) (listings d)"
  unfolding published_def by (rule tbl_sum_mono) simp

lemma published_ge_1: "tbl_find (listings d) i = Some l \<Longrightarrow> 1 \<le> published (lst_publisher l) d"
  using tbl_sum_member [of "listings d" i l "\<lambda>x. if lst_publisher x = lst_publisher l then 1 else 0"]
  by (simp add: published_def)

lemma count_of_modify:
  "modify_account d a f = Inr d' \<Longrightarrow>
   count_of d' p = (if p = a then map_option (\<lambda>x. listings_count (f x)) (tbl_find (accounts d) a)
                    else count_of d p)"
  by (auto simp: modify_account_def count_of_def tbl_modify_find option.map_comp comp_def)

lemma modify_account_same:
  "modify_account d a f = Inr d' \<Longrightarrow> \<exists>t. d' = d\<lparr>accounts := t\<rparr>"
  by (auto simp: modify_account_def)

lemma count_of_deposit_frame: "deposit_frame d d' \<Longrightarrow> count_of d' p = count_of d p"
proof -
  assume "deposit_frame d d'"
  then have "map_option strip_vb (tbl_find (accounts d') p) = map_option strip_vb (tbl_find (accounts d) p)"
    by (simp add: deposit_frame_def)
  from arg_cong [OF this, of "map_option listings_count"] show ?thesis
    by (simp add: option.map_comp comp_def count_of_def strip_vb_def)
qed

text \<open>What keeps the listings and the counts keeps the invariant.\<close>

lemma listings_inv_cong:
  assumes "listings d' = listings d" and "\<And>p. count_of d' p = count_of d p"
  shows "listings_inv d' = listings_inv d"
  using assms by (simp add: listings_inv_def counts_ok_def total_ok_def published_def)

text \<open>One listing added at, or taken from, a publisher.\<close>

lemma inc_counts:
  assumes "counts_ok d" and "modify_account d p inc_listings = Inr d'" and "published p d + 1 < 2 ^ 64"
    and "count_of d' q = Some c"
  shows "uint c = published q d + (if q = p then 1 else 0)"
proof (cases "q = p")
  case False
  with assms show ?thesis by (auto simp: counts_ok_def count_of_modify)
next
  case True
  with assms(4) obtain x where x: "tbl_find (accounts d) p = Some x" "c = listings_count (inc_listings x)"
    by (auto simp: count_of_modify [OF assms(2)])
  with assms(1) have "uint (listings_count x) = published p d" by (simp add: counts_ok_def count_of_def)
  from uint_inc [OF this assms(3)] True x show ?thesis by (simp add: inc_listings_def)
qed

lemma dec_counts:
  assumes "counts_ok d" and "modify_account d p dec_listings = Inr d'" and "1 \<le> published p d"
    and "count_of d' q = Some c"
  shows "uint c = published q d - (if q = p then 1 else 0)"
proof (cases "q = p")
  case False
  with assms show ?thesis by (auto simp: counts_ok_def count_of_modify)
next
  case True
  with assms(4) obtain x where x: "tbl_find (accounts d) p = Some x" "c = listings_count (dec_listings x)"
    by (auto simp: count_of_modify [OF assms(2)])
  with assms(1) have "uint (listings_count x) = published p d" by (simp add: counts_ok_def count_of_def)
  from uint_dec [OF this assms(3)] True x show ?thesis by (simp add: dec_listings_def)
qed

subsection \<open>Paying the publisher\<close>

context fc_laws
begin

lemma pay_publisher_cases:
  assumes "pay_publisher F s p fee d = Inr d'"
  obtains (none) "fee = None" "d' = d"
  | (paid) pf debit d1 x where "fee = Some pf" "asset_neg F pf = Inr debit"
      "adjust_balance F d s debit = Inr d1" "deposit_fee F d1 p fee Publisher_fee_type = Inr (x, d')"
  using assms by (auto simp: pay_publisher_def split: option.splits)

lemma pay_publisher_frame:
  assumes "pay_publisher F s p fee d = Inr d'"
  shows "\<exists>d1 b. d1 = d\<lparr>balances := b\<rparr> \<and> deposit_frame d1 d'"
  using assms
proof (cases rule: pay_publisher_cases)
  case none
  then show ?thesis by (intro exI [of _ d] exI [of _ "balances d"]) simp
next
  case (paid pf debit d1 x)
  from adjust_balance_frame [OF paid(3)] deposit_fee_frame [OF paid(4)] show ?thesis by blast
qed

lemma pay_publisher_listings:
  assumes "pay_publisher F s p fee d = Inr d'"
  shows "listings d' = listings d \<and> assets d' = assets d \<and> (\<forall>q. count_of d' q = count_of d q)"
proof -
  from pay_publisher_frame [OF assms] obtain d1 b where d1: "d1 = d\<lparr>balances := b\<rparr>" and f: "deposit_frame d1 d'"
    by blast
  have "count_of d1 q = count_of d q" for q using d1 by (simp add: count_of_def)
  with d1 f count_of_deposit_frame [OF f] show ?thesis by (simp add: deposit_frame_def)
qed

lemma pay_publisher_balance:
  assumes "pay_publisher F s p fee d = Inr d'"
  shows "amount (get_balance d' a x) = amount (get_balance d a x)
    - (case fee of None \<Rightarrow> 0 | Some pf \<Rightarrow> if a = s \<and> x = asset_id pf then amount pf else 0)"
  using assms
proof (cases rule: pay_publisher_cases)
  case none
  then show ?thesis by simp
next
  case (paid pf debit d1 y)
  have "balances d' = balances d1" using deposit_fee_frame [OF paid(4)] by (simp add: deposit_frame_def)
  with adjust_balance_get [OF paid(3), of a x] paid(1,2) show ?thesis by (auto simp: get_balance_def)
qed

lemma pay_publisher_gap:
  assumes "pay_publisher F s p fee d = Inr d'" and ok: "assets_ok d"
  shows "asset_gap a d' = asset_gap a d + misbooked a fee"
  using assms(1)
proof (cases rule: pay_publisher_cases)
  case none
  then show ?thesis by (simp add: misbooked_def)
next
  case (paid pf debit d1 x)
  have "assets_ok d1" using adjust_balance_frame [OF paid(3)] ok by (auto intro: assets_ok_cong [THEN iffD2, rotated])
  from deposit_fee_gap [OF paid(4) this, of a] deposit_fee_amount [OF paid(4)] adjust_balance_gap [OF paid(3), of a]
    paid(1,2)
  show ?thesis by (auto simp: of_asset_def misbooked_def)
qed

end

subsection \<open>The invariant\<close>

lemma published_bound:
  "total_ok d \<Longrightarrow> int (next_id (listings d)) + 1 < 2 ^ 64 \<Longrightarrow> published p d + 1 < 2 ^ 64"
  using published_le_total [of p d] by (simp add: total_ok_def)

lemma modify_account_published: "modify_account d a f = Inr d' \<Longrightarrow> published p d' = published p d"
  by (auto simp: modify_account_def published_def)

lemma remove_listing_inv:
  assumes inv: "listings_inv d" and l: "tbl_find (listings d) i = Some l"
    and m: "modify_account d (lst_publisher l) dec_listings = Inr d1"
  shows "listings_inv (remove_listing i d1)"
proof -
  have L: "listings d1 = listings d" using m by (auto simp: modify_account_def)
  let ?d = "remove_listing i d1"
  have p: "published q ?d = published q d - (if q = lst_publisher l then 1 else 0)" for q
    using l by (auto simp: published_def remove_listing_def L tbl_remove_sum)
  have "counts_ok ?d"
    using dec_counts [OF _ m published_ge_1 [OF l]] inv p
    by (auto simp: counts_ok_def listings_inv_def count_of_def remove_listing_def)
  moreover have "total_ok ?d"
    using inv l by (simp add: listings_inv_def total_ok_def remove_listing_def L tbl_remove_sum)
  moreover have "tbl_unique listing_clash (listings ?d)"
    using inv listing_hash.remove_unique by (simp add: listings_inv_def remove_listing_def L)
  ultimately show ?thesis by (simp add: listings_inv_def)
qed

lemma listing_delete_inv:
  "listings_inv d \<Longrightarrow> listing_delete_apply op d = Inr (y, d') \<Longrightarrow> listings_inv d'"
  by (auto simp: listing_delete_apply_def get_listing_def intro: remove_listing_inv)

text \<open>A change of a listing that keeps its publisher.\<close>

lemma modify_listing_inv:
  assumes inv: "listings_inv d" and m: "modify_listing d i f = Inr d'"
    and pub: "\<And>l. lst_publisher (f l) = lst_publisher l"
  shows "listings_inv d'"
proof -
  from m obtain t where t: "tbl_modify listing_clash (listings d) i f = Inr t" and d': "d' = d\<lparr>listings := t\<rparr>"
    by (auto simp: modify_listing_def)
  have p: "published q d' = published q d" for q
    using tbl_modify_sum_same [OF t] pub by (simp add: published_def d')
  moreover have "tbl_sum (\<lambda>_. 1) t = tbl_sum (\<lambda>_. 1) (listings d)" by (rule tbl_modify_sum_same [OF t]) simp
  ultimately show ?thesis
    using inv listing_hash.modify_unique [OF _ t] tbl_modify_next_id [OF t]
    by (simp add: listings_inv_def counts_ok_def total_ok_def d' count_of_def)
qed

lemma listing_report_inv:
  "listings_inv d \<Longrightarrow> listing_report_apply op d = Inr (y, d') \<Longrightarrow> listings_inv d'"
  by (auto simp: listing_report_apply_def get_listing_def split: if_splits
      intro: remove_listing_inv modify_listing_inv)

lemma total_modify_account: "modify_account d a f = Inr d' \<Longrightarrow> total_ok d' = total_ok d"
  by (auto simp: modify_account_def total_ok_def)

context fc_laws
begin

lemma listing_create_inv:
  assumes inv: "listings_inv d" and run: "listing_create_apply F op d = Inr (i, d')"
    and bound: "int (next_id (listings d)) + 1 < 2 ^ 64"
  shows "listings_inv d' \<and> next_id (listings d') = Suc (next_id (listings d))"
proof -
  from run obtain acc t d1 where t: "tbl_create listing_clash (listings d) (new_listing F d acc op) = Inr (i, t)"
    and d1: "pay_publisher F (lc_seller op) (lc_publisher op) (publisher_fee (lc_ob_fee op)) (d\<lparr>listings := t\<rparr>) = Inr d1"
    and d': "modify_account d1 (lc_publisher op) inc_listings = Inr d'"
    by (auto simp: listing_create_apply_def)
  note f = pay_publisher_listings [OF d1]
  have L: "listings d' = t" using f d' by (auto simp: modify_account_def)
  have c: "count_of d1 q = count_of d q" for q using f by (simp add: count_of_def)
  have p: "published q d' = published q d + (if q = lc_publisher op then 1 else 0)" for q
    using tbl_create_sum [OF t] by (simp add: published_def L new_listing_def)
  have "uint x = published q d'" if "count_of d' q = Some x" for q x
  proof -
    let ?e = "d1\<lparr>listings := listings d\<rparr>"
    have e: "counts_ok ?e" using inv c by (simp add: listings_inv_def counts_ok_def count_of_def published_def)
    have pe: "published q ?e = published q d" for q by (simp add: published_def)
    have "modify_account ?e (lc_publisher op) inc_listings = Inr (d'\<lparr>listings := listings d\<rparr>)"
      using d' by (auto simp: modify_account_def)
    from inc_counts [OF e this _ , of q x] that published_bound [of d] inv bound show ?thesis
      by (simp add: listings_inv_def pe p count_of_def)
  qed
  moreover have "total_ok d'"
    using inv tbl_create_sum [OF t, of "\<lambda>_. 1"] tbl_create_id [OF t] by (simp add: listings_inv_def total_ok_def L)
  moreover have "tbl_unique listing_clash t"
    using inv listing_hash.create_unique [OF _ t] by (simp add: listings_inv_def)
  ultimately show ?thesis using tbl_create_id [OF t] by (simp add: listings_inv_def counts_ok_def L)
qed

end

context fc_laws
begin

lemma listing_update_inv:
  assumes inv: "listings_inv d" and run: "listing_update_apply F op d = Inr (u, d')"
    and bound: "int (next_id (listings d)) + 1 < 2 ^ 64"
  shows "listings_inv d' \<and> next_id (listings d') = next_id (listings d)"
proof -
  let ?i = "lu_listing_id op"
  obtain d2 d3 where d2: "(case lu_publisher op of None \<Rightarrow> Inr d
            | Some p \<Rightarrow> ebind (get_listing d ?i) (\<lambda>l. ebind (modify_account d (lst_publisher l) dec_listings)
                (\<lambda>d1. modify_account d1 p inc_listings))) = Inr d2"
    and d3: "modify_listing d2 ?i (update_listing F d2 op) = Inr d3"
    and d': "(case publisher_fee (lu_ob_fee op) of None \<Rightarrow> Inr d3
            | Some _ \<Rightarrow> ebind (get_listing d3 ?i) (\<lambda>l.
                pay_publisher F (lst_seller l) (lst_publisher l) (publisher_fee (lu_ob_fee op)) d3)) = Inr d'"
    using run by (auto simp: listing_update_apply_def)
  have f: "listings d' = listings d3 \<and> (\<forall>q. count_of d' q = count_of d3 q)"
    using d' by (auto split: option.splits dest: pay_publisher_listings)
  from d3 obtain t where t: "tbl_modify listing_clash (listings d2) ?i (update_listing F d2 op) = Inr t"
    and d3': "d3 = d2\<lparr>listings := t\<rparr>"
    by (auto simp: modify_listing_def)
  have L2: "listings d2 = listings d" using d2 by (auto simp: modify_account_def split: option.splits)
  have "listings_inv d3"
  proof (cases "lu_publisher op")
    case None
    then show ?thesis using d2 inv d3 by (auto intro: modify_listing_inv simp: update_listing_def)
  next
    case (Some p)
    with d2 obtain l d1 where l: "tbl_find (listings d) ?i = Some l"
      and d1: "modify_account d (lst_publisher l) dec_listings = Inr d1"
      and m2: "modify_account d1 p inc_listings = Inr d2" by (auto simp: get_listing_def)
    let ?e = "remove_listing ?i d1"
    have e: "listings_inv ?e" by (rule remove_listing_inv [OF inv l d1])
    have L1: "listings d1 = listings d" using d1 by (auto simp: modify_account_def)
    have me: "modify_account ?e p inc_listings = Inr (remove_listing ?i d2)"
      using m2 by (auto simp: modify_account_def remove_listing_def)
    have bnd: "published p ?e + 1 < 2 ^ 64"
      using e bound published_bound [of ?e] by (simp add: listings_inv_def remove_listing_def L1)
    have pe: "published q d3 = published q ?e + (if q = p then 1 else 0)" for q
      using tbl_modify_sum [OF t] l Some
      by (simp add: published_def d3' remove_listing_def L1 L2 tbl_remove_sum update_listing_def)
    have "counts_ok d3"
      using inc_counts [OF _ me bnd] e pe
      by (auto simp: counts_ok_def listings_inv_def count_of_def d3' remove_listing_def)
    moreover have "tbl_sum (\<lambda>_. 1) t = tbl_sum (\<lambda>_. 1) (listings d)"
      by (metis (mono_tags) tbl_modify_sum_same [OF t] L2)
    ultimately show ?thesis
      using inv listing_hash.modify_unique [OF _ t] tbl_modify_next_id [OF t]
      by (simp add: listings_inv_def total_ok_def d3' L2)
  qed
  moreover have "next_id t = next_id (listings d)" using tbl_modify_next_id [OF t] L2 by simp
  ultimately show ?thesis using f listings_inv_cong [of d' d3] by (simp add: d3')
qed

lemma listing_step_inv:
  assumes "listing_step F d d'" and "listings_inv d" and "int (next_id (listings d)) + 1 < 2 ^ 64"
  shows "listings_inv d' \<and> next_id (listings d') \<le> Suc (next_id (listings d))"
  using assms
proof (induction rule: listing_step.induct)
  case (create c d u i d')
  then show ?case using listing_create_inv [OF create(3,2,4)] by simp
next
  case (update o' d u x d')
  then show ?case using listing_update_inv [OF update(3,2,4)] by simp
next
  case (delete x d u y d')
  moreover have "next_id (listings d') = next_id (listings d)"
    using delete(2) by (auto simp: listing_delete_apply_def remove_listing_def modify_account_def)
  ultimately show ?case using listing_delete_inv [OF delete(3,2)] by simp
next
  case (report r d u y d')
  moreover have "next_id (listings d') = next_id (listings d)"
    using report(2)
    by (auto simp: listing_report_apply_def remove_listing_def modify_account_def modify_listing_def
        dest: tbl_modify_next_id split: if_splits)
  ultimately show ?case using listing_report_inv [OF report(3,2)] by simp
qed

lemma listing_steps_inv:
  "(listing_step F ^^ k) d d' \<Longrightarrow> listings_inv d \<Longrightarrow> int (next_id (listings d) + k) < 2 ^ 64 \<Longrightarrow>
   listings_inv d' \<and> next_id (listings d') \<le> next_id (listings d) + k"
proof (induction k arbitrary: d')
  case 0
  then show ?case by simp
next
  case (Suc k)
  then obtain m where "(listing_step F ^^ k) d m" and m: "listing_step F m d'" by auto
  with Suc have "listings_inv m" and n: "next_id (listings m) \<le> next_id (listings d) + k" by auto
  moreover from n Suc.prems(3) have "int (next_id (listings m)) + 1 < 2 ^ 64" by simp
  ultimately show ?case using listing_step_inv [OF m] by simp
qed

text \<open>Conservation.\<close>

lemma listing_create_gap:
  assumes "listing_create_apply F op d = Inr (i, d')" and "assets_ok d"
  shows "asset_gap a d' = asset_gap a d + misbooked a (publisher_fee (lc_ob_fee op))"
proof -
  from assms(1) obtain t d1 where
    d1: "pay_publisher F (lc_seller op) (lc_publisher op) (publisher_fee (lc_ob_fee op)) (d\<lparr>listings := t\<rparr>) = Inr d1"
    and d': "modify_account d1 (lc_publisher op) inc_listings = Inr d'"
    by (auto simp: listing_create_apply_def)
  have "assets_ok (d\<lparr>listings := t\<rparr>)" using assms(2) by (rule assets_ok_cong [THEN iffD2, rotated]) simp
  from pay_publisher_gap [OF d1 this] modify_account_gap [OF d', of a] show ?thesis
    by (simp add: asset_gap_def held_def asset_dyn_of_def)
qed

lemma listing_update_gap:
  assumes run: "listing_update_apply F op d = Inr (u, d')" and ok: "assets_ok d"
  shows "asset_gap a d' = asset_gap a d + misbooked a (publisher_fee (lu_ob_fee op))"
proof -
  let ?i = "lu_listing_id op"
  obtain d2 d3 where d2: "(case lu_publisher op of None \<Rightarrow> Inr d
            | Some p \<Rightarrow> ebind (get_listing d ?i) (\<lambda>l. ebind (modify_account d (lst_publisher l) dec_listings)
                (\<lambda>d1. modify_account d1 p inc_listings))) = Inr d2"
    and d3: "modify_listing d2 ?i (update_listing F d2 op) = Inr d3"
    and d': "(case publisher_fee (lu_ob_fee op) of None \<Rightarrow> Inr d3
            | Some _ \<Rightarrow> ebind (get_listing d3 ?i) (\<lambda>l.
                pay_publisher F (lst_seller l) (lst_publisher l) (publisher_fee (lu_ob_fee op)) d3)) = Inr d'"
    using run by (auto simp: listing_update_apply_def)
  have "asset_gap a d2 = asset_gap a d"
    using d2 by (auto split: option.splits dest!: modify_account_gap [where a = a])
  moreover have "asset_gap a d3 = asset_gap a d2" using d3 by (rule modify_listing_gap)
  moreover have "assets d3 = assets d"
    using d2 d3 by (auto simp: modify_account_def modify_listing_def split: option.splits)
  then have "assets_ok d3" using ok by (rule assets_ok_cong [THEN iffD2])
  then have "asset_gap a d' = asset_gap a d3 + misbooked a (publisher_fee (lu_ob_fee op))"
    using d' by (auto simp: misbooked_def [of _ None] split: option.splits dest!: pay_publisher_gap [where a = a])
  ultimately show ?thesis by simp
qed

end

lemma remove_listing_gap [simp]: "asset_gap a (remove_listing i d) = asset_gap a d"
  by (simp add: remove_listing_def asset_gap_def held_def asset_dyn_of_def)

lemma listing_delete_gap: "listing_delete_apply op d = Inr (u, d') \<Longrightarrow> asset_gap a d' = asset_gap a d"
  by (auto simp: listing_delete_apply_def dest: modify_account_gap [where a = a])

lemma listing_report_gap: "listing_report_apply op d = Inr (u, d') \<Longrightarrow> asset_gap a d' = asset_gap a d"
  by (auto simp: listing_report_apply_def split: if_splits
      dest: modify_account_gap [where a = a] modify_listing_gap [where a = a])

text \<open>Deleting and reporting move no coins, so these two operations conserve.\<close>

interpretation delete_op: conserving_operation "\<lambda>_. True" "listing_delete_evaluate op" "listing_delete_apply op" for op
  by unfold_locales (auto dest: listing_delete_gap)

interpretation report_op: conserving_operation "\<lambda>_. True" "listing_report_evaluate op" "listing_report_apply op" for op
  by unfold_locales (auto dest: listing_report_gap)

lemma misbooked_core: "fee_in_core f \<Longrightarrow> misbooked a (publisher_fee f) = 0"
  by (auto simp: fee_in_core_def misbooked_def of_asset_def split: option.splits)

lemma listing_create_conserving:
  "fc_laws F \<Longrightarrow> fee_in_core (lc_ob_fee op) \<Longrightarrow>
   conserving_operation (\<lambda>_. True) (listing_create_evaluate F op) (listing_create_apply F op)"
  by unfold_locales (auto simp: fee_booked_def misbooked_core dest: fc_laws.listing_create_gap)

lemma listing_update_conserving:
  "fc_laws F \<Longrightarrow> fee_in_core (lu_ob_fee op) \<Longrightarrow>
   conserving_operation (\<lambda>_. True) (listing_update_evaluate F op) (listing_update_apply F op)"
  by unfold_locales (auto simp: fee_booked_def misbooked_core dest: fc_laws.listing_update_gap)

text \<open>A fee that is required has to be in the asset of the price.\<close>

lemma required_fee_in_core:
  assumes "fc_laws F" and "listing_create_validate op = Inr u" and "listing_create_evaluate F op d = Inr v"
    and "listing_create_ob_fee F d op = Inr req" and "publisher_fee req \<noteq> None"
  shows "fee_in_core (lc_ob_fee op)"
  using assms(2-5)
  by (auto simp: listing_create_validate_def listing_create_evaluate_def listing_create_ob_fee_def
      fee_fields_def covers_def fee_in_core_def positive_fee_def no_ob_fee_def Let_def
      split: if_splits option.splits)

lemma sample_listings_inv: "listings_inv sample_db"
  by (auto simp: listings_inv_def tbl_unique_def counts_ok_def total_ok_def published_def count_of_def
      sample_db_fields sample_accounts_def tbl_find_def tbl_sum_def empty_table_def sample_account_fields split: if_splits)

definition sample_create :: listing_create_operation where
  "sample_create = \<lparr>lc_fee = core_asset 10, lc_ob_fee = no_ob_fee, lc_seller = 7, lc_publisher = 9,
     lc_price = core_asset 100, lc_listing_hash = ''h'', lc_quantity = 5, lc_priority_fee = 50\<rparr>"

lemmas listing_eval =
  listing_create_evaluate_def listing_create_apply_def listing_create_ob_fee_def new_listing_def
  hash_exists_def only_publisher_fee_def no_ob_fee_def is_enough_def fee_covers_def positive_fee_def
  clamp_publisher_fee_def pay_publisher_def inc_listings_def cut_fee_def HARDFORK_OM_749_TIME_def
  listing_clash_def

section \<open>Properties\<close>

text \<open>C16. Along any run of accepted listing operations (create, update, delete, report) the contents
  hashes stay unique and every account's 64-bit listings count is the exact number of listings it
  publishes, as long as fewer than \<open>2 ^ 64\<close> listing numbers have been given out.\<close>

theorem listings_invariant:
  assumes "fc_laws F" and "listings_inv d" and "(listing_step F ^^ k) d d'"
    and "int (next_id (listings d) + k) < 2 ^ 64"
  shows "listings_inv d'"
  using fc_laws.listing_steps_inv [OF assms(1,3,2,4)] by blast

lemma sample_create_ok:
  "\<exists>i d'. listing_create_evaluate checked_fc sample_create sample_db = Inr () \<and>
     listing_create_apply checked_fc sample_create sample_db = Inr (i, d')"
  by (simp add: listing_eval sample_create_def sample_eval)

theorem listings_invariant_witness:
  "\<exists>i d'. listing_create_apply checked_fc sample_create sample_db = Inr (i, d') \<and> listings_inv d'"
proof -
  obtain i d' where e: "listing_create_evaluate checked_fc sample_create sample_db = Inr ()"
    and a: "listing_create_apply checked_fc sample_create sample_db = Inr (i, d')"
    using sample_create_ok by blast
  have "(listing_step checked_fc ^^ 1) sample_db d'" using listing_step.create [OF e a] by (simp add: eq_OO)
  from listings_invariant [OF checked.fc_laws_axioms sample_listings_inv this] a show ?thesis
    by (simp add: sample_db_fields empty_table_def)
qed

text \<open>Creating a listing, fees included, creates and destroys no asset, provided the publisher
  fee it carries (if any) is in the core asset; the validation and the checks of the evaluator force
  that whenever a publisher fee is required.\<close>

theorem listing_create_conserves:
  assumes "fc_laws F" and "assets_ok d" and "fee_in_core (lc_ob_fee op)"
    and "start_evaluate F default_state (lc_seller op) (lc_fee op) Op_listing_create base_calculate_fee
           (listing_create_evaluate F op) (listing_create_apply F op) d = Inr (i, d')"
  shows "asset_gap a d' = asset_gap a d"
  using fc_laws.start_evaluate_conserves [OF assms(1) listing_create_conserving [OF assms(1,3)] assms(4,2)] by simp

theorem listing_create_conserves_witness:
  "\<exists>i d'. start_evaluate checked_fc default_state 7 (core_asset 10) Op_listing_create base_calculate_fee
       (listing_create_evaluate checked_fc sample_create) (listing_create_apply checked_fc sample_create)
       sample_db = Inr (i, d') \<and> asset_gap 0 d' = asset_gap 0 sample_db"
proof -
  let ?run = "start_evaluate checked_fc default_state 7 (core_asset 10) Op_listing_create base_calculate_fee
       (listing_create_evaluate checked_fc sample_create) (listing_create_apply checked_fc sample_create) sample_db"
  have "is_ok ?run"
    by (simp add: start_evaluate_def evaluate_def apply_op_def prepare_fee_def convert_fee_def pay_fee_def
        stat_pay_fee_def default_state_def required_fee_eval listing_eval sample_create_def sample_eval is_authorized_asset_def
        adjust_balance_def asset_neg_def asset_ge_def asset_less_def checked_fc_def safe_check_def in_int64_def)
  from this [unfolded is_ok_iff] obtain r where r: "?run = Inr r" ..
  obtain i d' where run: "?run = Inr (i, d')" using r by (cases r) simp
  have "fee_in_core (lc_ob_fee sample_create)"
    by (simp add: sample_create_def fee_in_core_def no_ob_fee_def)
  from listing_create_conserves [OF checked.fc_laws_axioms sample_assets_ok this] run show ?thesis
    by (simp add: sample_create_def)
qed

text \<open>A report counts once: after an accepted report of a listing by an account, the listing is
  either banned and gone, or the account is on its list of reporters; in both cases the evaluator rejects
  a second report of it by the same account.\<close>

theorem listing_report_once:
  assumes "listing_report_evaluate op d = Inr u" and "listing_report_apply op d = Inr (v, d')"
  shows "\<not> is_ok (listing_report_evaluate op d') \<and>
    (case get_account d (lr_reporting_account op) of
       Inr reporter \<Rightarrow> (case get_listing d (lr_listing_id op) of
         Inr l \<Rightarrow> (if ban_listing d reporter l then \<not> is_ok (get_listing d' (lr_listing_id op))
                   else is_ok (get_listing d' (lr_listing_id op)))
       | Inl _ \<Rightarrow> False)
     | Inl _ \<Rightarrow> False)"
proof -
  let ?i = "lr_listing_id op" and ?r = "lr_reporting_account op"
  obtain acc l where acc: "get_account d ?r = Inr acc" and l: "tbl_find (listings d) ?i = Some l"
    using assms(1) by (auto simp: listing_report_evaluate_def get_listing_def)
  then have gl: "get_listing d ?i = Inr l" by (simp add: get_listing_def)
  show ?thesis
  proof (cases "ban_listing d acc l")
    case True
    with assms(2) acc gl have "tbl_find (listings d') ?i = None"
      by (auto simp: listing_report_apply_def remove_listing_def tbl_remove_find)
    then have "get_listing d' ?i = Inl Missing_object" by (simp add: get_listing_def tbl_get_def)
    with True acc gl show ?thesis by (simp add: listing_report_evaluate_def is_ok_iff)
  next
    case False
    with assms(2) acc gl obtain t where t: "tbl_modify listing_clash (listings d) ?i
         (\<lambda>l. l\<lparr>reported_score := reported_score l + ucast (pop_score acc),
                reported_accounts := insert ?r (reported_accounts l)\<rparr>) = Inr t"
      and d': "d' = d\<lparr>listings := t\<rparr>"
      by (auto simp: listing_report_apply_def modify_listing_def)
    from tbl_modify_find [OF t, of ?i] l obtain l' where "tbl_find (listings d') ?i = Some l'"
      and r: "?r \<in> reported_accounts l'" by (auto simp: d')
    then have "get_listing d' ?i = Inr l'" by (simp add: get_listing_def)
    with r False acc gl show ?thesis by (auto simp: listing_report_evaluate_def is_ok_iff)
  qed
qed

definition reported_db :: database where
  "reported_db = sample_db\<lparr>
     accounts := \<lparr>next_id = 10, objs = fmupd 6 (sample_account\<lparr>pop_score := 40\<rparr>) fmempty\<rparr>,
     listings := \<lparr>next_id = 1, objs = fmupd 0 \<lparr>lst_seller = 7, lst_publisher = 9,
       lst_price = core_asset 100, lst_hash = ''h'', lst_quantity = 5, lst_expiration_time = 0,
       seller_score = 20, reported_score = 3, reported_accounts = {}, lst_priority_fee = 50,
       created_at = 0, updated_at = 0\<rparr> fmempty\<rparr>\<rparr>"

theorem listing_report_once_witness:
  "\<exists>d'. listing_report_apply \<lparr>lr_fee = core_asset 1, lr_reporting_account = 6, lr_listing_id = 0\<rparr>
        reported_db = Inr ((), d') \<and>
     \<not> is_ok (listing_report_evaluate \<lparr>lr_fee = core_asset 1, lr_reporting_account = 6, lr_listing_id = 0\<rparr> d')"
proof -
  let ?op = "\<lparr>lr_fee = core_asset 1, lr_reporting_account = 6, lr_listing_id = 0\<rparr>"
  have e: "listing_report_evaluate ?op reported_db = Inr ()"
    by (simp add: listing_report_evaluate_def reported_db_def sample_eval word_less_def)
  have "is_ok (listing_report_apply ?op reported_db)"
    by (simp add: listing_report_apply_def reported_db_def sample_eval ban_listing_def word_le_def word_less_def
        listing_clash_def fmdrop_fmupd)
  then obtain d' where a: "listing_report_apply ?op reported_db = Inr ((), d')" by (auto simp: is_ok_iff)
  from listing_report_once [OF e a] a show ?thesis by blast
qed

text \<open>\<^verbatim>\<open>listing_create\<close> stores what it was given: on success the listing is found under the
  returned number with the operation's contents, every other listing is as before, and the seller's
  balance has fallen by exactly the publisher fee.\<close>

theorem listing_create_stores:
  assumes "fc_laws F" and "listing_create_apply F op d = Inr (i, d')"
  shows "(\<exists>acc. get_account d (lc_seller op) = Inr acc \<and>
      tbl_find (listings d') i = Some (new_listing F d acc op)) \<and>
    tbl_find (listings d) i = None \<and>
    (\<forall>j. j \<noteq> i \<longrightarrow> tbl_find (listings d') j = tbl_find (listings d) j) \<and>
    (\<forall>a x. amount (get_balance d' a x) = amount (get_balance d a x)
       - (case publisher_fee (lc_ob_fee op) of None \<Rightarrow> 0
          | Some pf \<Rightarrow> if a = lc_seller op \<and> x = asset_id pf then amount pf else 0))"
proof -
  from assms(2) obtain acc t d1 where acc: "get_account d (lc_seller op) = Inr acc"
    and t: "tbl_create listing_clash (listings d) (new_listing F d acc op) = Inr (i, t)"
    and d1: "pay_publisher F (lc_seller op) (lc_publisher op) (publisher_fee (lc_ob_fee op)) (d\<lparr>listings := t\<rparr>) = Inr d1"
    and d': "modify_account d1 (lc_publisher op) inc_listings = Inr d'"
    by (auto simp: listing_create_apply_def)
  have L: "listings d' = t" "balances d' = balances d1"
    using d' fc_laws.pay_publisher_listings [OF assms(1) d1] by (auto simp: modify_account_def)
  have "amount (get_balance d1 a x) = amount (get_balance d a x)
      - (case publisher_fee (lc_ob_fee op) of None \<Rightarrow> 0
         | Some pf \<Rightarrow> if a = lc_seller op \<and> x = asset_id pf then amount pf else 0)" for a x
    using fc_laws.pay_publisher_balance [OF assms(1) d1, of a x] by (simp add: get_balance_def)
  with acc tbl_create_find [OF t] tbl_create_fresh [OF t] L show ?thesis
    by (auto simp: get_balance_def)
qed

theorem listing_create_stores_witness:
  "\<exists>i d' l. listing_create_apply checked_fc sample_create sample_db = Inr (i, d') \<and>
     tbl_find (listings d') i = Some l \<and> lst_seller l = 7 \<and> lst_hash l = ''h''"
proof -
  obtain i d' where a: "listing_create_apply checked_fc sample_create sample_db = Inr (i, d')"
    using sample_create_ok by blast
  from listing_create_stores [OF checked.fc_laws_axioms a] a show ?thesis
    by (auto simp: new_listing_def sample_create_def)
qed

subsection \<open>The asset of an unrequested fee\<close>

text \<open>
  When no publisher fee is required (a seller who is also the publisher), the evaluator accepts a fee
  in any asset. It is debited in that asset and deposited in the core asset: here 400 units of asset 1
  turn into 400 core coins, and the holdings of the core asset exceed what its supply covers.
\<close>

definition two_asset_db :: database where
  "two_asset_db = sample_db\<lparr>
     balances := fmupd (9, 1) 500 (fmupd (9, 0) 500 fmempty),
     assets := (assets sample_db)\<lparr>objs := fmupd 1 \<lparr>asset_issuer = 9, whitelist_authorities = [],
       blacklist_authorities = [], white_list_flag = False, transfer_restricted = False,
       override_authority = False, core_exchange_rate = \<lparr>base = core_asset 1, quote = core_asset 1\<rparr>,
       dynamic_asset_data_id = 1\<rparr> (objs (assets sample_db))\<rparr>,
     asset_dyn := (asset_dyn sample_db)\<lparr>objs := fmupd 1 \<lparr>current_supply = 500, accumulated_fees = 0,
       fee_pool = 0\<rparr> (objs (asset_dyn sample_db))\<rparr>\<rparr>"

definition self_publish :: listing_create_operation where
  "self_publish = sample_create\<lparr>lc_seller := 9,
     lc_ob_fee := no_ob_fee\<lparr>publisher_fee := Some \<lparr>amount = 400, asset_id = 1\<rparr>\<rparr>\<rparr>"

lemma self_publish_accepted:
  "listing_create_validate self_publish = Inr ()" "listing_create_evaluate checked_fc self_publish two_asset_db = Inr ()"
  "is_ok (listing_create_apply checked_fc self_publish two_asset_db)" "assets_ok two_asset_db"
proof -
  show "listing_create_validate self_publish = Inr ()"
    by (simp add: listing_create_validate_def self_publish_def sample_create_def)
  show "listing_create_evaluate checked_fc self_publish two_asset_db = Inr ()"
    by (simp add: listing_eval self_publish_def sample_create_def two_asset_db_def sample_eval checked_fc_def
        safe_check_def in_int64_def get_balance_def)
  show "is_ok (listing_create_apply checked_fc self_publish two_asset_db)"
    by (simp add: listing_eval self_publish_def sample_create_def two_asset_db_def sample_eval checked_fc_def
        safe_check_def in_int64_def asset_neg_def adjust_balance_def asset_ge_def asset_less_def deposit_fee_def
        deposit_cashback_def is_chain_account_def get_type_vb_def set_type_vb_def deposit_lazy_vesting_def
        create_vesting_def wrap64_def)
  show "assets_ok two_asset_db"
    by (auto simp: assets_ok_def two_asset_db_def sample_eval split: if_splits)
qed

text \<open>C30. A seller who publishes the listing needs no publisher fee, and then the asset of a fee that is offered
  nevertheless is not looked at: the evaluator gives the same answer for every asset. An operation with such a
  fee in another asset than the core coin creates core coins: the gap between supply and holdings of the core asset
  shrinks by the amount of the fee, that of the fee's asset grows by it, and no other changes.\<close>

theorem unrequested_fee_mints_core:
  assumes "fc_laws F" and "assets_ok d" and "lc_seller op = lc_publisher op"
    and "publisher_fee (lc_ob_fee op) = Some pf" and "asset_id pf \<noteq> 0"
    and "listing_create_apply F op d = Inr (i, d')"
  shows "(\<forall>a. listing_create_evaluate F
        (op\<lparr>lc_ob_fee := (lc_ob_fee op)\<lparr>publisher_fee := Some (pf\<lparr>asset_id := a\<rparr>)\<rparr>\<rparr>) d = listing_create_evaluate F op d) \<and>
    asset_gap 0 d' = asset_gap 0 d - amount pf \<and>
    asset_gap (asset_id pf) d' = asset_gap (asset_id pf) d + amount pf \<and>
    (\<forall>b. b \<noteq> 0 \<and> b \<noteq> asset_id pf \<longrightarrow> asset_gap b d' = asset_gap b d)"
proof -
  have "listing_create_evaluate F (op\<lparr>lc_ob_fee := (lc_ob_fee op)\<lparr>publisher_fee := Some (pf\<lparr>asset_id := a\<rparr>)\<rparr>\<rparr>) d =
      listing_create_evaluate F op d" for a
    using assms(3,4) by (simp add: listing_create_evaluate_def listing_create_ob_fee_def is_enough_def fee_covers_def
      no_ob_fee_def only_publisher_fee_def ob_fee_sum_def fee_amount_def)
  moreover have "asset_gap b d' = asset_gap b d + misbooked b (Some pf)" for b
    using fc_laws.listing_create_gap [OF assms(1,6,2)] assms(4) by simp
  ultimately show ?thesis using assms(5) by (simp add: misbooked_def of_asset_def)
qed

theorem unrequested_fee_mints_core_witness:
  "listing_create_validate self_publish = Inr () \<and>
   listing_create_evaluate checked_fc self_publish two_asset_db = Inr () \<and>
   (\<exists>i d'. listing_create_apply checked_fc self_publish two_asset_db = Inr (i, d') \<and>
      asset_gap 0 d' = asset_gap 0 two_asset_db - 400 \<and> asset_gap 1 d' = asset_gap 1 two_asset_db + 400)"
proof -
  from self_publish_accepted(3) [unfolded is_ok_iff] obtain r where r: "listing_create_apply checked_fc self_publish two_asset_db = Inr r" ..
  obtain i d' where a: "listing_create_apply checked_fc self_publish two_asset_db = Inr (i, d')"
    using r by (cases r) simp
  have "lc_seller self_publish = lc_publisher self_publish"
    "publisher_fee (lc_ob_fee self_publish) = Some \<lparr>amount = 400, asset_id = 1\<rparr>"
    by (simp_all add: self_publish_def sample_create_def)
  from unrequested_fee_mints_core [OF checked.fc_laws_axioms self_publish_accepted(4) this _ a] a self_publish_accepted(1,2)
  show ?thesis by simp
qed

end
