(* ===== verification/Reputation.thy ===== *)
theory Reputation
  imports Balances
begin

text \<open>
  \<^verbatim>\<open>account_object::update_reputation\<close>: a vote of one account for another, weighted by the
  amount that changed hands. A default vote withdraws an earlier one. The score kept for display is
  the weighted mean on a scale of 100 percent.
\<close>

definition OMNIBAZAAR_REPUTATION_MIN :: nat where
  "OMNIBAZAAR_REPUTATION_MIN = 0"

definition OMNIBAZAAR_REPUTATION_MAX :: nat where
  "OMNIBAZAAR_REPUTATION_MAX = 10"

definition OMNIBAZAAR_REPUTATION_DEFAULT :: nat where
  "OMNIBAZAAR_REPUTATION_DEFAULT = 5"

type_synonym votes = "(account_id, nat \<times> asset) fmap"

definition put_vote :: "account_id \<Rightarrow> nat \<Rightarrow> asset \<Rightarrow> votes \<Rightarrow> votes" where
  "put_vote from reputation amt votes =
     (if reputation = OMNIBAZAAR_REPUTATION_DEFAULT then fmdrop from votes
      else fmupd from (reputation, amt) votes)"

text \<open>The loop that sums the votes, in the order of the map.\<close>

fun vote_sums :: "fc_lib \<Rightarrow> (account_id \<times> nat \<times> asset) list \<Rightarrow> nat \<times> nat \<Rightarrow> nat \<times> nat" where
  "vote_sums F [] acc = acc"
| "vote_sums F ((_, vote, amt) # rest) (weighted_votes_sum, weight_sum) =
     vote_sums F rest
       (u128_add F weighted_votes_sum (u128_mul F vote (u128_of_i64 F (amount amt))),
        u128_add F weight_sum (u128_of_i64 F (amount amt)))"

definition reputation_score_of :: "fc_lib \<Rightarrow> votes \<Rightarrow> 16 word result" where
  "reputation_score_of F votes =
     (let (weighted_votes_sum, weight_sum) = vote_sums F (sorted_list_of_fmap votes) (0, 0) in
      if 0 < weight_sum
      then emap word_of_nat
        (u128_to_u32 F
          (u128_div F
            (u128_div F (u128_mul F weighted_votes_sum GRAPHENE_100_PERCENT) weight_sum)
            OMNIBAZAAR_REPUTATION_MAX))
      else Inr 0)"

definition update_reputation ::
  "fc_lib \<Rightarrow> database \<Rightarrow> account_id \<Rightarrow> account_id \<Rightarrow> nat \<Rightarrow> asset \<Rightarrow> database result" where
  "update_reputation F d target from reputation amt =
     ebind (get_account d target) (\<lambda>target_account.
     ebind (tbl_get (statistics d) (acc_statistics target_account)) (\<lambda>stats.
     let votes = put_vote from reputation amt (reputation_votes stats) in
     ebind (reputation_score_of F votes) (\<lambda>score.
     ebind (modify_statistics d (acc_statistics target_account)
              (\<lambda>s. s\<lparr>reputation_votes := put_vote from reputation amt (reputation_votes s)\<rparr>)) (\<lambda>d1.
     ebind (modify_account d1 target
              (\<lambda>acc. acc\<lparr>reputation_unweighted_score := score,
                         reputation_votes_count := fcard (fmdom votes)\<rparr>)) (\<lambda>d2.
     ebind (get_account d2 from) (\<lambda>from_account.
     modify_statistics d2 (acc_statistics from_account)
       (\<lambda>s. if OMNIBAZAAR_REPUTATION_DEFAULT < reputation
             then s\<lparr>my_reputation_votes := finsert target (my_reputation_votes s)\<rparr>
             else s\<lparr>my_reputation_votes := my_reputation_votes s |-| {|target|}\<rparr>)))))))"

subsection \<open>Specification\<close>

definition vote_weight :: "account_id \<times> nat \<times> asset \<Rightarrow> nat" where
  "vote_weight v = nat (amount (snd (snd v)))"

definition weighted_vote :: "account_id \<times> nat \<times> asset \<Rightarrow> nat" where
  "weighted_vote v = fst (snd v) * vote_weight v"

text \<open>Votes as the operations that record them allow: on the scale, for an amount that is not
  negative; fewer than \<open>2 ^ 32\<close> of them.\<close>

definition vote_ok :: "account_id \<times> nat \<times> asset \<Rightarrow> bool" where
  "vote_ok v \<longleftrightarrow> fst (snd v) \<le> OMNIBAZAAR_REPUTATION_MAX \<and>
     0 \<le> amount (snd (snd v)) \<and> in_int64 (amount (snd (snd v)))"

definition votes_ok :: "votes \<Rightarrow> bool" where
  "votes_ok m \<longleftrightarrow> list_all vote_ok (sorted_list_of_fmap m) \<and> length (sorted_list_of_fmap m) < 2 ^ 32"

definition mean_score :: "votes \<Rightarrow> nat" where
  "mean_score m =
     (let vs = sorted_list_of_fmap m; w = sum_list (map vote_weight vs) in
      if w = 0 then 0 else sum_list (map weighted_vote vs) * 10000 div w div 10)"

section \<open>Lemmas\<close>

lemma vote_sum_bounds:
  "list_all vote_ok vs \<Longrightarrow>
   sum_list (map vote_weight vs) \<le> length vs * 2 ^ 63 \<and>
   sum_list (map weighted_vote vs) \<le> 10 * sum_list (map vote_weight vs)"
proof (induction vs)
  case Nil
  then show ?case by simp
next
  case (Cons v vs)
  then have v: "fst (snd v) \<le> 10" "vote_weight v < 2 ^ 63"
    using int64_nat_bound [of "amount (snd (snd v))"]
    by (auto simp: vote_ok_def OMNIBAZAAR_REPUTATION_MAX_def vote_weight_def)
  then have "weighted_vote v \<le> 10 * vote_weight v" by (simp add: weighted_vote_def)
  with Cons v show ?case by (auto simp: algebra_simps)
qed

lemma mean_score_le: "votes_ok m \<Longrightarrow> mean_score m \<le> 10000"
proof -
  assume ok: "votes_ok m"
  define W where "W = sum_list (map weighted_vote (sorted_list_of_fmap m))"
  define w where "w = sum_list (map vote_weight (sorted_list_of_fmap m))"
  have "W \<le> 10 * w" using vote_sum_bounds ok by (auto simp: votes_ok_def W_def w_def)
  then have "W * 10000 \<le> 100000 * w" by simp
  then have "W * 10000 div w \<le> 100000 * w div w" by (rule div_le_mono)
  then have "w \<noteq> 0 \<Longrightarrow> W * 10000 div w div 10 \<le> 10000" by simp
  then show ?thesis unfolding mean_score_def Let_def W_def w_def by auto
qed

lemma reputation_score_empty [simp]: "reputation_score_of F fmempty = Inr 0"
  by (simp add: reputation_score_of_def sorted_list_of_fmap_def sorted_list_of_fset.rep_eq)

context fc_laws
begin

lemma vote_sums_exact:
  "list_all vote_ok vs \<Longrightarrow> W + sum_list (map weighted_vote vs) < 2 ^ 127 \<Longrightarrow>
   w + sum_list (map vote_weight vs) < 2 ^ 127 \<Longrightarrow>
   vote_sums F vs (W, w) = (W + sum_list (map weighted_vote vs), w + sum_list (map vote_weight vs))"
proof (induction vs arbitrary: W w)
  case Nil
  then show ?case by simp
next
  case (Cons v vs)
  obtain i r a where v: "v = (i, r, a)" by (cases v)
  have a: "u128_of_i64 F (amount a) = vote_weight v"
    using Cons.prems(1) by (simp add: v vote_ok_def vote_weight_def u128_of_i64)
  have m: "u128_mul F r (vote_weight v) = weighted_vote v"
    using Cons.prems(2) u128_mul [of r "vote_weight v"] by (simp add: v weighted_vote_def)
  have "vote_sums F (v # vs) (W, w) = vote_sums F vs (W + weighted_vote v, w + vote_weight v)"
    using Cons.prems(2,3) by (simp add: v a [unfolded v] m [unfolded v] u128_add)
  then show ?case using Cons by (simp add: add.assoc)
qed

lemma reputation_score_exact:
  assumes ok: "votes_ok m"
  shows "reputation_score_of F m = Inr (word_of_nat (mean_score m))"
proof -
  let ?vs = "sorted_list_of_fmap m"
  define W where "W = sum_list (map weighted_vote ?vs)"
  define w where "w = sum_list (map vote_weight ?vs)"
  have mean: "mean_score m = (if w = 0 then 0 else W * 10000 div w div 10)"
    by (simp only: mean_score_def Let_def W_def w_def)
  have b: "w \<le> length ?vs * 2 ^ 63" "W \<le> 10 * w" "length ?vs < 2 ^ 32"
    using vote_sum_bounds ok by (auto simp: votes_ok_def W_def w_def)
  have w: "w < 2 ^ 95"
  proof -
    have "length ?vs * 2 ^ 63 < 2 ^ 32 * (2 ^ 63 :: nat)" using b(3) by (rule mult_strict_right_mono) simp
    with b(1) show ?thesis by simp
  qed
  then have W: "W < 2 ^ 99" "W * 10000 < 2 ^ 128" using b(2) by simp_all
  have s: "vote_sums F ?vs (0, 0) = (W, w)"
    using vote_sums_exact [of ?vs 0 0] ok w W by (simp add: votes_ok_def W_def w_def)
  have "W * 10000 div w \<le> W * 10000" by (rule div_le_dividend)
  then have lt: "W * 10000 div w < 2 ^ 128" using W(2) by (rule le_less_trans)
  have "mean_score m < 2 ^ 32" using mean_score_le [OF ok] by simp
  then have "u128_to_u32 F (mean_score m) = Inr (mean_score m)" by (rule u128_to_u32)
  then show ?thesis
    using W(2) lt
    by (auto simp: reputation_score_of_def s mean GRAPHENE_100_PERCENT_def OMNIBAZAAR_REPUTATION_MAX_def
        u128_mul u128_div)
qed

lemma update_reputation_gap:
  assumes "update_reputation F d target from r amt = Inr d'"
  shows "asset_gap a d' = asset_gap a d"
proof -
  have st: "asset_gap a e' = asset_gap a e" if "modify_statistics e i f = Inr e'"
    "\<And>s. pending_fees (f s) = pending_fees s \<and> pending_vested_fees (f s) = pending_vested_fees s" for e e' i f
  proof -
    from that(1) obtain s where "tbl_find (statistics e) i = Some s"
      using tbl_modify_exists by (fastforce simp: modify_statistics_def)
    with modify_statistics_gap [OF that(1) this, of a] that(2) show ?thesis by simp
  qed
  from assms show ?thesis
    by (auto simp: update_reputation_def Let_def dest!: st modify_account_gap [where a = a])
qed

lemma update_reputation_frame:
  "update_reputation F d target from r amt = Inr d' \<Longrightarrow> \<exists>acc st. d' = d\<lparr>accounts := acc, statistics := st\<rparr>"
  by (fastforce simp: update_reputation_def Let_def modify_statistics_def modify_account_def)

end

end
