(* ===== verification/Escrow.thy ===== *)
theory Escrow
  imports Listing Reputation
begin

text \<open>
  Escrows: \<^verbatim>\<open>escrow.cpp\<close> (validation, fees, authorities), \<^verbatim>\<open>escrow_evaluator.cpp\<close> (create,
  release, return, extend), \<^verbatim>\<open>db_escrow.cpp\<close> (the agents an account accepts implicitly) and the
  secondary index of \<^verbatim>\<open>escrow_object.cpp\<close>. A buyer locks an amount; it is released to the seller
  or returned to the buyer, less the agent's fee and, for a sale, the fees of the sale.
\<close>

subsection \<open>Operations\<close>

record escrow_create_operation =
  ec_fee :: asset
  ec_ob_fee :: omnibazaar_fee_type
  ec_expiration_time :: time_sec
  ec_buyer :: account_id
  ec_seller :: account_id
  ec_escrow :: account_id
  ec_amount :: asset
  ec_transfer_to_escrow :: bool
  ec_memo_size :: "nat option"
  ec_listing :: "nat option"
  ec_listing_count :: "32 word option"

text \<open>\<^verbatim>\<open>escrow_release_operation\<close> and \<^verbatim>\<open>escrow_return_operation\<close> have the same fields.\<close>

record escrow_close_operation =
  es_fee :: asset
  es_fee_paying_account :: account_id
  es_escrow :: nat
  es_buyer_account :: account_id
  es_escrow_account :: account_id
  es_seller_account :: account_id
  es_memo_size :: "nat option"
  reputation_vote_for_seller :: nat
  reputation_vote_for_buyer :: nat
  reputation_vote_for_escrow :: nat

record escrow_extend_operation =
  ee_fee :: asset
  ee_fee_paying_account :: account_id
  ee_escrow :: nat
  ee_expiration_time :: time_sec
  ee_buyer_account :: account_id
  ee_escrow_account :: account_id
  ee_seller_account :: account_id
  ee_memo_size :: "nat option"

subsection \<open>Validation\<close>

definition escrow_create_validate :: "escrow_create_operation \<Rightarrow> unit result" where
  "escrow_create_validate op =
     ebind (fc_assert (0 \<le> amount (ec_fee op)) ''fee.amount >= 0'') (\<lambda>_.
     ebind (fc_assert (0 < amount (ec_amount op)) ''amount.amount > 0'') (\<lambda>_.
     ebind (fc_assert (ec_buyer op \<noteq> ec_seller op) ''buyer != seller'') (\<lambda>_.
     ebind (fc_assert (ec_buyer op \<noteq> ec_escrow op) ''buyer != escrow'') (\<lambda>_.
     ebind (fc_assert (ec_seller op \<noteq> ec_escrow op) ''seller != escrow'') (\<lambda>_.
     ebind (fc_assert (ec_listing op \<noteq> None \<longrightarrow> ec_listing_count op \<noteq> None)
              ''Listing ID is specified but count is not.'') (\<lambda>_.
     ebind (case ec_listing_count op of
              None \<Rightarrow> Inr ()
            | Some n \<Rightarrow>
                ebind (fc_assert (0 < n) ''(*listing_count) > 0'') (\<lambda>_.
                fc_assert (ec_listing op \<noteq> None) ''Listing count is specified but listing ID is not.'')) (\<lambda>_.
     fc_assert (asset_id (ec_amount op) = 0) ''Escrows support only core currency.'')))))))"

definition vote_in_range :: "nat \<Rightarrow> bool" where
  "vote_in_range v = (OMNIBAZAAR_REPUTATION_MIN \<le> v \<and> v \<le> OMNIBAZAAR_REPUTATION_MAX)"

text \<open>The accounts of a closing operation differ, and one of them pays.\<close>

definition parties_validate ::
  "account_id \<Rightarrow> account_id \<Rightarrow> account_id \<Rightarrow> account_id \<Rightarrow> unit result" where
  "parties_validate payer buyer escrow seller =
     ebind (fc_assert (buyer \<noteq> seller) ''buyer_account != seller_account'') (\<lambda>_.
     ebind (fc_assert (buyer \<noteq> escrow) ''buyer_account != escrow_account'') (\<lambda>_.
     ebind (fc_assert (seller \<noteq> escrow) ''seller_account != escrow_account'') (\<lambda>_.
     fc_assert (payer = buyer \<or> payer = seller \<or> payer = escrow) ''fee_paying_account'')))"

definition escrow_release_validate :: "escrow_close_operation \<Rightarrow> unit result" where
  "escrow_release_validate op =
     ebind (fc_assert (0 \<le> amount (es_fee op)) ''fee.amount >= 0'') (\<lambda>_.
     ebind (parties_validate (es_fee_paying_account op) (es_buyer_account op) (es_escrow_account op)
              (es_seller_account op)) (\<lambda>_.
     ebind (fc_assert (vote_in_range (reputation_vote_for_buyer op)) ''reputation_vote_for_buyer'') (\<lambda>_.
     ebind (fc_assert (vote_in_range (reputation_vote_for_escrow op)) ''reputation_vote_for_escrow'') (\<lambda>_.
     ebind (fc_assert (vote_in_range (reputation_vote_for_seller op)) ''reputation_vote_for_seller'') (\<lambda>_.
     ebind (fc_assert (es_fee_paying_account op = es_buyer_account op \<longrightarrow>
              reputation_vote_for_buyer op = OMNIBAZAAR_REPUTATION_DEFAULT) ''vote for himself'') (\<lambda>_.
     ebind (fc_assert (es_fee_paying_account op = es_escrow_account op \<longrightarrow>
              reputation_vote_for_escrow op = OMNIBAZAAR_REPUTATION_DEFAULT) ''vote for himself'') (\<lambda>_.
     fc_assert (es_fee_paying_account op = es_seller_account op \<longrightarrow>
              reputation_vote_for_seller op = OMNIBAZAAR_REPUTATION_DEFAULT) ''vote for himself'')))))))"

text \<open>Return checks the votes and the payer in another order.\<close>

definition escrow_return_validate :: "escrow_close_operation \<Rightarrow> unit result" where
  "escrow_return_validate op =
     ebind (fc_assert (0 \<le> amount (es_fee op)) ''fee.amount >= 0'') (\<lambda>_.
     ebind (parties_validate (es_fee_paying_account op) (es_buyer_account op) (es_escrow_account op)
              (es_seller_account op)) (\<lambda>_.
     ebind (fc_assert (vote_in_range (reputation_vote_for_seller op)) ''reputation_vote_for_seller'') (\<lambda>_.
     ebind (fc_assert (vote_in_range (reputation_vote_for_buyer op)) ''reputation_vote_for_buyer'') (\<lambda>_.
     ebind (fc_assert (vote_in_range (reputation_vote_for_escrow op)) ''reputation_vote_for_escrow'') (\<lambda>_.
     ebind (fc_assert (es_fee_paying_account op = es_seller_account op \<longrightarrow>
              reputation_vote_for_seller op = OMNIBAZAAR_REPUTATION_DEFAULT) ''vote for himself'') (\<lambda>_.
     ebind (fc_assert (es_fee_paying_account op = es_escrow_account op \<longrightarrow>
              reputation_vote_for_escrow op = OMNIBAZAAR_REPUTATION_DEFAULT) ''vote for himself'') (\<lambda>_.
     fc_assert (es_fee_paying_account op = es_buyer_account op \<longrightarrow>
              reputation_vote_for_buyer op = OMNIBAZAAR_REPUTATION_DEFAULT) ''vote for himself'')))))))"

definition escrow_extend_validate :: "escrow_extend_operation \<Rightarrow> unit result" where
  "escrow_extend_validate op =
     ebind (fc_assert (0 \<le> amount (ee_fee op)) ''fee.amount >= 0'') (\<lambda>_.
     parties_validate (ee_fee_paying_account op) (ee_buyer_account op) (ee_escrow_account op)
       (ee_seller_account op))"

subsection \<open>Fees and authorities\<close>

definition escrow_create_calculate_fee ::
  "fc_lib \<Rightarrow> escrow_create_operation \<Rightarrow> fee_parameters \<Rightarrow> share_type result" where
  "escrow_create_calculate_fee F op k =
     add_memo_fee F k (ec_memo_size op)
       (if ec_listing op \<noteq> None then 0 else wrap64 (int (fp_fee k)))"

definition escrow_release_calculate_fee ::
  "fc_lib \<Rightarrow> escrow_close_operation \<Rightarrow> fee_parameters \<Rightarrow> share_type result" where
  "escrow_release_calculate_fee F op k = add_memo_fee F k (es_memo_size op) (wrap64 (int (fp_fee k)))"

definition escrow_return_calculate_fee ::
  "fc_lib \<Rightarrow> escrow_close_operation \<Rightarrow> fee_parameters \<Rightarrow> share_type result" where
  "escrow_return_calculate_fee F op k = add_memo_fee F k (es_memo_size op) (wrap64 (int (fp_fee k)))"

definition escrow_extend_calculate_fee ::
  "fc_lib \<Rightarrow> escrow_extend_operation \<Rightarrow> fee_parameters \<Rightarrow> share_type result" where
  "escrow_extend_calculate_fee F op k = add_memo_fee F k (ee_memo_size op) (wrap64 (int (fp_fee k)))"

definition escrow_create_required_authorities :: "escrow_create_operation \<Rightarrow> authority list" where
  "escrow_create_required_authorities op = [(add_authority (ec_buyer op) 1 empty_authority)\<lparr>weight_threshold := 1\<rparr>]"

definition escrow_create_required_active :: "escrow_create_operation \<Rightarrow> account_id fset" where
  "escrow_create_required_active op = {|ec_buyer op|}"

definition escrow_release_required_authorities :: "escrow_close_operation \<Rightarrow> authority list" where
  "escrow_release_required_authorities op =
     [(add_authority (es_escrow_account op) 1 (add_authority (es_buyer_account op) 1 empty_authority))\<lparr>weight_threshold := 1\<rparr>]"

definition escrow_return_required_authorities :: "escrow_close_operation \<Rightarrow> authority list" where
  "escrow_return_required_authorities op =
     [(add_authority (es_escrow_account op) 1 (add_authority (es_seller_account op) 1 empty_authority))\<lparr>weight_threshold := 1\<rparr>]"

definition escrow_extend_required_active :: "escrow_extend_operation \<Rightarrow> account_id fset" where
  "escrow_extend_required_active op = {|ee_seller_account op, ee_buyer_account op|}"

definition escrow_create_ob_fee ::
  "fc_lib \<Rightarrow> database \<Rightarrow> escrow_create_operation \<Rightarrow> omnibazaar_fee_type result" where
  "escrow_create_ob_fee F d op =
     ebind (get_account d (ec_escrow op)) (\<lambda>agent.
     ebind (cut_fee F (amount (ec_amount op)) (acc_escrow_fee agent)) (\<lambda>cut.
     let fees = no_ob_fee\<lparr>escrow_fee := positive_fee cut (asset_id (ec_amount op))\<rparr> in
     case ec_listing op of
       None \<Rightarrow> Inr fees
     | Some i \<Rightarrow>
         ebind (get_listing d i) (\<lambda>l.
         set_sale_fees F d l (ec_amount op) (ec_buyer op) (ec_seller op) fees)))"

subsection \<open>The agents an account accepts implicitly\<close>

definition add_if_escrow :: "database \<Rightarrow> account_id \<Rightarrow> account_id set \<Rightarrow> account_id set result" where
  "add_if_escrow d a s =
     ebind (get_account d a) (\<lambda>acc. Inr (if is_an_escrow acc then insert a s else s))"

definition find_witness_by_vote :: "database \<Rightarrow> nat \<Rightarrow> witness_object option" where
  "find_witness_by_vote d vote =
     map_option snd (List.find (\<lambda>(_, w). witness_vote_id w = vote) (sorted_list_of_fmap (objs (witnesses d))))"

definition get_implicit_escrows :: "database \<Rightarrow> account_id \<Rightarrow> account_id set result" where
  "get_implicit_escrows d target =
     ebind (get_account d target) (\<lambda>acc.
     ebind (if active_witness (implicit_escrow_options acc)
            then efold (\<lambda>wid s. ebind (tbl_get (witnesses d) wid) (\<lambda>w. add_if_escrow d (witness_account w) s))
                   (active_witnesses d) {}
            else Inr {}) (\<lambda>s1.
     ebind (if voted_witness (implicit_escrow_options acc)
            then efold (\<lambda>vote s. case find_witness_by_vote d vote of
                     None \<Rightarrow> Inr s
                   | Some w \<Rightarrow> add_if_escrow d (witness_account w) s) (acc_votes acc) s1
            else Inr s1) (\<lambda>s2.
     if positive_rating (implicit_escrow_options acc)
     then ebind (tbl_get (statistics d) (acc_statistics acc)) (\<lambda>stats.
          efold (add_if_escrow d) (sorted_list_of_fset (my_reputation_votes stats)) s2)
     else Inr s2)))"

subsection \<open>Create\<close>

definition acceptable_escrows :: "database \<Rightarrow> account_id \<Rightarrow> account_id set result" where
  "acceptable_escrows d a =
     ebind (get_account d a) (\<lambda>acc. emap (\<lambda>s. acc_escrows acc \<union> s) (get_implicit_escrows d a))"

text \<open>The part of the check that a purchase and an escrow for a purchase share.\<close>

definition sale_check ::
  "fc_lib \<Rightarrow> database \<Rightarrow> nat option \<Rightarrow> 32 word option \<Rightarrow> asset \<Rightarrow> account_id \<Rightarrow> unit result" where
  "sale_check F d listing listing_count amt seller =
     (case listing of
        None \<Rightarrow> Inr ()
      | Some i \<Rightarrow>
          ebind (get_listing d i) (\<lambda>l.
          ebind (the_result listing_count) (\<lambda>n.
          ebind (fc_assert (n \<le> lst_quantity l) ''Insufficient items in stock.'') (\<lambda>_.
          ebind (fc_assert (asset_id amt = asset_id (lst_price l)) ''op.amount.asset_id == listing.price.asset_id'') (\<lambda>_.
          ebind (safe_mul F (amount (lst_price l)) (uint n)) (\<lambda>cost.
          ebind (fc_assert (cost \<le> amount amt) ''Amount is insufficient to buy specified listing.'') (\<lambda>_.
          fc_assert (seller = lst_seller l) ''Transfer destination is not listing seller.'')))))))"

definition escrow_create_evaluate ::
  "fc_lib \<Rightarrow> escrow_create_operation \<Rightarrow> database \<Rightarrow> unit result" where
  "escrow_create_evaluate F op d =
     ebind (acceptable_escrows d (ec_buyer op)) (\<lambda>buyer_escrows.
     ebind (acceptable_escrows d (ec_seller op)) (\<lambda>seller_escrows.
     ebind (fc_assert (ec_escrow op \<in> buyer_escrows) ''Escrow agent is not buyer's acceptable list of agents.'') (\<lambda>_.
     ebind (fc_assert (ec_escrow op \<in> seller_escrows) ''Escrow agent is not seller's acceptable list of agents.'') (\<lambda>_.
     ebind (fc_assert (amount (ec_amount op) \<le> amount (get_balance d (ec_buyer op) (asset_id (ec_amount op))))
              ''Insufficient Balance'') (\<lambda>_.
     ebind (fc_assert (head_block_time d < ec_expiration_time op) ''Escrow has already expired on creation.'') (\<lambda>_.
     ebind (fc_assert (ec_expiration_time op \<le> tps_add F (head_block_time d) (maximum_escrow_lifetime (parameters d)))
              ''Escrow expiration time is too far in the future.'') (\<lambda>_.
     ebind (fc_assert (ec_buyer op |\<in>| finsert (ec_buyer op) (escrow_create_required_active op) \<or>
              (\<exists>a\<in>set (escrow_create_required_authorities op). ec_buyer op |\<in>| fmdom (account_auths a)))
              ''Missing buyer authority for escrow create operation'') (\<lambda>_.
     ebind (sale_check F d (ec_listing op) (ec_listing_count op) (ec_amount op) (ec_seller op)) (\<lambda>_.
     ebind (escrow_create_ob_fee F d op) (\<lambda>required.
     ebind (is_enough (ec_ob_fee op) required) (\<lambda>_.
     ebind (fc_assert (publisher_fee (ec_ob_fee op) = None) ''Escrow does not require publisher fee.'') (\<lambda>_.
     ebind (ob_fee_sum F (ec_ob_fee op)) (\<lambda>total_fee.
     fc_assert (total_fee \<le> amount (ec_amount op)) ''Fees are larger than transfer amount.'')))))))))))))"

definition new_escrow :: "escrow_create_operation \<Rightarrow> escrow_object" where
  "new_escrow op = \<lparr>esc_expiration_time = ec_expiration_time op, esc_buyer = ec_buyer op,
     esc_seller = ec_seller op, esc_escrow = ec_escrow op, esc_amount = ec_amount op,
     esc_transfer_to_escrow = ec_transfer_to_escrow op, esc_listing = ec_listing op,
     esc_listing_count = ec_listing_count op, esc_ob_fee = ec_ob_fee op\<rparr>"

text \<open>\<^verbatim>\<open>listing.quantity -= count\<close>, in 32 bits.\<close>

definition take_items :: "nat option \<Rightarrow> 32 word option \<Rightarrow> database \<Rightarrow> database result" where
  "take_items listing listing_count d =
     (case (listing, listing_count) of
        (Some i, Some n) \<Rightarrow> modify_listing d i (\<lambda>l. l\<lparr>lst_quantity := lst_quantity l - n\<rparr>)
      | _ \<Rightarrow> Inr d)"

definition escrow_create_apply ::
  "fc_lib \<Rightarrow> escrow_create_operation \<Rightarrow> database \<Rightarrow> (nat \<times> database) result" where
  "escrow_create_apply F op d =
     ebind (tbl_create no_clash (escrows d) (new_escrow op)) (\<lambda>(i, t).
     ebind (asset_neg F (ec_amount op)) (\<lambda>debit.
     ebind (adjust_balance F (d\<lparr>escrows := t\<rparr>) (ec_buyer op) debit) (\<lambda>d1.
     ebind (if ec_transfer_to_escrow op then adjust_balance F d1 (ec_escrow op) (ec_amount op)
            else Inr d1) (\<lambda>d2.
     ebind (take_items (ec_listing op) (ec_listing_count op) d2) (\<lambda>d3.
     Inr (i, d3))))))"

subsection \<open>Release and return\<close>

text \<open>Both evaluators check the three accounts and, if the agent holds the coins, his balance.\<close>

definition escrow_release_evaluate :: "escrow_close_operation \<Rightarrow> database \<Rightarrow> unit result" where
  "escrow_release_evaluate op d =
     ebind (get_escrow d (es_escrow op)) (\<lambda>e.
     ebind (fc_assert (es_buyer_account op = esc_buyer e) ''Buyer doesn't match initial buyer.'') (\<lambda>_.
     ebind (fc_assert (es_escrow_account op = esc_escrow e) ''Escrow agent doesn't match initial agent.'') (\<lambda>_.
     ebind (fc_assert (es_seller_account op = esc_seller e) ''Seller doesn't match initial seller.'') (\<lambda>_.
     fc_assert (esc_transfer_to_escrow e \<longrightarrow>
         amount (esc_amount e) \<le> amount (get_balance d (es_escrow_account op) (asset_id (esc_amount e))))
       ''Insufficient Balance''))))"

definition escrow_return_evaluate :: "escrow_close_operation \<Rightarrow> database \<Rightarrow> unit result" where
  "escrow_return_evaluate op d =
     ebind (get_escrow d (es_escrow op)) (\<lambda>e.
     ebind (fc_assert (es_seller_account op = esc_seller e) ''Seller doesn't match initial seller.'') (\<lambda>_.
     ebind (fc_assert (es_escrow_account op = esc_escrow e) ''Escrow agent doesn't match initial agent.'') (\<lambda>_.
     ebind (fc_assert (es_buyer_account op = esc_buyer e) ''Buyer doesn't match initial buyer.'') (\<lambda>_.
     fc_assert (esc_transfer_to_escrow e \<longrightarrow>
         amount (esc_amount e) \<le> amount (get_balance d (es_escrow_account op) (asset_id (esc_amount e))))
       ''Insufficient Balance''))))"

text \<open>The three deposits of a sale, each taken off the amount that is left.\<close>

definition deposit_sale_fees ::
  "fc_lib \<Rightarrow> account_id \<Rightarrow> account_id \<Rightarrow> omnibazaar_fee_type \<Rightarrow> share_type \<times> database
    \<Rightarrow> (share_type \<times> database) result" where
  "deposit_sale_fees F buyer seller fees = (\<lambda>(left, d).
     ebind (deposit_fee F d OMNIBAZAAR_FOUNDER_ACCOUNT (omnibazaar_fee fees) Founder_sale_fee) (\<lambda>(x1, d1).
     ebind (safe_sub F left x1) (\<lambda>left1.
     ebind (get_account d1 buyer) (\<lambda>b.
     ebind (deposit_fee F d1 (referrer b) (referrer_buyer_fee fees) Referrer_sale_fee) (\<lambda>(x2, d2).
     ebind (safe_sub F left1 x2) (\<lambda>left2.
     ebind (get_account d2 seller) (\<lambda>s.
     ebind (deposit_fee F d2 (referrer s) (referrer_seller_fee fees) Referrer_sale_fee) (\<lambda>(x3, d3).
     ebind (safe_sub F left2 x3) (\<lambda>left3.
     Inr (left3, d3))))))))))"

text \<open>The coins leave the agent's account if he holds them; then the agent is paid.\<close>

definition collect_escrow ::
  "fc_lib \<Rightarrow> escrow_object \<Rightarrow> database \<Rightarrow> (share_type \<times> database) result" where
  "collect_escrow F e d =
     ebind (if esc_transfer_to_escrow e
            then ebind (asset_neg F (esc_amount e)) (adjust_balance F d (esc_escrow e))
            else Inr d) (\<lambda>d1.
     ebind (deposit_fee F d1 (esc_escrow e) (escrow_fee (esc_ob_fee e)) Escrow_fee_type) (\<lambda>(x, d2).
     ebind (safe_sub F (amount (esc_amount e)) x) (\<lambda>left.
     Inr (left, d2))))"

definition close_votes ::
  "fc_lib \<Rightarrow> escrow_close_operation \<Rightarrow> escrow_object \<Rightarrow> database \<Rightarrow> database result" where
  "close_votes F op e d =
     efold (\<lambda>(who, vote) d'.
         if who = es_fee_paying_account op then Inr d'
         else update_reputation F d' who (es_fee_paying_account op) vote (esc_amount e))
       [(esc_seller e, reputation_vote_for_seller op),
        (esc_buyer e, reputation_vote_for_buyer op),
        (esc_escrow e, reputation_vote_for_escrow op)] d"

definition remove_escrow :: "nat \<Rightarrow> database \<Rightarrow> database" where
  "remove_escrow i d = d\<lparr>escrows := tbl_remove (escrows d) i\<rparr>"

definition escrow_release_apply ::
  "fc_lib \<Rightarrow> escrow_close_operation \<Rightarrow> database \<Rightarrow> (unit \<times> database) result" where
  "escrow_release_apply F op d =
     ebind (get_escrow d (es_escrow op)) (\<lambda>e.
     ebind (collect_escrow F e d) (\<lambda>(left, d1).
     ebind (if esc_listing e \<noteq> None
            then deposit_sale_fees F (esc_buyer e) (esc_seller e) (esc_ob_fee e) (left, d1)
            else Inr (left, d1)) (\<lambda>(left2, d2).
     ebind (adjust_balance F d2 (esc_seller e) (core_asset left2)) (\<lambda>d3.
     ebind (close_votes F op e d3) (\<lambda>d4.
     Inr ((), remove_escrow (es_escrow op) d4))))))"

definition escrow_return_apply ::
  "fc_lib \<Rightarrow> escrow_close_operation \<Rightarrow> database \<Rightarrow> (unit \<times> database) result" where
  "escrow_return_apply F op d =
     ebind (get_escrow d (es_escrow op)) (\<lambda>e.
     ebind (collect_escrow F e d) (\<lambda>(left, d1).
     ebind (adjust_balance F d1 (esc_buyer e) (core_asset left)) (\<lambda>d2.
     ebind (close_votes F op e d2) (\<lambda>d3.
     ebind (case esc_listing e of
              None \<Rightarrow> Inr d3
            | Some i \<Rightarrow>
                ebind (the_result (esc_listing_count e)) (\<lambda>n.
                modify_listing d3 i (\<lambda>l. l\<lparr>lst_quantity := lst_quantity l + n\<rparr>))) (\<lambda>d4.
     Inr ((), remove_escrow (es_escrow op) d4))))))"

subsection \<open>Extend\<close>

definition escrow_extend_evaluate ::
  "fc_lib \<Rightarrow> escrow_extend_operation \<Rightarrow> database \<Rightarrow> unit result" where
  "escrow_extend_evaluate F op d =
     ebind (get_escrow d (ee_escrow op)) (\<lambda>e.
     ebind (fc_assert (ee_seller_account op = esc_seller e) ''Seller doesn't match initial seller.'') (\<lambda>_.
     ebind (fc_assert (ee_escrow_account op = esc_escrow e) ''Escrow agent doesn't match initial agent.'') (\<lambda>_.
     ebind (fc_assert (ee_buyer_account op = esc_buyer e) ''Buyer doesn't match initial buyer.'') (\<lambda>_.
     ebind (fc_assert (head_block_time d < ee_expiration_time op) ''Specified expiration time is in the past.'') (\<lambda>_.
     ebind (fc_assert (ee_expiration_time op \<le> tps_add F (head_block_time d) (maximum_escrow_lifetime (parameters d)))
              ''Escrow expiration time is too far in the future.'') (\<lambda>_.
     fc_assert (ee_expiration_time op \<noteq> esc_expiration_time e)
       ''New expiration time must be different from old value.''))))))"

definition escrow_extend_apply :: "escrow_extend_operation \<Rightarrow> database \<Rightarrow> (unit \<times> database) result" where
  "escrow_extend_apply op d =
     ebind (modify_escrow d (ee_escrow op) (\<lambda>e. e\<lparr>esc_expiration_time := ee_expiration_time op\<rparr>)) (\<lambda>d1.
     Inr ((), d1))"

subsection \<open>The index from accounts to escrows\<close>

type_synonym account_to_escrows = "(account_id, nat fset) fmap"

definition index_add :: "account_id \<Rightarrow> nat \<Rightarrow> account_to_escrows \<Rightarrow> account_to_escrows" where
  "index_add a i m = fmupd a (finsert i (case fmlookup m a of None \<Rightarrow> {||} | Some s \<Rightarrow> s)) m"

definition object_inserted :: "nat \<Rightarrow> escrow_object \<Rightarrow> account_to_escrows \<Rightarrow> account_to_escrows" where
  "object_inserted i e m = index_add (esc_escrow e) i (index_add (esc_seller e) i (index_add (esc_buyer e) i m))"

definition index_remove :: "account_id \<Rightarrow> nat \<Rightarrow> account_to_escrows \<Rightarrow> account_to_escrows" where
  "index_remove a i m =
     (case fmlookup m a of
        None \<Rightarrow> m
      | Some s \<Rightarrow>
          (let s' = s |-| {|i|} in if s' = {||} then fmdrop a m else fmupd a s' m))"

definition object_removed :: "nat \<Rightarrow> escrow_object \<Rightarrow> account_to_escrows \<Rightarrow> account_to_escrows" where
  "object_removed i e m =
     index_remove (esc_escrow e) i (index_remove (esc_seller e) i (index_remove (esc_buyer e) i m))"

section \<open>Lemmas\<close>

subsection \<open>Specification\<close>

text \<open>What the closing operations rely on: escrows hold the core asset, as their validation demands.\<close>

definition core_escrows :: "database \<Rightarrow> bool" where
  "core_escrows d \<longleftrightarrow> (\<forall>i e. tbl_find (escrows d) i = Some e \<longrightarrow> asset_id (esc_amount e) = 0)"

definition sale_fees :: "escrow_object \<Rightarrow> int" where
  "sale_fees e =
     (if esc_listing e = None then 0
      else fee_amount (omnibazaar_fee (esc_ob_fee e)) + fee_amount (referrer_buyer_fee (esc_ob_fee e))
         + fee_amount (referrer_seller_fee (esc_ob_fee e)))"

text \<open>What leaves the agent's balance when an escrow closes.\<close>

definition agent_share :: "escrow_object \<Rightarrow> account_id \<Rightarrow> asset_id_t \<Rightarrow> int" where
  "agent_share e a x =
     (if esc_transfer_to_escrow e \<and> a = esc_escrow e \<and> x = asset_id (esc_amount e) then amount (esc_amount e) else 0)"

subsection \<open>Moving the coins\<close>

lemma get_balance_cong: "balances d' = balances d \<Longrightarrow> get_balance d' a x = get_balance d a x"
  by (simp add: get_balance_def)

lemma remove_escrow_gap:
  "tbl_find (escrows d) i = Some e \<Longrightarrow>
   asset_gap a (remove_escrow i d) =
   asset_gap a d + (if esc_transfer_to_escrow e then 0 else of_asset a (esc_amount e))"
  by (simp add: asset_gap_def held_def asset_dyn_of_def remove_escrow_def tbl_remove_sum)

text \<open>Votes touch the accounts and their statistics, and no coins.\<close>

definition votes_frame :: "database \<Rightarrow> database \<Rightarrow> bool" where
  "votes_frame d d' \<longleftrightarrow> (\<forall>a. asset_gap a d' = asset_gap a d) \<and>
     balances d' = balances d \<and> vestings d' = vestings d \<and> assets d' = assets d \<and> asset_dyn d' = asset_dyn d \<and>
     listings d' = listings d \<and> escrows d' = escrows d \<and> exchanges d' = exchanges d \<and>
     witnesses d' = witnesses d \<and> parameters d' = parameters d \<and> dyn_props d' = dyn_props d \<and>
     active_witnesses d' = active_witnesses d \<and> initial_timestamp d' = initial_timestamp d"

lemma votes_frame_refl: "votes_frame d d"
  by (simp add: votes_frame_def)

lemma votes_frame_trans: "votes_frame a b \<Longrightarrow> votes_frame b c \<Longrightarrow> votes_frame a c"
  by (simp add: votes_frame_def)

context fc_laws
begin

lemma close_votes_frame:
  assumes "close_votes F op e d = Inr d'"
  shows "votes_frame d d'"
  using _ votes_frame_refl votes_frame_trans assms [unfolded close_votes_def]
proof (rule efold_rel)
  fix x :: "nat \<times> nat" and d1 d2
  assume "(\<lambda>(who, vote) d'. if who = es_fee_paying_account op then Inr d'
            else update_reputation F d' who (es_fee_paying_account op) vote (esc_amount e)) x d1 = Inr d2"
  then show "votes_frame d1 d2"
    using votes_frame_refl update_reputation_gap update_reputation_frame
    by (cases x) (fastforce simp: votes_frame_def split: if_splits)
qed

lemma collect_escrow_cases:
  assumes "collect_escrow F e d = Inr (left, d2)"
  obtains d1 where "\<exists>b. d1 = d\<lparr>balances := b\<rparr>" and "deposit_frame d1 d2"
    and "left = amount (esc_amount e) - fee_amount (escrow_fee (esc_ob_fee e))"
    and "\<And>a. assets_ok d \<Longrightarrow> asset_gap a d2 = asset_gap a d + (if esc_transfer_to_escrow e then of_asset a (esc_amount e) else 0)
          - of_asset a (core_asset (fee_amount (escrow_fee (esc_ob_fee e))))"
    and "\<And>a x. amount (get_balance d2 a x) = amount (get_balance d a x) - agent_share e a x"
proof -
  from assms obtain d1 x where
      d1: "(if esc_transfer_to_escrow e then ebind (asset_neg F (esc_amount e)) (adjust_balance F d (esc_escrow e)) else Inr d) = Inr d1"
      and x: "deposit_fee F d1 (esc_escrow e) (escrow_fee (esc_ob_fee e)) Escrow_fee_type = Inr (x, d2)"
      and left: "left = amount (esc_amount e) - x"
    by (auto simp: collect_escrow_def safe_sub)
  have b: "\<exists>b. d1 = d\<lparr>balances := b\<rparr>"
    using d1 by (auto split: if_splits dest: adjust_balance_frame intro: exI [of _ "balances d"])
  note f = deposit_fee_frame [OF x]
  have x': "x = fee_amount (escrow_fee (esc_ob_fee e))"
    using deposit_fee_amount [OF x] by (simp add: fee_amount_def)
  have g1: "asset_gap a d1 = asset_gap a d + (if esc_transfer_to_escrow e then of_asset a (esc_amount e) else 0)" for a
    using d1 by (auto simp: of_asset_def split: if_splits dest!: adjust_balance_gap [where a = a])
  have b1: "amount (get_balance d1 a y) = amount (get_balance d a y) - agent_share e a y" for a y
    using d1 by (auto simp: agent_share_def split: if_splits dest!: adjust_balance_get [where a = a and x = y])
  have "assets_ok d \<Longrightarrow> assets_ok d1" using b by (auto intro: assets_ok_cong [THEN iffD2, rotated])
  then have g2: "asset_gap a d2 = asset_gap a d1 - of_asset a (core_asset x)" if "assets_ok d" for a
    using deposit_fee_gap [OF x] that by blast
  have b2: "get_balance d2 a y = get_balance d1 a y" for a y
    using f by (intro get_balance_cong) (simp add: deposit_frame_def)
  show ?thesis using that [OF b f] left x' g1 g2 b1 b2 by simp
qed

lemma deposit_sale_fees_cases:
  assumes "deposit_sale_fees F buyer seller fees (left, d) = Inr (left', d')"
  shows "deposit_frame d d'"
    and "left' = left - (fee_amount (omnibazaar_fee fees) + fee_amount (referrer_buyer_fee fees)
           + fee_amount (referrer_seller_fee fees))"
    and "assets_ok d \<Longrightarrow> asset_gap a d' = asset_gap a d - of_asset a (core_asset (left - left'))"
proof -
  from assms obtain x1 d1 b x2 d2 s x3 where
      b: "get_account d1 buyer = Inr b" and s: "get_account d2 seller = Inr s"
      and x1: "deposit_fee F d OMNIBAZAAR_FOUNDER_ACCOUNT (omnibazaar_fee fees) Founder_sale_fee = Inr (x1, d1)"
      and x2: "deposit_fee F d1 (referrer b) (referrer_buyer_fee fees) Referrer_sale_fee = Inr (x2, d2)"
      and x3: "deposit_fee F d2 (referrer s) (referrer_seller_fee fees) Referrer_sale_fee = Inr (x3, d')"
      and left': "left' = left - x1 - x2 - x3"
    by (auto simp: deposit_sale_fees_def safe_sub)
  note f1 = deposit_fee_frame [OF x1] and f2 = deposit_fee_frame [OF x2] and f3 = deposit_fee_frame [OF x3]
  from f1 f2 f3 show "deposit_frame d d'" using deposit_frame_trans by blast
  show "left' = left - (fee_amount (omnibazaar_fee fees) + fee_amount (referrer_buyer_fee fees)
           + fee_amount (referrer_seller_fee fees))"
    using left' deposit_fee_amount [OF x1] deposit_fee_amount [OF x2] deposit_fee_amount [OF x3]
    by (simp add: fee_amount_def)
  show "asset_gap a d' = asset_gap a d - of_asset a (core_asset (left - left'))" if "assets_ok d"
  proof -
    have "assets_ok d1" "assets_ok d2" using that f1 f2 by (simp_all add: deposit_frame_assets_ok)
    with that deposit_fee_gap [OF x1, of a] deposit_fee_gap [OF x2, of a] deposit_fee_gap [OF x3, of a] left'
    show ?thesis by (auto simp: of_asset_def)
  qed
qed

end

subsection \<open>Closing an escrow\<close>

text \<open>The last steps of both closing operations: pay \<open>left\<close> to one party, book the votes, and remove
  the escrow from a state that differs from the first one by balances and deposits.\<close>

lemma escrow_kept:
  "d1 = d\<lparr>balances := b\<rparr> \<Longrightarrow> deposit_frame d1 d2 \<Longrightarrow>
   escrows d2 = escrows d \<and> listings d2 = listings d \<and> (assets_ok d \<longrightarrow> assets_ok d2)"
  by (auto simp: deposit_frame_def intro: assets_ok_cong [THEN iffD2, rotated])

context fc_laws
begin

lemma payout_step:
  assumes "adjust_balance F d2 who (core_asset left) = Inr d3" and "close_votes F op e d3 = Inr d4"
  shows "escrows d4 = escrows d2" and "listings d4 = listings d2"
    and "asset_gap a d4 = asset_gap a d2 - of_asset a (core_asset left)"
    and "amount (get_balance d4 a x) = amount (get_balance d2 a x) + (if a = who \<and> x = 0 then left else 0)"
proof -
  note f = close_votes_frame [OF assms(2)] and g = adjust_balance_gap [OF assms(1), of a]
    and b = adjust_balance_get [OF assms(1), of a x]
  have "get_balance d4 a x = get_balance d3 a x"
    using f by (intro get_balance_cong) (simp add: votes_frame_def)
  with f g b adjust_balance_frame [OF assms(1)]
  show "escrows d4 = escrows d2" and "listings d4 = listings d2"
    and "asset_gap a d4 = asset_gap a d2 - of_asset a (core_asset left)"
    and "amount (get_balance d4 a x) = amount (get_balance d2 a x) + (if a = who \<and> x = 0 then left else 0)"
    by (auto simp: votes_frame_def)
qed

lemma escrow_release_result:
  assumes "escrow_release_apply F op d = Inr (u, d')" and "tbl_find (escrows d) (es_escrow op) = Some e"
  shows "escrows d' = tbl_remove (escrows d) (es_escrow op)" and "listings d' = listings d"
    and "amount (get_balance d' a x) = amount (get_balance d a x) - agent_share e a x
          + (if a = esc_seller e \<and> x = 0
             then amount (esc_amount e) - fee_amount (escrow_fee (esc_ob_fee e)) - sale_fees e else 0)"
    and "assets_ok d \<Longrightarrow> asset_id (esc_amount e) = 0 \<Longrightarrow> asset_gap y d' = asset_gap y d"
proof -
  from assms obtain left d1 left2 d2 d3 d4 where
      c: "collect_escrow F e d = Inr (left, d1)"
      and s: "(if esc_listing e \<noteq> None
            then deposit_sale_fees F (esc_buyer e) (esc_seller e) (esc_ob_fee e) (left, d1)
            else Inr (left, d1)) = Inr (left2, d2)"
      and d3: "adjust_balance F d2 (esc_seller e) (core_asset left2) = Inr d3"
      and d4: "close_votes F op e d3 = Inr d4" and d': "d' = remove_escrow (es_escrow op) d4"
    by (auto simp: escrow_release_apply_def get_escrow_def)
  from c obtain d0 where d0: "\<exists>b. d0 = d\<lparr>balances := b\<rparr>" and f0: "deposit_frame d0 d1"
    and left: "left = amount (esc_amount e) - fee_amount (escrow_fee (esc_ob_fee e))"
    and g1: "\<And>a. assets_ok d \<Longrightarrow> asset_gap a d1 = asset_gap a d + (if esc_transfer_to_escrow e then of_asset a (esc_amount e) else 0)
          - of_asset a (core_asset (fee_amount (escrow_fee (esc_ob_fee e))))"
    and b1: "\<And>a x. amount (get_balance d1 a x) = amount (get_balance d a x) - agent_share e a x"
    by (rule collect_escrow_cases) blast
  have s': "deposit_frame d1 d2 \<and> left2 = left - sale_fees e \<and>
      (assets_ok d1 \<longrightarrow> asset_gap y d2 = asset_gap y d1 - of_asset y (core_asset (left - left2)))"
    using s deposit_sale_fees_cases
    by (auto simp: sale_fees_def of_asset_def split: if_splits)
  have k: "escrows d2 = escrows d" "listings d2 = listings d" "assets_ok d \<Longrightarrow> assets_ok d1"
    using d0 f0 s' deposit_frame_trans escrow_kept by blast+
  note p = payout_step [OF d3 d4]
  show "escrows d' = tbl_remove (escrows d) (es_escrow op)" and "listings d' = listings d"
    using p k by (simp_all add: d' remove_escrow_def)
  have b2: "get_balance d2 a x = get_balance d1 a x"
    using s' by (intro get_balance_cong) (simp add: deposit_frame_def)
  have b': "get_balance d' a x = get_balance d4 a x" by (simp add: d' remove_escrow_def get_balance_def)
  show "amount (get_balance d' a x) = amount (get_balance d a x) - agent_share e a x
          + (if a = esc_seller e \<and> x = 0
             then amount (esc_amount e) - fee_amount (escrow_fee (esc_ob_fee e)) - sale_fees e else 0)"
    using p(4) [of a x] b1 b2 b' left s' by simp
  show "asset_gap y d' = asset_gap y d" if "assets_ok d" "asset_id (esc_amount e) = 0"
  proof -
    have "tbl_find (escrows d4) (es_escrow op) = Some e" using p(1) k(1) assms(2) by simp
    from remove_escrow_gap [OF this, of y] p(3) [of y] g1 [OF that(1), of y] s' k(3) [OF that(1)] left that(2)
    show ?thesis by (auto simp: d' of_asset_def)
  qed
qed

end

context fc_laws
begin

lemma escrow_return_result:
  assumes "escrow_return_apply F op d = Inr (u, d')" and "tbl_find (escrows d) (es_escrow op) = Some e"
  shows "escrows d' = tbl_remove (escrows d) (es_escrow op)"
    and "amount (get_balance d' a x) = amount (get_balance d a x) - agent_share e a x
          + (if a = esc_buyer e \<and> x = 0
             then amount (esc_amount e) - fee_amount (escrow_fee (esc_ob_fee e)) else 0)"
    and "assets_ok d \<Longrightarrow> asset_id (esc_amount e) = 0 \<Longrightarrow> asset_gap y d' = asset_gap y d"
    and "case esc_listing e of None \<Rightarrow> listings d' = listings d
         | Some i \<Rightarrow> (\<exists>n l. esc_listing_count e = Some n \<and> tbl_find (listings d) i = Some l \<and>
             (\<forall>j. tbl_find (listings d') j = (if j = i then Some (l\<lparr>lst_quantity := lst_quantity l + n\<rparr>)
                else tbl_find (listings d) j)))"
proof -
  from assms obtain left d1 d2 d3 d4 where
      c: "collect_escrow F e d = Inr (left, d1)"
      and d2: "adjust_balance F d1 (esc_buyer e) (core_asset left) = Inr d2"
      and d3: "close_votes F op e d2 = Inr d3"
      and d4: "(case esc_listing e of None \<Rightarrow> Inr d3 | Some i \<Rightarrow>
                ebind (the_result (esc_listing_count e)) (\<lambda>n.
                modify_listing d3 i (\<lambda>l. l\<lparr>lst_quantity := lst_quantity l + n\<rparr>))) = Inr d4"
      and d': "d' = remove_escrow (es_escrow op) d4"
    by (auto simp: escrow_return_apply_def get_escrow_def)
  from c obtain d0 where d0: "\<exists>b. d0 = d\<lparr>balances := b\<rparr>" and f0: "deposit_frame d0 d1"
    and left: "left = amount (esc_amount e) - fee_amount (escrow_fee (esc_ob_fee e))"
    and g1: "\<And>a. assets_ok d \<Longrightarrow> asset_gap a d1 = asset_gap a d + (if esc_transfer_to_escrow e then of_asset a (esc_amount e) else 0)
          - of_asset a (core_asset (fee_amount (escrow_fee (esc_ob_fee e))))"
    and b1: "\<And>a x. amount (get_balance d1 a x) = amount (get_balance d a x) - agent_share e a x"
    by (rule collect_escrow_cases) blast
  have k: "escrows d1 = escrows d" "listings d1 = listings d"
    using d0 f0 escrow_kept by blast+
  note p = payout_step [OF d2 d3]
  have m: "escrows d4 = escrows d3" "balances d4 = balances d3" "asset_gap y d4 = asset_gap y d3"
    using d4 by (auto simp: modify_listing_def split: option.splits intro: asset_gap_cong)
  show "escrows d' = tbl_remove (escrows d) (es_escrow op)"
    using p(1) k(1) m(1) by (simp add: d' remove_escrow_def)
  have "get_balance d' a x = get_balance d3 a x"
    using m(2) by (intro get_balance_cong) (simp add: d' remove_escrow_def)
  with p(4) [of a x] b1 left
  show "amount (get_balance d' a x) = amount (get_balance d a x) - agent_share e a x
          + (if a = esc_buyer e \<and> x = 0
             then amount (esc_amount e) - fee_amount (escrow_fee (esc_ob_fee e)) else 0)" by simp
  have e4: "tbl_find (escrows d4) (es_escrow op) = Some e" using p(1) k(1) m(1) assms(2) by simp
  show "asset_gap y d' = asset_gap y d" if "assets_ok d" "asset_id (esc_amount e) = 0"
    using remove_escrow_gap [OF e4, of y] p(3) [of y] m(3) g1 [OF that(1), of y] left that(2)
    by (auto simp: d' of_asset_def)
  have l3: "listings d3 = listings d" using p(2) k(2) by simp
  show "case esc_listing e of None \<Rightarrow> listings d' = listings d
         | Some i \<Rightarrow> (\<exists>n l. esc_listing_count e = Some n \<and> tbl_find (listings d) i = Some l \<and>
             (\<forall>j. tbl_find (listings d') j = (if j = i then Some (l\<lparr>lst_quantity := lst_quantity l + n\<rparr>)
                else tbl_find (listings d) j)))"
  proof (cases "esc_listing e")
    case None
    with d4 l3 show ?thesis by (simp add: d' remove_escrow_def)
  next
    case (Some i)
    with d4 obtain n t where n: "esc_listing_count e = Some n"
      and t: "tbl_modify listing_clash (listings d) i (\<lambda>l. l\<lparr>lst_quantity := lst_quantity l + n\<rparr>) = Inr t"
      and l4: "listings d4 = t"
      using l3 by (auto simp: modify_listing_def)
    from tbl_modify_exists [OF t] obtain l where l: "tbl_find (listings d) i = Some l" ..
    with Some n l4 tbl_modify_find [OF t] show ?thesis by (simp add: d' remove_escrow_def)
  qed
qed

end

subsection \<open>Opening an escrow\<close>

lemma create_escrow_gap:
  "tbl_create no_clash (escrows d) e = Inr (i, t) \<Longrightarrow>
   asset_gap a (d\<lparr>escrows := t\<rparr>) =
   asset_gap a d - (if esc_transfer_to_escrow e then 0 else of_asset a (esc_amount e))"
  by (simp add: asset_gap_def held_def asset_dyn_of_def tbl_create_sum)

lemma take_items_result:
  assumes "take_items listing listing_count d = Inr d'"
  shows "asset_gap a d' = asset_gap a d" and "balances d' = balances d" and "escrows d' = escrows d"
    and "tbl_find (listings d') j = map_option (\<lambda>l. if listing = Some j \<and> listing_count \<noteq> None
      then l\<lparr>lst_quantity := lst_quantity l - the listing_count\<rparr> else l) (tbl_find (listings d) j)"
  using assms
  by (auto simp: take_items_def modify_listing_def tbl_modify_find option.map_ident [unfolded id_def]
      split: option.splits intro: asset_gap_cong)

context fc_laws
begin

lemma escrow_create_result:
  assumes "escrow_create_apply F op d = Inr (i, d')"
  shows "\<forall>j. tbl_find (escrows d') j = (if j = i then Some (new_escrow op) else tbl_find (escrows d) j)"
    and "tbl_find (escrows d) i = None"
    and "amount (get_balance d' a x) = amount (get_balance d a x)
      - (if a = ec_buyer op \<and> x = asset_id (ec_amount op) then amount (ec_amount op) else 0)
      + agent_share (new_escrow op) a x"
    and "asset_gap y d' = asset_gap y d"
    and "tbl_find (listings d') j = map_option (\<lambda>l. if ec_listing op = Some j \<and> ec_listing_count op \<noteq> None
      then l\<lparr>lst_quantity := lst_quantity l - the (ec_listing_count op)\<rparr> else l) (tbl_find (listings d) j)"
proof -
  from assms obtain t debit d1 d2 where
      t: "tbl_create no_clash (escrows d) (new_escrow op) = Inr (i, t)"
      and n: "asset_neg F (ec_amount op) = Inr debit"
      and d1: "adjust_balance F (d\<lparr>escrows := t\<rparr>) (ec_buyer op) debit = Inr d1"
      and d2: "(if ec_transfer_to_escrow op then adjust_balance F d1 (ec_escrow op) (ec_amount op) else Inr d1) = Inr d2"
      and d3: "take_items (ec_listing op) (ec_listing_count op) d2 = Inr d'"
    by (auto simp: escrow_create_apply_def)
  note it = take_items_result [OF d3] and f1 = adjust_balance_frame [OF d1]
  have f2: "\<exists>b. d2 = d1\<lparr>balances := b\<rparr>"
    using d2 by (auto split: if_splits dest: adjust_balance_frame intro: exI [of _ "balances d1"])
  show "\<forall>j. tbl_find (escrows d') j = (if j = i then Some (new_escrow op) else tbl_find (escrows d) j)"
    using it(3) f1 f2 tbl_create_find [OF t] by auto
  show "tbl_find (escrows d) i = None" by (rule tbl_create_fresh [OF t])
  show "tbl_find (listings d') j = map_option (\<lambda>l. if ec_listing op = Some j \<and> ec_listing_count op \<noteq> None
      then l\<lparr>lst_quantity := lst_quantity l - the (ec_listing_count op)\<rparr> else l) (tbl_find (listings d) j)"
    using it(4) [of j] f1 f2 by auto
  have "get_balance d' a x = get_balance d2 a x" using it(2) by (rule get_balance_cong)
  moreover have "get_balance (d\<lparr>escrows := t\<rparr>) a x = get_balance d a x" by (simp add: get_balance_def)
  moreover have "amount (get_balance d2 a x) = amount (get_balance d1 a x) + agent_share (new_escrow op) a x"
    using d2 by (auto simp: agent_share_def new_escrow_def split: if_splits dest!: adjust_balance_get [where a = a and x = x])
  ultimately show "amount (get_balance d' a x) = amount (get_balance d a x)
      - (if a = ec_buyer op \<and> x = asset_id (ec_amount op) then amount (ec_amount op) else 0)
      + agent_share (new_escrow op) a x"
    using adjust_balance_get [OF d1, of a x] n by auto
  have "asset_gap y d2 = asset_gap y d1 - (if ec_transfer_to_escrow op then of_asset y (ec_amount op) else 0)"
    using d2 by (auto split: if_splits dest!: adjust_balance_gap [where a = y])
  then show "asset_gap y d' = asset_gap y d"
    using it(1) [of y] adjust_balance_gap [OF d1, of y] create_escrow_gap [OF t, of y] n
    by (auto simp: of_asset_def new_escrow_def)
qed

end

subsection \<open>The index\<close>

definition party :: "escrow_object \<Rightarrow> account_id \<Rightarrow> bool" where
  "party e a \<longleftrightarrow> a = esc_buyer e \<or> a = esc_seller e \<or> a = esc_escrow e"

definition indexed :: "account_to_escrows \<Rightarrow> account_id \<Rightarrow> nat \<Rightarrow> bool" where
  "indexed m a i \<longleftrightarrow> (\<exists>s. fmlookup m a = Some s \<and> i |\<in>| s)"

definition no_empty_sets :: "account_to_escrows \<Rightarrow> bool" where
  "no_empty_sets m \<longleftrightarrow> (\<forall>a. fmlookup m a \<noteq> Some {||})"

text \<open>The index lists exactly the escrows of the table that an account takes part in.\<close>

definition index_exact :: "escrow_object table \<Rightarrow> account_to_escrows \<Rightarrow> bool" where
  "index_exact t m \<longleftrightarrow> no_empty_sets m \<and>
     (\<forall>a i. indexed m a i \<longleftrightarrow> (\<exists>e. tbl_find t i = Some e \<and> party e a))"

lemma index_add_indexed: "indexed (index_add a i m) b j \<longleftrightarrow> indexed m b j \<or> (b = a \<and> j = i)"
  by (auto simp: indexed_def index_add_def split: option.splits)

lemma index_add_no_empty: "no_empty_sets m \<Longrightarrow> no_empty_sets (index_add a i m)"
  by (simp add: no_empty_sets_def index_add_def)

lemma index_remove_indexed: "indexed (index_remove a i m) b j \<longleftrightarrow> indexed m b j \<and> \<not> (b = a \<and> j = i)"
  by (auto simp: indexed_def index_remove_def Let_def split: option.splits)

lemma index_remove_no_empty: "no_empty_sets m \<Longrightarrow> no_empty_sets (index_remove a i m)"
  by (simp add: no_empty_sets_def index_remove_def Let_def split: option.splits)

lemmas index_facts = index_add_indexed index_add_no_empty index_remove_indexed index_remove_no_empty

lemma object_inserted_exact:
  assumes "index_exact t m" and "tbl_create c t e = Inr (i, t')"
  shows "index_exact t' (object_inserted i e m)"
proof -
  have "tbl_find t' j = (if j = i then Some e else tbl_find t j)" "tbl_find t i = None" for j
    using tbl_create_find [OF assms(2)] tbl_create_fresh [OF assms(2)] by auto
  with assms(1) show ?thesis
    by (auto simp: index_exact_def object_inserted_def index_facts party_def)
qed

lemma object_removed_exact:
  "index_exact t m \<Longrightarrow> tbl_find t i = Some e \<Longrightarrow> index_exact (tbl_remove t i) (object_removed i e m)"
  by (auto simp: index_exact_def object_removed_def index_facts party_def tbl_remove_find)

subsection \<open>A sale\<close>

definition sale_db :: database where
  "sale_db = sample_db\<lparr>listings := \<lparr>next_id = 1, objs = fmupd 0 \<lparr>lst_seller = 7, lst_publisher = 9,
       lst_price = core_asset 100, lst_hash = ''h'', lst_quantity = 5, lst_expiration_time = 1570000000,
       seller_score = 20, reported_score = 0, reported_accounts = {}, lst_priority_fee = 50,
       created_at = 0, updated_at = 0\<rparr> fmempty\<rparr>\<rparr>"

definition sale_escrow :: escrow_create_operation where
  "sale_escrow = \<lparr>ec_fee = core_asset 0,
     ec_ob_fee = no_ob_fee\<lparr>escrow_fee := Some (core_asset 2), omnibazaar_fee := Some (core_asset 1)\<rparr>,
     ec_expiration_time = 1560001000, ec_buyer = 6, ec_seller = 7, ec_escrow = 8,
     ec_amount = core_asset 200, ec_transfer_to_escrow = False, ec_memo_size = None,
     ec_listing = Some 0, ec_listing_count = Some 2\<rparr>"

definition sale_close :: escrow_close_operation where
  "sale_close = \<lparr>es_fee = core_asset 0, es_fee_paying_account = 6, es_escrow = 0, es_buyer_account = 6,
     es_escrow_account = 8, es_seller_account = 7, es_memo_size = None, reputation_vote_for_seller = 5,
     reputation_vote_for_buyer = 5, reputation_vote_for_escrow = 5\<rparr>"

lemmas sale_eval =
  sale_db_def sale_escrow_def sale_close_def no_ob_fee_def listing_clash_def no_clash_def
  escrow_create_evaluate_def escrow_create_apply_def escrow_create_ob_fee_def new_escrow_def take_items_def
  acceptable_escrows_def get_implicit_escrows_def sale_check_def is_enough_def fee_covers_def positive_fee_def
  ob_fee_sum_def fee_amount_def set_sale_fees_def cut_fee_def GRAPHENE_100_PERCENT_def
  get_balance_def adjust_balance_def asset_neg_def asset_ge_def asset_less_def checked_fc_def safe_check_def in_int64_def

lemma sale_create_validated: "escrow_create_validate sale_escrow = Inr ()"
  by (simp add: escrow_create_validate_def sale_escrow_def)

lemma sale_fee: "escrow_create_ob_fee checked_fc sale_db sale_escrow =
    Inr (no_ob_fee\<lparr>escrow_fee := Some (core_asset 2), omnibazaar_fee := Some (core_asset 1)\<rparr>)"
  by (simp add: sale_eval sample_eval)

lemma sale_agents: "acceptable_escrows sale_db 6 = Inr {8}" "acceptable_escrows sale_db 7 = Inr {8}"
  by (simp_all add: sale_eval sample_eval)

lemma sale_create_evaluated: "escrow_create_evaluate checked_fc sale_escrow sale_db = Inr ()"
proof -
  have "sale_check checked_fc sale_db (Some 0) (Some 2) (core_asset 200) 7 = Inr ()"
    by (simp add: sale_check_def sale_db_def get_listing_def tbl_eval checked_fc_def safe_check_def in_int64_def)
  moreover have "ob_fee_sum checked_fc (ec_ob_fee sale_escrow) = Inr 3"
    by (simp add: ob_fee_sum_def sale_escrow_def no_ob_fee_def fee_amount_def checked_fc_def safe_check_def in_int64_def)
  moreover have "get_balance sale_db 6 0 = core_asset 8000" "head_block_time sale_db = 1560000000"
    "maximum_escrow_lifetime (parameters sale_db) = 86400"
    by (simp_all add: sale_db_def get_balance_def sample_eval)
  moreover have "tps_add checked_fc 1560000000 86400 = 1560086400"
    by (simp add: checked_fc_def)
  ultimately show ?thesis
    using sale_fee sale_agents
    by (simp add: escrow_create_evaluate_def sale_escrow_def escrow_create_required_active_def
        is_enough_def fee_covers_def no_ob_fee_def asset_ge_def asset_less_def)
qed

text \<open>The state after the escrow is opened: the buyer's coins and two items are taken.\<close>

definition open_db :: database where
  "open_db = sale_db\<lparr>
     balances := fmupd (6, 0) 7800 (fmupd (7, 0) 1000 fmempty),
     listings := \<lparr>next_id = 1, objs = fmupd 0 (the (tbl_find (listings sale_db) 0)\<lparr>lst_quantity := 3\<rparr>) fmempty\<rparr>,
     escrows := \<lparr>next_id = 1, objs = fmupd 0 (new_escrow sale_escrow) fmempty\<rparr>\<rparr>"

lemma sale_applied: "escrow_create_apply checked_fc sale_escrow sale_db = Inr (0, open_db)"
  by (simp add: sale_eval sample_eval open_db_def)

lemmas close_eval =
  open_db_def sale_db_def sale_escrow_def sale_close_def no_ob_fee_def new_escrow_def
  collect_escrow_def deposit_sale_fees_def close_votes_def OMNIBAZAAR_FOUNDER_ACCOUNT_def
  deposit_fee_def deposit_cashback_def is_chain_account_def get_type_vb_def set_type_vb_def deposit_lazy_vesting_def
  create_vesting_def wrap64_def update_reputation_def put_vote_def OMNIBAZAAR_REPUTATION_DEFAULT_def
  listing_clash_def no_clash_def
  get_balance_def adjust_balance_def asset_neg_def asset_ge_def asset_less_def checked_fc_def safe_check_def in_int64_def

lemma sale_released: "is_ok (escrow_release_apply checked_fc sale_close open_db)"
  by (simp add: escrow_release_apply_def close_eval sample_eval)

lemma sale_returned: "is_ok (escrow_return_apply checked_fc sale_close open_db)"
  by (simp add: escrow_return_apply_def close_eval sample_eval)

section \<open>Properties\<close>

text \<open>C14. Releasing an escrow pays the seller exactly the locked amount less the agent's fee and, for a
  sale, the fees of the sale; the agent loses what he held for the parties, no other balance changes,
  and the escrow is gone.\<close>

theorem escrow_release_pays:
  assumes "fc_laws F" and "escrow_release_evaluate op d = Inr u" and "escrow_release_apply F op d = Inr (v, d')"
    and "es_seller_account op \<noteq> es_escrow_account op"
  shows "\<exists>e. tbl_find (escrows d) (es_escrow op) = Some e \<and> tbl_find (escrows d') (es_escrow op) = None \<and>
    amount (get_balance d' (es_seller_account op) 0) = amount (get_balance d (es_seller_account op) 0)
      + amount (esc_amount e) - fee_amount (escrow_fee (esc_ob_fee e)) - sale_fees e \<and>
    (\<forall>a x. (a, x) \<noteq> (es_seller_account op, 0) \<longrightarrow>
       amount (get_balance d' a x) = amount (get_balance d a x) - agent_share e a x)"
proof -
  from assms(2) obtain e where e: "tbl_find (escrows d) (es_escrow op) = Some e"
    and p: "es_seller_account op = esc_seller e" "es_escrow_account op = esc_escrow e"
    by (auto simp: escrow_release_evaluate_def get_escrow_def)
  note r = fc_laws.escrow_release_result [OF assms(1,3) e]
  from r(1) have "tbl_find (escrows d') (es_escrow op) = None" by (simp add: tbl_remove_find)
  with e r(3) assms(4) p show ?thesis by (auto simp: agent_share_def)
qed

theorem escrow_release_pays_witness:
  "\<exists>d'. escrow_release_apply checked_fc sale_close open_db = Inr ((), d') \<and>
     amount (get_balance d' 7 0) = 1197 \<and> amount (get_balance d' 6 0) = 7800"
proof -
  from sale_released [unfolded is_ok_iff] obtain r where "escrow_release_apply checked_fc sale_close open_db = Inr r" ..
  then obtain d' where a: "escrow_release_apply checked_fc sale_close open_db = Inr ((), d')" by (cases r) auto
  have e: "escrow_release_evaluate sale_close open_db = Inr ()"
    by (simp add: escrow_release_evaluate_def sale_close_def open_db_def get_escrow_def tbl_eval new_escrow_def sale_escrow_def)
  have o: "tbl_find (escrows open_db) (es_escrow sale_close) = Some (new_escrow sale_escrow)"
    by (simp add: open_db_def sale_close_def tbl_eval)
  from escrow_release_pays [OF checked.fc_laws_axioms e a] a o show ?thesis
    by (simp add: sale_close_def open_db_def get_balance_def new_escrow_def sale_escrow_def no_ob_fee_def
        fee_amount_def sale_fees_def agent_share_def)
qed

text \<open>C24. Opening an escrow and returning it at once undoes the purchase: every listing, with its 32-bit
  quantity, and every other escrow is as before, and the only balance that has changed is the buyer's,
  by the agent's fee.\<close>

theorem escrow_create_return_roundtrip:
  assumes "fc_laws F" and "escrow_create_validate op = Inr w" and "escrow_create_apply F op d = Inr (i, d1)"
    and "escrow_return_apply F cop d1 = Inr (v, d2)" and "es_escrow cop = i"
  shows "(\<forall>j. tbl_find (escrows d2) j = tbl_find (escrows d) j) \<and>
    (\<forall>j. tbl_find (listings d2) j = tbl_find (listings d) j) \<and>
    (\<forall>a x. amount (get_balance d2 a x) = amount (get_balance d a x)
       - (if a = ec_buyer op \<and> x = 0 then fee_amount (escrow_fee (ec_ob_fee op)) else 0))"
proof (intro conjI allI)
  let ?e = "new_escrow op"
  note c = fc_laws.escrow_create_result [OF assms(1,3)]
  have e: "tbl_find (escrows d1) (es_escrow cop) = Some ?e" using c(1) assms(5) by simp
  note r = fc_laws.escrow_return_result [OF assms(1,4) e]
  from assms(2) have core: "asset_id (ec_amount op) = 0" and cnt: "ec_listing op \<noteq> None \<Longrightarrow> ec_listing_count op \<noteq> None"
    by (auto simp: escrow_create_validate_def)
  show "tbl_find (escrows d2) j = tbl_find (escrows d) j" for j
    using r(1) c(1,2) assms(5) by (simp add: tbl_remove_find)
  show "amount (get_balance d2 a x) = amount (get_balance d a x)
       - (if a = ec_buyer op \<and> x = 0 then fee_amount (escrow_fee (ec_ob_fee op)) else 0)" for a x
    using r(2) [of a x] c(3) [of a x] core by (auto simp: new_escrow_def)
  show "tbl_find (listings d2) j = tbl_find (listings d) j" for j
  proof (cases "ec_listing op")
    case None
    with r(4) c(5) [of j] show ?thesis by (simp add: new_escrow_def option.map_ident)
  next
    case (Some l)
    then obtain n where n: "ec_listing_count op = Some n" using cnt by auto
    from Some n r(4) obtain x where x: "tbl_find (listings d1) l = Some x"
      and l2: "\<And>j. tbl_find (listings d2) j = (if j = l then Some (x\<lparr>lst_quantity := lst_quantity x + n\<rparr>)
        else tbl_find (listings d1) j)"
      by (auto simp: new_escrow_def)
    from x c(5) [of l] Some n obtain y where "tbl_find (listings d) l = Some y" "x = y\<lparr>lst_quantity := lst_quantity y - n\<rparr>"
      by auto
    with l2 [of j] c(5) [of j] Some show ?thesis by (auto simp: option.map_ident)
  qed
qed

theorem escrow_create_return_roundtrip_witness:
  "\<exists>d1 d2. escrow_create_apply checked_fc sale_escrow sale_db = Inr (0, d1) \<and>
     escrow_return_apply checked_fc sale_close d1 = Inr ((), d2) \<and>
     amount (get_balance d2 6 0) = 7998 \<and> map_option lst_quantity (tbl_find (listings d2) 0) = Some 5"
proof -
  from sale_returned [unfolded is_ok_iff] obtain r where "escrow_return_apply checked_fc sale_close open_db = Inr r" ..
  then obtain d2 where a: "escrow_return_apply checked_fc sale_close open_db = Inr ((), d2)" by (cases r) auto
  have "es_escrow sale_close = 0" by (simp add: sale_close_def)
  from escrow_create_return_roundtrip [OF checked.fc_laws_axioms sale_create_validated sale_applied a this] sale_applied a
  show ?thesis
    by (auto simp: sale_escrow_def no_ob_fee_def fee_amount_def get_balance_def sale_db_def sample_db_fields tbl_find_def)
qed

text \<open>The fees an escrow carries never exceed what it locks: once the checks of \<^verbatim>\<open>escrow_create\<close> have
  passed and no fee is negative, both what a release pays the seller and what a return pays the buyer
  lie between nothing and the amount.\<close>

theorem escrow_payout_bounds:
  assumes "fc_laws F" and "escrow_create_evaluate F op d = Inr u"
    and "\<forall>f \<in> set (fee_fields (ec_ob_fee op)). 0 \<le> fee_amount f"
  shows "let e = new_escrow op; locked = amount (esc_amount e); agent = fee_amount (escrow_fee (esc_ob_fee e)) in
    0 \<le> locked - agent - sale_fees e \<and> locked - agent - sale_fees e \<le> locked - agent \<and> locked - agent \<le> locked"
proof -
  from assms(2) obtain s where s: "ob_fee_sum F (ec_ob_fee op) = Inr s" and "s \<le> amount (ec_amount op)"
    by (auto simp: escrow_create_evaluate_def)
  with assms(3) fc_laws.ob_fee_sum_eq_Inr [OF assms(1) s] show ?thesis
    by (auto simp: Let_def new_escrow_def sale_fees_def fee_fields_def)
qed

theorem escrow_payout_bounds_witness:
  "0 \<le> amount (esc_amount (new_escrow sale_escrow)) - fee_amount (escrow_fee (ec_ob_fee sale_escrow))
     - sale_fees (new_escrow sale_escrow)"
proof -
  have "\<forall>f \<in> set (fee_fields (ec_ob_fee sale_escrow)). 0 \<le> fee_amount f"
    by (simp add: sale_escrow_def fee_fields_def no_ob_fee_def fee_amount_def)
  from escrow_payout_bounds [OF checked.fc_laws_axioms sale_create_evaluated this] show ?thesis
    by (simp add: Let_def new_escrow_def)
qed

text \<open>C25. The secondary index of escrows is exact: if it lists for every account precisely the open
  escrows the account takes part in, it does so after an escrow is created and after one is removed.\<close>

theorem escrow_index_stays_exact:
  assumes "index_exact t m"
  shows "(tbl_create no_clash t e = Inr (i, t') \<longrightarrow> index_exact t' (object_inserted i e m)) \<and>
    (tbl_find t j = Some f \<longrightarrow> index_exact (tbl_remove t j) (object_removed j f m))"
  using object_inserted_exact [OF assms] object_removed_exact [OF assms] by blast

theorem escrow_index_stays_exact_witness:
  "index_exact (escrows open_db) (object_inserted 0 (new_escrow sale_escrow) fmempty) \<and>
   indexed (object_inserted 0 (new_escrow sale_escrow) fmempty) 8 0"
proof -
  have "index_exact empty_table fmempty" by (simp add: index_exact_def no_empty_sets_def indexed_def)
  moreover have "tbl_create no_clash empty_table (new_escrow sale_escrow) = Inr (0, escrows open_db)"
    by (simp add: open_db_def empty_table_def tbl_create_def tbl_insert_def no_clash_def)
  ultimately have "index_exact (escrows open_db) (object_inserted 0 (new_escrow sale_escrow) fmempty)"
    using escrow_index_stays_exact by blast
  then show ?thesis by (simp add: object_inserted_def index_add_indexed new_escrow_def sale_escrow_def)
qed

text \<open>C26. An escrow for a listing that is no longer there cannot be returned: \<^verbatim>\<open>escrow_return\<close> throws when
  it looks the listing up, although the listing may have been deleted, banned or removed at expiry
  while the escrow was open.\<close>

theorem escrow_return_needs_listing:
  assumes "tbl_find (escrows d) (es_escrow op) = Some e" and "esc_listing e = Some l"
    and "tbl_find (listings d) l = None" and "fc_laws F"
  shows "\<not> is_ok (escrow_return_apply F op d)"
  using fc_laws.escrow_return_result(4) [OF assms(4) _ assms(1)] assms(2,3)
  by (fastforce simp: is_ok_iff)

theorem escrow_return_needs_listing_witness:
  "\<not> is_ok (escrow_return_apply checked_fc sale_close (open_db\<lparr>listings := empty_table\<rparr>))"
proof -
  let ?d = "open_db\<lparr>listings := empty_table\<rparr>"
  have "tbl_find (escrows ?d) (es_escrow sale_close) = Some (new_escrow sale_escrow)"
    by (simp add: open_db_def sale_close_def tbl_eval)
  moreover have "esc_listing (new_escrow sale_escrow) = Some 0" "tbl_find (listings ?d) 0 = None"
    by (simp_all add: new_escrow_def sale_escrow_def)
  ultimately show ?thesis by (rule escrow_return_needs_listing) (rule checked.fc_laws_axioms)
qed

end
