(* ===== verification/Transfers.thy ===== *)
theory Transfers
  imports Escrow
begin

text \<open>
  \<^verbatim>\<open>protocol/transfer.cpp\<close> and \<^verbatim>\<open>transfer_evaluator.cpp\<close>: a transfer of an asset, which may be the
  purchase of a listing and then pays the fees of the sale out of the amount, and the transfer that
  the issuer of an asset may force.
\<close>

record transfer_operation =
  tr_fee :: asset
  tr_ob_fee :: omnibazaar_fee_type
  tr_from :: account_id
  tr_to :: account_id
  tr_amount :: asset
  tr_memo_size :: "nat option"
  tr_reputation_vote :: nat
  tr_listing :: "nat option"
  tr_listing_count :: "32 word option"

record override_transfer_operation =
  ot_fee :: asset
  ot_issuer :: account_id
  ot_from :: account_id
  ot_to :: account_id
  ot_amount :: asset
  ot_memo_size :: "nat option"

subsection \<open>Validation and fees\<close>

definition transfer_calculate_fee ::
  "fc_lib \<Rightarrow> transfer_operation \<Rightarrow> fee_parameters \<Rightarrow> share_type result" where
  "transfer_calculate_fee F op k =
     add_memo_fee F k (tr_memo_size op)
       (if tr_listing op \<noteq> None then 0 else wrap64 (int (fp_fee k)))"

definition transfer_validate :: "transfer_operation \<Rightarrow> unit result" where
  "transfer_validate op =
     ebind (fc_assert (0 \<le> amount (tr_fee op)) ''fee.amount >= 0'') (\<lambda>_.
     ebind (fc_assert (tr_from op \<noteq> tr_to op) ''from != to'') (\<lambda>_.
     ebind (fc_assert (0 < amount (tr_amount op)) ''amount.amount > 0'') (\<lambda>_.
     ebind (fc_assert (vote_in_range (tr_reputation_vote op)) ''reputation_vote'') (\<lambda>_.
     ebind (fc_assert (tr_listing op \<noteq> None \<longrightarrow> tr_listing_count op \<noteq> None)
              ''Listing ID is specified but count is not.'') (\<lambda>_.
     case tr_listing_count op of
       None \<Rightarrow> Inr ()
     | Some n \<Rightarrow>
         ebind (fc_assert (0 < n) ''(*listing_count) > 0'') (\<lambda>_.
         fc_assert (tr_listing op \<noteq> None) ''Listing count is specified but listing ID is not.''))))))"

definition transfer_ob_fee :: "fc_lib \<Rightarrow> database \<Rightarrow> transfer_operation \<Rightarrow> omnibazaar_fee_type result" where
  "transfer_ob_fee F d op =
     (case tr_listing op of
        None \<Rightarrow> Inr no_ob_fee
      | Some i \<Rightarrow>
          ebind (get_listing d i) (\<lambda>l.
          set_sale_fees F d l (tr_amount op) (tr_from op) (tr_to op) no_ob_fee))"

definition override_transfer_calculate_fee ::
  "fc_lib \<Rightarrow> override_transfer_operation \<Rightarrow> fee_parameters \<Rightarrow> share_type result" where
  "override_transfer_calculate_fee F op k = add_memo_fee F k (ot_memo_size op) (wrap64 (int (fp_fee k)))"

definition override_transfer_validate :: "override_transfer_operation \<Rightarrow> unit result" where
  "override_transfer_validate op =
     ebind (fc_assert (0 \<le> amount (ot_fee op)) ''fee.amount >= 0'') (\<lambda>_.
     ebind (fc_assert (ot_from op \<noteq> ot_to op) ''from != to'') (\<lambda>_.
     ebind (fc_assert (0 < amount (ot_amount op)) ''amount.amount > 0'') (\<lambda>_.
     fc_assert (ot_issuer op \<noteq> ot_from op) ''issuer != from'')))"

subsection \<open>Transfer\<close>

definition transfer_evaluate :: "fc_lib \<Rightarrow> transfer_operation \<Rightarrow> database \<Rightarrow> unit result" where
  "transfer_evaluate F op d =
     (let aid = asset_id (tr_amount op) in
     ebind (get_account d (tr_from op)) (\<lambda>from_account.
     ebind (get_account d (tr_to op)) (\<lambda>to_account.
     ebind (get_asset d aid) (\<lambda>asset_type.
     ebind (fc_assert (is_authorized_asset d from_account aid asset_type) ''transfer_from_account_not_whitelisted'') (\<lambda>_.
     ebind (fc_assert (is_authorized_asset d to_account aid asset_type) ''transfer_to_account_not_whitelisted'') (\<lambda>_.
     ebind (fc_assert (transfer_restricted asset_type \<longrightarrow>
              tr_from op = asset_issuer asset_type \<or> tr_to op = asset_issuer asset_type)
              ''transfer_restricted_transfer_asset'') (\<lambda>_.
     ebind (fc_assert (amount (tr_amount op) \<le> amount (get_balance d (tr_from op) aid)) ''Insufficient Balance'') (\<lambda>_.
     ebind (sale_check F d (tr_listing op) (tr_listing_count op) (tr_amount op) (tr_to op)) (\<lambda>_.
     ebind (transfer_ob_fee F d op) (\<lambda>required.
     ebind (is_enough (tr_ob_fee op) required) (\<lambda>_.
     ebind (fc_assert (publisher_fee (tr_ob_fee op) = None) ''Transfer does not require publsher fee.'') (\<lambda>_.
     ebind (fc_assert (escrow_fee (tr_ob_fee op) = None) ''Transfer does not require escrow fee.'') (\<lambda>_.
     ebind (ob_fee_sum F (tr_ob_fee op)) (\<lambda>total_fee.
     fc_assert (total_fee \<le> amount (tr_amount op)) ''Fees are larger than transfer amount.''))))))))))))))"

text \<open>
  The three deposits of a sale. \<^verbatim>\<open>transfer_amount -= deposit_fee(...)\<close> subtracts an asset: the
  deposited number of core coins, so it throws when the amount is in another asset.
\<close>

definition transfer_sale_fees ::
  "fc_lib \<Rightarrow> transfer_operation \<Rightarrow> asset \<times> database \<Rightarrow> (asset \<times> database) result" where
  "transfer_sale_fees F op = (\<lambda>(left, d).
     ebind (deposit_fee F d OMNIBAZAAR_FOUNDER_ACCOUNT (omnibazaar_fee (tr_ob_fee op)) Founder_sale_fee) (\<lambda>(x1, d1).
     ebind (asset_sub F left (core_asset x1)) (\<lambda>left1.
     ebind (get_account d1 (tr_from op)) (\<lambda>b.
     ebind (deposit_fee F d1 (referrer b) (referrer_buyer_fee (tr_ob_fee op)) Referrer_sale_fee) (\<lambda>(x2, d2).
     ebind (asset_sub F left1 (core_asset x2)) (\<lambda>left2.
     ebind (get_account d2 (tr_to op)) (\<lambda>s.
     ebind (deposit_fee F d2 (referrer s) (referrer_seller_fee (tr_ob_fee op)) Referrer_sale_fee) (\<lambda>(x3, d3).
     ebind (asset_sub F left2 (core_asset x3)) (\<lambda>left3.
     Inr (left3, d3))))))))))"

definition transfer_apply :: "fc_lib \<Rightarrow> transfer_operation \<Rightarrow> database \<Rightarrow> (unit \<times> database) result" where
  "transfer_apply F op d =
     ebind (asset_neg F (tr_amount op)) (\<lambda>debit.
     ebind (adjust_balance F d (tr_from op) debit) (\<lambda>d1.
     ebind (update_reputation F d1 (tr_to op) (tr_from op) (tr_reputation_vote op) (tr_amount op)) (\<lambda>d2.
     ebind (if tr_listing op \<noteq> None \<and> tr_listing_count op \<noteq> None
            then ebind (take_items (tr_listing op) (tr_listing_count op) d2) (\<lambda>d3.
                 transfer_sale_fees F op (tr_amount op, d3))
            else Inr (tr_amount op, d2)) (\<lambda>(left, d4).
     ebind (adjust_balance F d4 (tr_to op) left) (\<lambda>d5.
     Inr ((), d5))))))"

subsection \<open>Override transfer\<close>

definition override_transfer_evaluate :: "override_transfer_operation \<Rightarrow> database \<Rightarrow> unit result" where
  "override_transfer_evaluate op d =
     (let aid = asset_id (ot_amount op) in
     ebind (get_asset d aid) (\<lambda>asset_type.
     ebind (fc_assert (override_authority asset_type) ''override_transfer_not_permitted'') (\<lambda>_.
     ebind (fc_assert (asset_issuer asset_type = ot_issuer op) ''asset_type.issuer == op.issuer'') (\<lambda>_.
     ebind (get_account d (ot_from op)) (\<lambda>from_account.
     ebind (get_account d (ot_to op)) (\<lambda>to_account.
     ebind (fc_assert (is_authorized_asset d to_account aid asset_type) ''is_authorized_asset'') (\<lambda>_.
     ebind (fc_assert (is_authorized_asset d from_account aid asset_type) ''is_authorized_asset'') (\<lambda>_.
     ebind (fc_assert (head_block_time d \<le> HARDFORK_419_TIME \<longrightarrow> is_authorized_asset d from_account aid asset_type)
              ''is_authorized_asset'') (\<lambda>_.
     fc_assert (amount (ot_amount op) \<le> amount (get_balance d (ot_from op) aid)) ''Insufficient Balance'')))))))))"

definition override_transfer_apply ::
  "fc_lib \<Rightarrow> override_transfer_operation \<Rightarrow> database \<Rightarrow> (unit \<times> database) result" where
  "override_transfer_apply F op d =
     ebind (asset_neg F (ot_amount op)) (\<lambda>debit.
     ebind (adjust_balance F d (ot_from op) debit) (\<lambda>d1.
     ebind (adjust_balance F d1 (ot_to op) (ot_amount op)) (\<lambda>d2.
     Inr ((), d2))))"

section \<open>Lemmas\<close>

definition transfer_fees :: "transfer_operation \<Rightarrow> int" where
  "transfer_fees op =
     (if tr_listing op \<noteq> None \<and> tr_listing_count op \<noteq> None
      then fee_amount (omnibazaar_fee (tr_ob_fee op)) + fee_amount (referrer_buyer_fee (tr_ob_fee op))
         + fee_amount (referrer_seller_fee (tr_ob_fee op))
      else 0)"

lemma is_sale_takes_items:
  "take_items listing listing_count d = Inr d' \<Longrightarrow> assets d' = assets d"
  by (auto simp: take_items_def modify_listing_def split: option.splits)

context fc_laws
begin

text \<open>A sale that goes through is in the core asset, and its deposits are those of an escrow.\<close>

lemma transfer_sale_fees_core:
  "transfer_sale_fees F op (left, d) = Inr (left', d') \<Longrightarrow>
   asset_id left = 0 \<and> asset_id left' = 0 \<and>
   deposit_sale_fees F (tr_from op) (tr_to op) (tr_ob_fee op) (amount left, d) = Inr (amount left', d')"
  by (fastforce simp: transfer_sale_fees_def deposit_sale_fees_def asset_sub_def)

lemma transfer_result:
  assumes "transfer_apply F op d = Inr (u, d')"
  shows "amount (get_balance d' a x) = amount (get_balance d a x)
      - (if a = tr_from op \<and> x = asset_id (tr_amount op) then amount (tr_amount op) else 0)
      + (if a = tr_to op \<and> x = asset_id (tr_amount op) then amount (tr_amount op) - transfer_fees op else 0)"
    and "assets_ok d \<Longrightarrow> asset_gap y d' = asset_gap y d"
    and "escrows d' = escrows d"
proof -
  let ?sale = "tr_listing op \<noteq> None \<and> tr_listing_count op \<noteq> None"
  from assms obtain debit d1 d2 left d4 where n: "asset_neg F (tr_amount op) = Inr debit"
    and d1: "adjust_balance F d (tr_from op) debit = Inr d1"
    and d2: "update_reputation F d1 (tr_to op) (tr_from op) (tr_reputation_vote op) (tr_amount op) = Inr d2"
    and d4: "(if ?sale then ebind (take_items (tr_listing op) (tr_listing_count op) d2) (\<lambda>d3.
                 transfer_sale_fees F op (tr_amount op, d3)) else Inr (tr_amount op, d2)) = Inr (left, d4)"
    and d': "adjust_balance F d4 (tr_to op) left = Inr d'"
    by (auto simp: transfer_apply_def)
  note f1 = adjust_balance_frame [OF d1] and f2 = update_reputation_frame [OF d2] and f5 = adjust_balance_frame [OF d']
  have e2: "escrows d2 = escrows d" "balances d2 = balances d1" "assets d2 = assets d" using f1 f2 by auto
  have s: "escrows d4 = escrows d2 \<and> balances d4 = balances d2 \<and> asset_id left = asset_id (tr_amount op)
      \<and> amount left = amount (tr_amount op) - transfer_fees op
      \<and> (assets_ok d2 \<longrightarrow> asset_gap y d4 = asset_gap y d2 - (of_asset y (tr_amount op) - of_asset y left))"
  proof (cases ?sale)
    case False
    with d4 show ?thesis by (auto simp: transfer_fees_def)
  next
    case True
    with d4 obtain d3 where d3: "take_items (tr_listing op) (tr_listing_count op) d2 = Inr d3"
      and t: "transfer_sale_fees F op (tr_amount op, d3) = Inr (left, d4)" by auto
    from transfer_sale_fees_core [OF t] have core: "asset_id (tr_amount op) = 0" "asset_id left = 0"
      and dep: "deposit_sale_fees F (tr_from op) (tr_to op) (tr_ob_fee op) (amount (tr_amount op), d3) = Inr (amount left, d4)"
      by auto
    have ok: "assets_ok d2 \<Longrightarrow> assets_ok d3"
      using is_sale_takes_items [OF d3] by (rule assets_ok_cong [THEN iffD2])
    note r = deposit_sale_fees_cases [OF dep] and k = take_items_result [OF d3]
    from r(1) have fr: "escrows d4 = escrows d3" "balances d4 = balances d3" by (simp_all add: deposit_frame_def)
    have am: "amount left = amount (tr_amount op) - transfer_fees op"
      using True r(2) unfolding transfer_fees_def by simp
    have g: "assets_ok d2 \<longrightarrow> asset_gap y d4 = asset_gap y d2 - (of_asset y (tr_amount op) - of_asset y left)"
      using r(3) [of y] ok k(1) [of y] core by (auto simp: of_asset_def)
    show ?thesis using fr k(2,3) core am g by simp
  qed
  show "escrows d' = escrows d" using f5 s e2 by auto
  have b4: "get_balance d4 a x = get_balance d1 a x" using s e2 by (intro get_balance_cong) simp
  show "amount (get_balance d' a x) = amount (get_balance d a x)
      - (if a = tr_from op \<and> x = asset_id (tr_amount op) then amount (tr_amount op) else 0)
      + (if a = tr_to op \<and> x = asset_id (tr_amount op) then amount (tr_amount op) - transfer_fees op else 0)"
    using adjust_balance_get [OF d', of a x] adjust_balance_get [OF d1, of a x] b4 n s by auto
  show "asset_gap y d' = asset_gap y d" if "assets_ok d"
  proof -
    have "assets_ok d2" using e2(3) that by (rule assets_ok_cong [THEN iffD2])
    with s update_reputation_gap [OF d2, of y] adjust_balance_gap [OF d1, of y] adjust_balance_gap [OF d', of y] n
    show ?thesis by (auto simp: of_asset_def)
  qed
qed

lemma override_transfer_gap:
  "override_transfer_apply F op d = Inr (u, d') \<Longrightarrow> asset_gap y d' = asset_gap y d"
  by (auto simp: override_transfer_apply_def of_asset_def dest!: adjust_balance_gap [where a = y] split: if_splits)

end

lemma transfer_conserving:
  "fc_laws F \<Longrightarrow> conserving_operation (\<lambda>_. True) (transfer_evaluate F op) (transfer_apply F op)"
  by unfold_locales (auto simp: fee_booked_def dest: fc_laws.transfer_result(2))

lemma override_transfer_conserving:
  "fc_laws F \<Longrightarrow> conserving_operation (\<lambda>_. True) (override_transfer_evaluate op) (override_transfer_apply F op)"
  by unfold_locales (auto dest: fc_laws.override_transfer_gap)

definition sale_transfer :: transfer_operation where
  "sale_transfer = \<lparr>tr_fee = core_asset 0, tr_ob_fee = no_ob_fee\<lparr>omnibazaar_fee := Some (core_asset 1)\<rparr>,
     tr_from = 6, tr_to = 7, tr_amount = core_asset 200, tr_memo_size = None, tr_reputation_vote = 5,
     tr_listing = Some 0, tr_listing_count = Some 2\<rparr>"

lemma sale_transferred: "is_ok (transfer_apply checked_fc sale_transfer sale_db)"
  by (simp add: transfer_apply_def sale_transfer_def transfer_sale_fees_def take_items_def asset_sub_def close_eval sample_eval)

section \<open>Properties\<close>

text \<open>C27. A transfer takes exactly the amount from the sender and gives the receiver exactly the amount
  less the fees of a sale; no other balance changes, and no asset is created or destroyed. The comment at
  \<^verbatim>\<open>transfer_operation\<close> promises that the receiver's balance grows by the amount: that is true only of a transfer
  without the fees of a sale. The fee of the operation itself is not part of this step.\<close>

theorem transfer_moves:
  assumes "fc_laws F" and "transfer_validate op = Inr w" and "transfer_apply F op d = Inr (u, d')"
    and "assets_ok d"
  shows "let x = asset_id (tr_amount op) in
    amount (get_balance d' (tr_from op) x) = amount (get_balance d (tr_from op) x) - amount (tr_amount op) \<and>
    amount (get_balance d' (tr_to op) x) = amount (get_balance d (tr_to op) x) + amount (tr_amount op) - transfer_fees op \<and>
    (\<forall>a y. (a, y) \<notin> {(tr_from op, x), (tr_to op, x)} \<longrightarrow> amount (get_balance d' a y) = amount (get_balance d a y)) \<and>
    (\<forall>y. asset_gap y d' = asset_gap y d)"
proof -
  from assms(2) have "tr_from op \<noteq> tr_to op" by (auto simp: transfer_validate_def)
  with fc_laws.transfer_result [OF assms(1,3)] assms(4) show ?thesis by (auto simp: Let_def)
qed

theorem transfer_moves_witness:
  "\<exists>d'. transfer_apply checked_fc sale_transfer sale_db = Inr ((), d') \<and>
     amount (get_balance d' 6 0) = 7800 \<and> amount (get_balance d' 7 0) = 1199"
proof -
  from sale_transferred [unfolded is_ok_iff] obtain r where "transfer_apply checked_fc sale_transfer sale_db = Inr r" ..
  then obtain d' where a: "transfer_apply checked_fc sale_transfer sale_db = Inr ((), d')" by (cases r) auto
  have v: "transfer_validate sale_transfer = Inr ()"
    by (simp add: transfer_validate_def sale_transfer_def vote_in_range_def OMNIBAZAAR_REPUTATION_MIN_def
        OMNIBAZAAR_REPUTATION_MAX_def)
  have "assets sale_db = assets sample_db" by (simp add: sale_db_def)
  then have "assets_ok sale_db" using sample_assets_ok by (rule assets_ok_cong [THEN iffD2])
  from transfer_moves [OF checked.fc_laws_axioms v a this] a show ?thesis
    by (simp add: Let_def sale_transfer_def transfer_fees_def no_ob_fee_def fee_amount_def sale_db_def
        get_balance_def sample_db_fields)
qed

end
