(* ===== verification/Bonus.thy ===== *)
theory Bonus
  imports Evaluator
begin

text \<open>
  The bonuses that issue new coins: \<^verbatim>\<open>db_bonus.cpp\<close> and the evaluators of the welcome, referral,
  sale, founder and witness bonus. Each pays an account, raises the supply of the core asset by the
  same sum, and adds it to a counter that is checked against the limit of the bonus.
\<close>

subsection \<open>Limits\<close>

definition OMNIBAZAAR_WELCOME_BONUS_LIMIT :: int where
  "OMNIBAZAAR_WELCOME_BONUS_LIMIT = 1405000000 * int GRAPHENE_BLOCKCHAIN_PRECISION"

definition OMNIBAZAAR_REFERRAL_BONUS_LIMIT :: int where
  "OMNIBAZAAR_REFERRAL_BONUS_LIMIT = 3000000000 * int GRAPHENE_BLOCKCHAIN_PRECISION"

definition OMNIBAZAAR_SALE_BONUS_LIMIT :: int where
  "OMNIBAZAAR_SALE_BONUS_LIMIT = 2000000000 * int GRAPHENE_BLOCKCHAIN_PRECISION"

definition OMNIBAZAAR_FOUNDER_BONUS_TIME_LIMIT :: int where
  "OMNIBAZAAR_FOUNDER_BONUS_TIME_LIMIT = 60 * 60 * 24 * 365 * 4"

definition OMNIBAZAAR_FOUNDER_BONUS_COINS_LIMIT :: int where
  "OMNIBAZAAR_FOUNDER_BONUS_COINS_LIMIT = 2522880000 * int GRAPHENE_BLOCKCHAIN_PRECISION"

definition OMNIBAZAAR_FOUNDER_BONUS_COINS_PER_SECOND :: int where
  "OMNIBAZAAR_FOUNDER_BONUS_COINS_PER_SECOND =
     OMNIBAZAAR_FOUNDER_BONUS_COINS_LIMIT div OMNIBAZAAR_FOUNDER_BONUS_TIME_LIMIT"

definition OMNIBAZAAR_WITNESS_BONUS_TOTAL_COINS :: int where
  "OMNIBAZAAR_WITNESS_BONUS_TOTAL_COINS = 7415040000 * int GRAPHENE_BLOCKCHAIN_PRECISION"

definition OMNIBAZAAR_WITNESS_BONUS_TIME_LIMIT_1 :: int where
  "OMNIBAZAAR_WITNESS_BONUS_TIME_LIMIT_1 = 60 * 60 * 24 * 365 * 12"

definition OMNIBAZAAR_WITNESS_BONUS_COINS_LIMIT_1 :: int where
  "OMNIBAZAAR_WITNESS_BONUS_COINS_LIMIT_1 = 3784320000 * int GRAPHENE_BLOCKCHAIN_PRECISION"

definition OMNIBAZAAR_WITNESS_BONUS_COINS_PER_SECOND_1 :: int where
  "OMNIBAZAAR_WITNESS_BONUS_COINS_PER_SECOND_1 =
     OMNIBAZAAR_WITNESS_BONUS_COINS_LIMIT_1 div OMNIBAZAAR_WITNESS_BONUS_TIME_LIMIT_1"

definition OMNIBAZAAR_WITNESS_BONUS_TIME_LIMIT_2 :: int where
  "OMNIBAZAAR_WITNESS_BONUS_TIME_LIMIT_2 = 60 * 60 * 24 * 365 * 4"

definition OMNIBAZAAR_WITNESS_BONUS_COINS_LIMIT_2 :: int where
  "OMNIBAZAAR_WITNESS_BONUS_COINS_LIMIT_2 = 630720000 * int GRAPHENE_BLOCKCHAIN_PRECISION"

definition OMNIBAZAAR_WITNESS_BONUS_COINS_PER_SECOND_2 :: int where
  "OMNIBAZAAR_WITNESS_BONUS_COINS_PER_SECOND_2 =
     OMNIBAZAAR_WITNESS_BONUS_COINS_LIMIT_2 div OMNIBAZAAR_WITNESS_BONUS_TIME_LIMIT_2"

definition OMNIBAZAAR_WITNESS_BONUS_COINS_PER_SECOND_3 :: int where
  "OMNIBAZAAR_WITNESS_BONUS_COINS_PER_SECOND_3 =
     2 * int GRAPHENE_BLOCKCHAIN_PRECISION + 5 * int GRAPHENE_BLOCKCHAIN_PRECISION div 10"

definition HARDFORK_OM_786_TIME :: time_sec where
  "HARDFORK_OM_786_TIME = 1564617600"

definition OMNIBAZAAR_FOUNDER_ACCOUNT2 :: account_id where
  "OMNIBAZAAR_FOUNDER_ACCOUNT2 = 10582"

definition OMNIBAZAAR_WELCOME_ACCOUNT :: account_id where
  "OMNIBAZAAR_WELCOME_ACCOUNT = 9"

subsection \<open>Operations\<close>

record welcome_bonus_operation =
  wb_fee :: asset
  wb_receiver :: account_id

record referral_bonus_operation =
  rb_fee :: asset
  rb_referred_account :: account_id
  rb_referrer_account :: account_id

record sale_bonus_operation =
  sb_fee :: asset
  sb_payer :: account_id
  sb_seller :: account_id
  sb_buyer :: account_id

record founder_bonus_operation =
  fb_fee :: asset
  fb_payer :: account_id

record witness_bonus_operation =
  nb_fee :: asset
  nb_payer :: account_id
  nb_receiver :: account_id

definition welcome_bonus_validate :: "welcome_bonus_operation \<Rightarrow> unit result" where
  "welcome_bonus_validate op = fc_assert (0 \<le> amount (wb_fee op)) ''fee.amount >= 0''"

definition referral_bonus_validate :: "referral_bonus_operation \<Rightarrow> unit result" where
  "referral_bonus_validate op =
     ebind (fc_assert (0 \<le> amount (rb_fee op)) ''fee.amount >= 0'') (\<lambda>_.
     fc_assert (rb_referred_account op \<noteq> rb_referrer_account op) ''referred_account != referrer_account'')"

definition sale_bonus_validate :: "sale_bonus_operation \<Rightarrow> unit result" where
  "sale_bonus_validate op =
     ebind (fc_assert (0 \<le> amount (sb_fee op)) ''fee.amount >= 0'') (\<lambda>_.
     fc_assert (sb_seller op \<noteq> sb_buyer op) ''seller != buyer'')"

definition founder_bonus_validate :: "founder_bonus_operation \<Rightarrow> unit result" where
  "founder_bonus_validate op = fc_assert (0 \<le> amount (fb_fee op)) ''fee.amount >= 0''"

definition witness_bonus_validate :: "witness_bonus_operation \<Rightarrow> unit result" where
  "witness_bonus_validate op = fc_assert (0 \<le> amount (nb_fee op)) ''fee.amount >= 0''"

subsection \<open>Availability and sums\<close>

definition users_count :: "database \<Rightarrow> nat" where
  "users_count d = fcard (fmdom (objs (accounts d)))"

text \<open>The loop over the accounts with the given hardware, in the index \<^verbatim>\<open>by_hardware_info\<close>.\<close>

definition is_welcome_bonus_available :: "database \<Rightarrow> string \<Rightarrow> string \<Rightarrow> bool" where
  "is_welcome_bonus_available d harddrive_id mac =
     (if harddrive_id = [] \<or> mac = [] then False
      else fmpred (\<lambda>_ a. drive_id a = harddrive_id \<and> mac_address a = mac \<longrightarrow> \<not> received_welcome_bonus a)
             (objs (accounts d)))"

definition get_welcome_bonus_amount :: "database \<Rightarrow> share_type" where
  "get_welcome_bonus_amount d =
     (let n = users_count d; P = int GRAPHENE_BLOCKCHAIN_PRECISION in
      if n \<le> 1000 then 10000 * P
      else if n \<le> 10000 then 5000 * P
      else if n \<le> 100000 then 2500 * P
      else if n \<le> 1000000 then 1250 * P
      else 625 * P)"

definition is_referral_bonus_available :: "database \<Rightarrow> bool" where
  "is_referral_bonus_available d = (referral_bonus (dyn_props d) < OMNIBAZAAR_REFERRAL_BONUS_LIMIT)"

definition is_sale_bonus_available :: "database \<Rightarrow> account_id \<Rightarrow> account_id \<Rightarrow> bool result" where
  "is_sale_bonus_available d seller_id buyer_id =
     (if OMNIBAZAAR_SALE_BONUS_LIMIT \<le> sale_bonus (dyn_props d) then Inr False
      else ebind (get_account d seller_id) (\<lambda>seller. Inr (buyer_id \<notin> acc_buyers seller)))"

definition get_referral_bonus_sum :: "database \<Rightarrow> share_type" where
  "get_referral_bonus_sum d =
     (let n = users_count d; P = int GRAPHENE_BLOCKCHAIN_PRECISION in
      if n \<le> 10000 then 2500 * P
      else if n \<le> 100000 then 1250 * P
      else if n \<le> 1000000 then 625 * P
      else 312 * P + 5 * P div 10)"

definition get_sale_bonus_sum :: "database \<Rightarrow> share_type" where
  "get_sale_bonus_sum d =
     (let n = users_count d; P = int GRAPHENE_BLOCKCHAIN_PRECISION in
      if n \<le> 100000 then 500 * P
      else if n \<le> 1000000 then 250 * P
      else if n \<le> 10000000 then 125 * P
      else 62 * P + 5 * P div 10)"

text \<open>
  The products with the block interval, an 8-bit number, stay far below 64 bits. The differences with
  the counters are taken in 64 unsigned bits; in the evaluator of the witness bonus the result is read
  as a signed number.
\<close>

definition get_founder_bonus_sum :: "database \<Rightarrow> share_type" where
  "get_founder_bonus_sum d =
     wrap64 (min (OMNIBAZAAR_FOUNDER_BONUS_COINS_PER_SECOND * int (block_interval (parameters d)))
        ((OMNIBAZAAR_FOUNDER_BONUS_COINS_LIMIT - founder_bonus (dyn_props d)) mod 2 ^ 64))"

definition get_witness_bonus_sum :: "fc_lib \<Rightarrow> database \<Rightarrow> share_type" where
  "get_witness_bonus_sum F d =
     (let since = tps_diff F (head_block_time d) (initial_timestamp d); bi = int (block_interval (parameters d)) in
      if since \<le> OMNIBAZAAR_WITNESS_BONUS_TIME_LIMIT_1
      then OMNIBAZAAR_WITNESS_BONUS_COINS_PER_SECOND_1 * bi
      else if since \<le> OMNIBAZAAR_WITNESS_BONUS_TIME_LIMIT_1 + OMNIBAZAAR_WITNESS_BONUS_TIME_LIMIT_2
      then OMNIBAZAAR_WITNESS_BONUS_COINS_PER_SECOND_2 * bi
      else min (OMNIBAZAAR_WITNESS_BONUS_COINS_PER_SECOND_3 * bi)
             (wrap64 (OMNIBAZAAR_WITNESS_BONUS_TOTAL_COINS - witness_bonus (dyn_props d))))"

definition get_founder_account :: "database \<Rightarrow> account_id" where
  "get_founder_account d =
     (if head_block_time d < HARDFORK_OM_786_TIME then OMNIBAZAAR_FOUNDER_ACCOUNT else OMNIBAZAAR_FOUNDER_ACCOUNT2)"

subsection \<open>Evaluators\<close>

definition find_witness_by_account :: "database \<Rightarrow> account_id \<Rightarrow> bool" where
  "find_witness_by_account d a = (\<not> fmpred (\<lambda>_ w. witness_account w \<noteq> a) (objs (witnesses d)))"

definition raise_supply :: "fc_lib \<Rightarrow> share_type \<Rightarrow> database \<Rightarrow> database result" where
  "raise_supply F bonus_sum d =
     ebind (core_dyn_id d) (\<lambda>i.
     ebind (tbl_get (asset_dyn d) i) (\<lambda>dd.
     ebind (safe_add F (current_supply dd) bonus_sum) (\<lambda>s.
     modify_asset_dyn d i (\<lambda>x. x\<lparr>current_supply := s\<rparr>))))"

definition modify_dyn_props ::
  "(dynamic_global_property_object \<Rightarrow> dynamic_global_property_object) \<Rightarrow> database \<Rightarrow> database" where
  "modify_dyn_props f d = d\<lparr>dyn_props := f (dyn_props d)\<rparr>"

definition welcome_bonus_evaluate :: "welcome_bonus_operation \<Rightarrow> database \<Rightarrow> unit result" where
  "welcome_bonus_evaluate op d =
     ebind (fc_assert (welcome_bonus (dyn_props d) < OMNIBAZAAR_WELCOME_BONUS_LIMIT) ''Welcome Bonus is depleted.'') (\<lambda>_.
     ebind (get_account d (wb_receiver op)) (\<lambda>receiver.
     fc_assert (\<not> received_welcome_bonus receiver) ''already received Welcome Bonus.''))"

definition welcome_bonus_apply ::
  "fc_lib \<Rightarrow> welcome_bonus_operation \<Rightarrow> database \<Rightarrow> (asset \<times> database) result" where
  "welcome_bonus_apply F op d =
     (let bonus_sum = get_welcome_bonus_amount d in
      ebind (adjust_balance F d (wb_receiver op) (core_asset bonus_sum)) (\<lambda>d1.
      ebind (modify_account d1 (wb_receiver op) (\<lambda>a. a\<lparr>received_welcome_bonus := True\<rparr>)) (\<lambda>d2.
      ebind (raise_supply F bonus_sum d2) (\<lambda>d3.
      ebind (safe_add F (welcome_bonus (dyn_props d3)) bonus_sum) (\<lambda>s.
      Inr (core_asset bonus_sum, modify_dyn_props (\<lambda>p. p\<lparr>welcome_bonus := s\<rparr>) d3))))))"

definition referral_bonus_evaluate :: "referral_bonus_operation \<Rightarrow> database \<Rightarrow> unit result" where
  "referral_bonus_evaluate op d =
     ebind (fc_assert (referral_bonus (dyn_props d) < OMNIBAZAAR_REFERRAL_BONUS_LIMIT) ''Referral Bonus is depleted.'') (\<lambda>_.
     ebind (get_account d (rb_referred_account op)) (\<lambda>referred.
     ebind (fc_assert (\<not> sent_referral_bonus referred) ''already sent a Referral Bonus.'') (\<lambda>_.
     ebind (fc_assert (referrer referred = rb_referrer_account op) ''Invalid referrer'') (\<lambda>_.
     fc_assert (received_welcome_bonus referred) ''did not receive Welcome Bonus''))))"

definition referral_bonus_apply ::
  "fc_lib \<Rightarrow> referral_bonus_operation \<Rightarrow> database \<Rightarrow> (asset \<times> database) result" where
  "referral_bonus_apply F op d =
     (let bonus_sum = get_referral_bonus_sum d in
      ebind (adjust_balance F d (rb_referrer_account op) (core_asset bonus_sum)) (\<lambda>d1.
      ebind (modify_account d1 (rb_referred_account op) (\<lambda>a. a\<lparr>sent_referral_bonus := True\<rparr>)) (\<lambda>d2.
      ebind (raise_supply F bonus_sum d2) (\<lambda>d3.
      ebind (safe_add F (referral_bonus (dyn_props d3)) bonus_sum) (\<lambda>s.
      Inr (core_asset bonus_sum, modify_dyn_props (\<lambda>p. p\<lparr>referral_bonus := s\<rparr>) d3))))))"

definition sale_bonus_evaluate :: "sale_bonus_operation \<Rightarrow> database \<Rightarrow> unit result" where
  "sale_bonus_evaluate op d =
     (if OMNIBAZAAR_SALE_BONUS_LIMIT \<le> sale_bonus (dyn_props d) then Inl (Thrown ''Sale Bonus is depleted'')
      else ebind (get_account d (sb_seller op)) (\<lambda>seller.
        if sb_buyer op \<in> acc_buyers seller then Inl (Thrown ''Sale bonus already received'') else Inr ()))"

definition sale_bonus_apply ::
  "fc_lib \<Rightarrow> sale_bonus_operation \<Rightarrow> database \<Rightarrow> (asset \<times> database) result" where
  "sale_bonus_apply F op d =
     (let bonus_sum = get_sale_bonus_sum d in
      ebind (adjust_balance F d (sb_seller op) (core_asset bonus_sum)) (\<lambda>d1.
      ebind (modify_account d1 (sb_seller op) (\<lambda>a. a\<lparr>acc_buyers := insert (sb_buyer op) (acc_buyers a)\<rparr>)) (\<lambda>d2.
      ebind (raise_supply F bonus_sum d2) (\<lambda>d3.
      ebind (safe_add F (sale_bonus (dyn_props d3)) bonus_sum) (\<lambda>s.
      Inr (core_asset bonus_sum, modify_dyn_props (\<lambda>p. p\<lparr>sale_bonus := s\<rparr>) d3))))))"

definition founder_bonus_evaluate :: "founder_bonus_operation \<Rightarrow> database \<Rightarrow> unit result" where
  "founder_bonus_evaluate op d =
     fc_assert (founder_bonus (dyn_props d) < OMNIBAZAAR_FOUNDER_BONUS_COINS_LIMIT) ''Developer Bonus is depleted.''"

definition founder_bonus_apply ::
  "fc_lib \<Rightarrow> founder_bonus_operation \<Rightarrow> database \<Rightarrow> (asset \<times> database) result" where
  "founder_bonus_apply F op d =
     (let bonus_sum = get_founder_bonus_sum d in
      ebind (adjust_balance F d (get_founder_account d) (core_asset bonus_sum)) (\<lambda>d1.
      ebind (raise_supply F bonus_sum d1) (\<lambda>d2.
      ebind (safe_add F (founder_bonus (dyn_props d2)) bonus_sum) (\<lambda>s.
      Inr (core_asset bonus_sum, modify_dyn_props (\<lambda>p. p\<lparr>founder_bonus := s\<rparr>) d2)))))"

definition witness_bonus_evaluate :: "witness_bonus_operation \<Rightarrow> database \<Rightarrow> unit result" where
  "witness_bonus_evaluate op d =
     ebind (fc_assert (witness_bonus (dyn_props d) < OMNIBAZAAR_WITNESS_BONUS_TOTAL_COINS) ''Witness Bonus is depleted.'') (\<lambda>_.
     fc_assert (find_witness_by_account d (nb_receiver op)) ''is not a witness.'')"

definition witness_bonus_apply ::
  "fc_lib \<Rightarrow> witness_bonus_operation \<Rightarrow> database \<Rightarrow> (asset \<times> database) result" where
  "witness_bonus_apply F op d =
     (let bonus_sum = get_witness_bonus_sum F d in
      ebind (adjust_balance F d (nb_receiver op) (core_asset bonus_sum)) (\<lambda>d1.
      ebind (raise_supply F bonus_sum d1) (\<lambda>d2.
      ebind (safe_add F (witness_bonus (dyn_props d2)) bonus_sum) (\<lambda>s.
      Inr (core_asset bonus_sum, modify_dyn_props (\<lambda>p. p\<lparr>witness_bonus := s\<rparr>) d2)))))"

subsection \<open>Runs of bonuses\<close>

inductive bonus_step :: "fc_lib \<Rightarrow> database \<Rightarrow> database \<Rightarrow> bool" for F where
  welcome_rule: "welcome_bonus_evaluate op d = Inr u \<Longrightarrow> welcome_bonus_apply F op d = Inr (a, d') \<Longrightarrow> bonus_step F d d'"
| referral: "referral_bonus_evaluate op1 d = Inr u \<Longrightarrow> referral_bonus_apply F op1 d = Inr (a, d') \<Longrightarrow> bonus_step F d d'"
| sale: "sale_bonus_evaluate op2 d = Inr u \<Longrightarrow> sale_bonus_apply F op2 d = Inr (a, d') \<Longrightarrow> bonus_step F d d'"
| founder: "founder_bonus_evaluate op3 d = Inr u \<Longrightarrow> founder_bonus_apply F op3 d = Inr (a, d') \<Longrightarrow> bonus_step F d d'"
| witness: "witness_bonus_evaluate op4 d = Inr u \<Longrightarrow> witness_bonus_apply F op4 d = Inr (a, d') \<Longrightarrow> bonus_step F d d'"

section \<open>Lemmas\<close>

definition core_supply :: "database \<Rightarrow> int" where
  "core_supply d = (case asset_dyn_of d 0 of None \<Rightarrow> 0 | Some x \<Rightarrow> current_supply x)"

definition bonus_total :: "dynamic_global_property_object \<Rightarrow> int" where
  "bonus_total p = welcome_bonus p + referral_bonus p + sale_bonus p + founder_bonus p + witness_bonus p"

text \<open>
  What a bonus leaves alone: an account keeps everything except the two flags and the set of buyers,
  and these only grow.
\<close>

definition flags_grow :: "database \<Rightarrow> database \<Rightarrow> bool" where
  "flags_grow d d' \<longleftrightarrow> (\<forall>i a. tbl_find (accounts d) i = Some a \<longrightarrow> (\<exists>a'. tbl_find (accounts d') i = Some a' \<and>
     (received_welcome_bonus a \<longrightarrow> received_welcome_bonus a') \<and> (sent_referral_bonus a \<longrightarrow> sent_referral_bonus a') \<and>
     acc_buyers a \<subseteq> acc_buyers a'))"

definition issued :: "database \<Rightarrow> int \<Rightarrow> database \<Rightarrow> bool" where
  "issued d s d' \<longleftrightarrow> (\<forall>a. asset_gap a d' = asset_gap a d) \<and> core_supply d' = core_supply d + s \<and>
     assets d' = assets d \<and> escrows d' = escrows d \<and> listings d' = listings d \<and>
     parameters d' = parameters d \<and> dyn_props d' = dyn_props d \<and> flags_grow d d'"

lemma flags_grow_refl: "flags_grow d d"
  by (auto simp: flags_grow_def)

lemma flags_grow_trans: "flags_grow a b \<Longrightarrow> flags_grow b c \<Longrightarrow> flags_grow a c"
  unfolding flags_grow_def by blast

definition keeps_flags :: "(account_object \<Rightarrow> account_object) \<Rightarrow> bool" where
  "keeps_flags f \<longleftrightarrow> (\<forall>a. (received_welcome_bonus a \<longrightarrow> received_welcome_bonus (f a)) \<and>
     (sent_referral_bonus a \<longrightarrow> sent_referral_bonus (f a)) \<and> acc_buyers a \<subseteq> acc_buyers (f a))"

lemma keeps_flags_cases [simp]:
  "keeps_flags (\<lambda>a. a\<lparr>received_welcome_bonus := True\<rparr>)" "keeps_flags (\<lambda>a. a\<lparr>sent_referral_bonus := True\<rparr>)"
  "keeps_flags (\<lambda>a. a\<lparr>acc_buyers := insert b (acc_buyers a)\<rparr>)"
  by (auto simp: keeps_flags_def)

lemma modify_account_find:
  "modify_account d i f = Inr d' \<Longrightarrow> \<exists>a. tbl_find (accounts d) i = Some a \<and> tbl_find (accounts d') i = Some (f a)"
  using tbl_modify_exists by (fastforce simp: modify_account_def tbl_modify_find)

lemma modify_account_flags:
  "modify_account d i f = Inr d' \<Longrightarrow>
   keeps_flags f \<Longrightarrow> flags_grow d d'"
  by (auto simp: modify_account_def flags_grow_def keeps_flags_def tbl_modify_find)

context fc_laws
begin

lemma raise_supply_result:
  assumes "raise_supply F s d = Inr d'" and ok: "assets_ok d"
  shows "asset_gap a d' = asset_gap a d + (if a = 0 then s else 0)" and "core_supply d' = core_supply d + s"
    and "\<exists>t. d' = d\<lparr>asset_dyn := t\<rparr>"
proof -
  from assms obtain dd where dd: "tbl_find (asset_dyn d) 0 = Some dd"
    and m: "modify_asset_dyn d 0 (\<lambda>x. x\<lparr>current_supply := current_supply dd + s\<rparr>) = Inr d'"
    by (auto simp: raise_supply_def assets_ok_def safe_add)
  from modify_core_dyn_gap [OF ok dd m, of a] show "asset_gap a d' = asset_gap a d + (if a = 0 then s else 0)" by simp
  show "\<exists>t. d' = d\<lparr>asset_dyn := t\<rparr>" using m by (auto simp: modify_asset_dyn_def)
  from ok obtain ao where "tbl_find (assets d) 0 = Some ao" "dynamic_asset_data_id ao = 0"
    by (auto simp: assets_ok_def core_dyn_id_def get_asset_def)
  with m dd show "core_supply d' = core_supply d + s"
    by (auto simp: core_supply_def asset_dyn_of_def modify_asset_dyn_def tbl_modify_find)
qed

lemma issue_result:
  assumes "adjust_balance F d who (core_asset s) = Inr d1" and "modify_account d1 i f = Inr d2"
    and "raise_supply F s d2 = Inr d3" and ok: "assets_ok d"
    and f: "keeps_flags f"
  shows "issued d s d3" and "accounts d3 = accounts d2"
proof -
  have f1: "\<exists>b. d1 = d\<lparr>balances := b\<rparr>" by (rule adjust_balance_frame [OF assms(1)])
  have f2: "\<exists>t. d2 = d1\<lparr>accounts := t\<rparr>" using assms(2) by (auto simp: modify_account_def)
  have "assets d2 = assets d" using f1 f2 by auto
  then have "assets_ok d2" using ok by (rule assets_ok_cong [THEN iffD2])
  note r = raise_supply_result [OF assms(3) this]
  have cs: "core_supply d2 = core_supply d" using f1 f2 by (auto simp: core_supply_def asset_dyn_of_def)
  have "flags_grow d d1" using f1 by (auto simp: flags_grow_def)
  moreover have "flags_grow d1 d2" using assms(2) f by (rule modify_account_flags)
  moreover have "flags_grow d2 d3" using r(3) by (auto simp: flags_grow_def)
  ultimately have "flags_grow d d3" using flags_grow_trans by blast
  moreover have "asset_gap a d3 = asset_gap a d" for a
    using r(1) [of a] modify_account_gap [OF assms(2), of a] adjust_balance_gap [OF assms(1), of a]
    by (simp add: of_asset_def split: if_splits)
  ultimately show "issued d s d3" using r(2,3) cs f1 f2 by (auto simp: issued_def)
  show "accounts d3 = accounts d2" using r(3) by auto
qed

lemma issue_plain_result:
  assumes "adjust_balance F d who (core_asset s) = Inr d1" and "raise_supply F s d1 = Inr d2" and ok: "assets_ok d"
  shows "issued d s d2" and "accounts d2 = accounts d"
proof -
  have f1: "\<exists>b. d1 = d\<lparr>balances := b\<rparr>" by (rule adjust_balance_frame [OF assms(1)])
  then have "assets d1 = assets d" by auto
  then have "assets_ok d1" using ok by (rule assets_ok_cong [THEN iffD2])
  note r = raise_supply_result [OF assms(2) this]
  have "flags_grow d d2" using f1 r(3) by (auto simp: flags_grow_def)
  moreover have "core_supply d1 = core_supply d" using f1 by (auto simp: core_supply_def asset_dyn_of_def)
  moreover have "asset_gap a d2 = asset_gap a d" for a
    using r(1) [of a] adjust_balance_gap [OF assms(1), of a] by (simp add: of_asset_def split: if_splits)
  ultimately show "issued d s d2" using r(2,3) f1 by (auto simp: issued_def)
  show "accounts d2 = accounts d" using f1 r(3) by auto
qed

end

text \<open>The counters never run far past their limits: a bonus is paid while the counter is below the limit,
  and the founder's last bonus is cut to what is left. The block interval is an 8-bit number.\<close>

definition bonus_bounds :: "database \<Rightarrow> bool" where
  "bonus_bounds d \<longleftrightarrow>
     (let p = dyn_props d; P = int GRAPHENE_BLOCKCHAIN_PRECISION in
      block_interval (parameters d) < 2 ^ 8 \<and>
      0 \<le> welcome_bonus p \<and> welcome_bonus p < OMNIBAZAAR_WELCOME_BONUS_LIMIT + 10000 * P \<and>
      0 \<le> referral_bonus p \<and> referral_bonus p < OMNIBAZAAR_REFERRAL_BONUS_LIMIT + 2500 * P \<and>
      0 \<le> sale_bonus p \<and> sale_bonus p < OMNIBAZAAR_SALE_BONUS_LIMIT + 500 * P \<and>
      0 \<le> founder_bonus p \<and> founder_bonus p \<le> OMNIBAZAAR_FOUNDER_BONUS_COINS_LIMIT \<and>
      0 \<le> witness_bonus p \<and> witness_bonus p < OMNIBAZAAR_WITNESS_BONUS_TOTAL_COINS + 10 * P * 255)"

lemmas bonus_constants =
  OMNIBAZAAR_WELCOME_BONUS_LIMIT_def OMNIBAZAAR_REFERRAL_BONUS_LIMIT_def OMNIBAZAAR_SALE_BONUS_LIMIT_def
  OMNIBAZAAR_FOUNDER_BONUS_COINS_LIMIT_def OMNIBAZAAR_FOUNDER_BONUS_TIME_LIMIT_def
  OMNIBAZAAR_FOUNDER_BONUS_COINS_PER_SECOND_def OMNIBAZAAR_WITNESS_BONUS_TOTAL_COINS_def
  OMNIBAZAAR_WITNESS_BONUS_TIME_LIMIT_1_def OMNIBAZAAR_WITNESS_BONUS_COINS_LIMIT_1_def
  OMNIBAZAAR_WITNESS_BONUS_COINS_PER_SECOND_1_def OMNIBAZAAR_WITNESS_BONUS_TIME_LIMIT_2_def
  OMNIBAZAAR_WITNESS_BONUS_COINS_LIMIT_2_def OMNIBAZAAR_WITNESS_BONUS_COINS_PER_SECOND_2_def
  OMNIBAZAAR_WITNESS_BONUS_COINS_PER_SECOND_3_def GRAPHENE_BLOCKCHAIN_PRECISION_def

lemma bonus_sum_ranges:
  "0 \<le> get_welcome_bonus_amount d" "get_welcome_bonus_amount d \<le> 10000 * int GRAPHENE_BLOCKCHAIN_PRECISION"
  "0 \<le> get_referral_bonus_sum d" "get_referral_bonus_sum d \<le> 2500 * int GRAPHENE_BLOCKCHAIN_PRECISION"
  "0 \<le> get_sale_bonus_sum d" "get_sale_bonus_sum d \<le> 500 * int GRAPHENE_BLOCKCHAIN_PRECISION"
  by (auto simp: get_welcome_bonus_amount_def get_referral_bonus_sum_def get_sale_bonus_sum_def Let_def
      GRAPHENE_BLOCKCHAIN_PRECISION_def)

lemma founder_bonus_sum_range:
  assumes "block_interval (parameters d) < 2 ^ 8" and "0 \<le> founder_bonus (dyn_props d)"
    and "founder_bonus (dyn_props d) < OMNIBAZAAR_FOUNDER_BONUS_COINS_LIMIT"
  shows "0 \<le> get_founder_bonus_sum d"
    and "founder_bonus (dyn_props d) + get_founder_bonus_sum d \<le> OMNIBAZAAR_FOUNDER_BONUS_COINS_LIMIT"
proof -
  let ?rest = "OMNIBAZAAR_FOUNDER_BONUS_COINS_LIMIT - founder_bonus (dyn_props d)"
  have r: "0 < ?rest" "?rest < 2 ^ 63" using assms(2,3) by (simp_all add: bonus_constants)
  then have "?rest mod 2 ^ 64 = ?rest" by (intro mod_pos_pos_trivial) simp_all
  moreover have "0 \<le> OMNIBAZAAR_FOUNDER_BONUS_COINS_PER_SECOND * int (block_interval (parameters d))"
    "OMNIBAZAAR_FOUNDER_BONUS_COINS_PER_SECOND * int (block_interval (parameters d)) < 2 ^ 63"
    using assms(1) by (simp_all add: bonus_constants)
  ultimately have "get_founder_bonus_sum d =
      min (OMNIBAZAAR_FOUNDER_BONUS_COINS_PER_SECOND * int (block_interval (parameters d))) ?rest"
    using r unfolding get_founder_bonus_sum_def by (simp add: in_int64_def min_def)
  then show "0 \<le> get_founder_bonus_sum d"
    and "founder_bonus (dyn_props d) + get_founder_bonus_sum d \<le> OMNIBAZAAR_FOUNDER_BONUS_COINS_LIMIT"
    using r \<open>0 \<le> OMNIBAZAAR_FOUNDER_BONUS_COINS_PER_SECOND * _\<close> by auto
qed

lemma witness_bonus_sum_range:
  assumes "block_interval (parameters d) < 2 ^ 8" and "0 \<le> witness_bonus (dyn_props d)"
    and "witness_bonus (dyn_props d) < OMNIBAZAAR_WITNESS_BONUS_TOTAL_COINS"
  shows "0 \<le> get_witness_bonus_sum F d" and "get_witness_bonus_sum F d \<le> 10 * int GRAPHENE_BLOCKCHAIN_PRECISION * 255"
proof -
  have "wrap64 (OMNIBAZAAR_WITNESS_BONUS_TOTAL_COINS - witness_bonus (dyn_props d))
      = OMNIBAZAAR_WITNESS_BONUS_TOTAL_COINS - witness_bonus (dyn_props d)"
    using assms(2,3) by (intro wrap64_id) (simp add: in_int64_def bonus_constants)
  then show "0 \<le> get_witness_bonus_sum F d" and "get_witness_bonus_sum F d \<le> 10 * int GRAPHENE_BLOCKCHAIN_PRECISION * 255"
    using assms by (auto simp: get_witness_bonus_sum_def Let_def bonus_constants min_def)
qed

text \<open>Every bonus issues a sum and adds it to its counter.\<close>

definition counted :: "database \<Rightarrow> database \<Rightarrow> int \<Rightarrow> dynamic_global_property_object \<Rightarrow> bool" where
  "counted d d' s p \<longleftrightarrow> (\<exists>d3. issued d s d3 \<and> d' = d3\<lparr>dyn_props := p\<rparr>)"

lemma countedI: "issued d s d3 \<Longrightarrow> counted d (modify_dyn_props f d3) s (f (dyn_props d))"
  by (auto simp: counted_def issued_def modify_dyn_props_def)

context fc_laws
begin

lemma welcome_bonus_result:
  assumes "welcome_bonus_apply F op d = Inr (a, d')" and "assets_ok d"
  shows "counted d d' (get_welcome_bonus_amount d)
      ((dyn_props d)\<lparr>welcome_bonus := welcome_bonus (dyn_props d) + get_welcome_bonus_amount d\<rparr>)"
    and "\<exists>acc. tbl_find (accounts d') (wb_receiver op) = Some acc \<and> received_welcome_bonus acc"
proof -
  from assms(1) obtain d1 d2 d3 where
      d1: "adjust_balance F d (wb_receiver op) (core_asset (get_welcome_bonus_amount d)) = Inr d1"
      and d2: "modify_account d1 (wb_receiver op) (\<lambda>a. a\<lparr>received_welcome_bonus := True\<rparr>) = Inr d2"
      and d3: "raise_supply F (get_welcome_bonus_amount d) d2 = Inr d3"
      and d': "d' = modify_dyn_props (\<lambda>p. p\<lparr>welcome_bonus := welcome_bonus (dyn_props d3) + get_welcome_bonus_amount d\<rparr>) d3"
    by (auto simp: welcome_bonus_apply_def Let_def safe_add)
  note i = issue_result [OF d1 d2 d3 assms(2) keeps_flags_cases(1)]
  from countedI [OF i(1)] i(1) d' show "counted d d' (get_welcome_bonus_amount d)
      ((dyn_props d)\<lparr>welcome_bonus := welcome_bonus (dyn_props d) + get_welcome_bonus_amount d\<rparr>)"
    by (simp add: issued_def)
  from modify_account_find [OF d2] i(2) d' show "\<exists>acc. tbl_find (accounts d') (wb_receiver op) = Some acc \<and> received_welcome_bonus acc"
    by (auto simp: modify_dyn_props_def)
qed

lemma referral_bonus_result:
  assumes "referral_bonus_apply F op d = Inr (a, d')" and "assets_ok d"
  shows "counted d d' (get_referral_bonus_sum d)
      ((dyn_props d)\<lparr>referral_bonus := referral_bonus (dyn_props d) + get_referral_bonus_sum d\<rparr>)"
    and "\<exists>acc. tbl_find (accounts d') (rb_referred_account op) = Some acc \<and> sent_referral_bonus acc"
proof -
  from assms(1) obtain d1 d2 d3 where
      d1: "adjust_balance F d (rb_referrer_account op) (core_asset (get_referral_bonus_sum d)) = Inr d1"
      and d2: "modify_account d1 (rb_referred_account op) (\<lambda>a. a\<lparr>sent_referral_bonus := True\<rparr>) = Inr d2"
      and d3: "raise_supply F (get_referral_bonus_sum d) d2 = Inr d3"
      and d': "d' = modify_dyn_props (\<lambda>p. p\<lparr>referral_bonus := referral_bonus (dyn_props d3) + get_referral_bonus_sum d\<rparr>) d3"
    by (auto simp: referral_bonus_apply_def Let_def safe_add)
  note i = issue_result [OF d1 d2 d3 assms(2) keeps_flags_cases(2)]
  from countedI [OF i(1)] i(1) d' show "counted d d' (get_referral_bonus_sum d)
      ((dyn_props d)\<lparr>referral_bonus := referral_bonus (dyn_props d) + get_referral_bonus_sum d\<rparr>)"
    by (simp add: issued_def)
  from modify_account_find [OF d2] i(2) d' show "\<exists>acc. tbl_find (accounts d') (rb_referred_account op) = Some acc \<and> sent_referral_bonus acc"
    by (auto simp: modify_dyn_props_def)
qed

lemma sale_bonus_result:
  assumes "sale_bonus_apply F op d = Inr (a, d')" and "assets_ok d"
  shows "counted d d' (get_sale_bonus_sum d)
      ((dyn_props d)\<lparr>sale_bonus := sale_bonus (dyn_props d) + get_sale_bonus_sum d\<rparr>)"
    and "\<exists>acc. tbl_find (accounts d') (sb_seller op) = Some acc \<and> sb_buyer op \<in> acc_buyers acc"
proof -
  from assms(1) obtain d1 d2 d3 where
      d1: "adjust_balance F d (sb_seller op) (core_asset (get_sale_bonus_sum d)) = Inr d1"
      and d2: "modify_account d1 (sb_seller op) (\<lambda>a. a\<lparr>acc_buyers := insert (sb_buyer op) (acc_buyers a)\<rparr>) = Inr d2"
      and d3: "raise_supply F (get_sale_bonus_sum d) d2 = Inr d3"
      and d': "d' = modify_dyn_props (\<lambda>p. p\<lparr>sale_bonus := sale_bonus (dyn_props d3) + get_sale_bonus_sum d\<rparr>) d3"
    by (auto simp: sale_bonus_apply_def Let_def safe_add)
  note i = issue_result [OF d1 d2 d3 assms(2) keeps_flags_cases(3)]
  from countedI [OF i(1)] i(1) d' show "counted d d' (get_sale_bonus_sum d)
      ((dyn_props d)\<lparr>sale_bonus := sale_bonus (dyn_props d) + get_sale_bonus_sum d\<rparr>)"
    by (simp add: issued_def)
  from modify_account_find [OF d2] i(2) d' show "\<exists>acc. tbl_find (accounts d') (sb_seller op) = Some acc \<and> sb_buyer op \<in> acc_buyers acc"
    by (auto simp: modify_dyn_props_def)
qed

lemma founder_bonus_result:
  assumes "founder_bonus_apply F op d = Inr (a, d')" and "assets_ok d"
  shows "counted d d' (get_founder_bonus_sum d)
      ((dyn_props d)\<lparr>founder_bonus := founder_bonus (dyn_props d) + get_founder_bonus_sum d\<rparr>)"
proof -
  from assms(1) obtain d1 d2 where
      d1: "adjust_balance F d (get_founder_account d) (core_asset (get_founder_bonus_sum d)) = Inr d1"
      and d2: "raise_supply F (get_founder_bonus_sum d) d1 = Inr d2"
      and d': "d' = modify_dyn_props (\<lambda>p. p\<lparr>founder_bonus := founder_bonus (dyn_props d2) + get_founder_bonus_sum d\<rparr>) d2"
    by (auto simp: founder_bonus_apply_def Let_def safe_add)
  note i = issue_plain_result(1) [OF d1 d2 assms(2)]
  from countedI [OF i] i d' show ?thesis
    by (simp add: issued_def)
qed

lemma witness_bonus_result:
  assumes "witness_bonus_apply F op d = Inr (a, d')" and "assets_ok d"
  shows "counted d d' (get_witness_bonus_sum F d)
      ((dyn_props d)\<lparr>witness_bonus := witness_bonus (dyn_props d) + get_witness_bonus_sum F d\<rparr>)"
proof -
  from assms(1) obtain d1 d2 where
      d1: "adjust_balance F d (nb_receiver op) (core_asset (get_witness_bonus_sum F d)) = Inr d1"
      and d2: "raise_supply F (get_witness_bonus_sum F d) d1 = Inr d2"
      and d': "d' = modify_dyn_props (\<lambda>p. p\<lparr>witness_bonus := witness_bonus (dyn_props d2) + get_witness_bonus_sum F d\<rparr>) d2"
    by (auto simp: witness_bonus_apply_def Let_def safe_add)
  note i = issue_plain_result(1) [OF d1 d2 assms(2)]
  from countedI [OF i] i d' show ?thesis
    by (simp add: issued_def)
qed

lemmas bonus_results = welcome_bonus_result(1) referral_bonus_result(1) sale_bonus_result(1)
  founder_bonus_result witness_bonus_result

end

lemma countedD:
  assumes "counted d d' s p" and "assets_ok d"
  shows "assets_ok d'" and "asset_gap a d' = asset_gap a d" and "core_supply d' = core_supply d + s"
    and "dyn_props d' = p" and "parameters d' = parameters d" and "flags_grow d d'"
proof -
  from assms(1) obtain d3 where i: "issued d s d3" and d': "d' = d3\<lparr>dyn_props := p\<rparr>" by (auto simp: counted_def)
  from i d' have "assets d' = assets d" by (simp add: issued_def)
  then show "assets_ok d'" using assms(2) by (rule assets_ok_cong [THEN iffD2])
  have "asset_gap a d' = asset_gap a d3" "core_supply d' = core_supply d3"
    by (simp_all add: d' asset_gap_def held_def asset_dyn_of_def core_supply_def)
  with i d' show "asset_gap a d' = asset_gap a d" "core_supply d' = core_supply d + s" "dyn_props d' = p"
    "parameters d' = parameters d" "flags_grow d d'"
    by (simp_all add: issued_def flags_grow_def)
qed

context fc_laws
begin

lemma bonus_step_counted:
  assumes "bonus_step F d d'" and ok: "assets_ok d"
  obtains s p where "counted d d' s p" and "bonus_total p = bonus_total (dyn_props d) + s"
    and "bonus_bounds d \<Longrightarrow> bonus_bounds d'"
  using assms(1)
proof cases
  case (welcome_rule op u a)
  note c = welcome_bonus_result(1) [OF welcome_rule(2) ok]
  have "bonus_bounds d \<Longrightarrow> bonus_bounds d'"
    using welcome_rule(1) countedD(4,5) [OF c ok] bonus_sum_ranges(1,2) [of d]
    by (auto simp: bonus_bounds_def Let_def welcome_bonus_evaluate_def)
  with c show ?thesis by (intro that [OF c]) (simp_all add: bonus_total_def)
next
  case (referral op u a)
  note c = referral_bonus_result(1) [OF referral(2) ok]
  have "bonus_bounds d \<Longrightarrow> bonus_bounds d'"
    using referral(1) countedD(4,5) [OF c ok] bonus_sum_ranges(3,4) [of d]
    by (auto simp: bonus_bounds_def Let_def referral_bonus_evaluate_def)
  with c show ?thesis by (intro that [OF c]) (simp_all add: bonus_total_def)
next
  case (sale op u a)
  note c = sale_bonus_result(1) [OF sale(2) ok]
  have "bonus_bounds d \<Longrightarrow> bonus_bounds d'"
    using sale(1) countedD(4,5) [OF c ok] bonus_sum_ranges(5,6) [of d]
    by (auto simp: bonus_bounds_def Let_def sale_bonus_evaluate_def split: if_splits)
  with c show ?thesis by (intro that [OF c]) (simp_all add: bonus_total_def)
next
  case (founder op u a)
  note c = founder_bonus_result [OF founder(2) ok]
  have "bonus_bounds d \<Longrightarrow> bonus_bounds d'"
    using founder(1) countedD(4,5) [OF c ok] founder_bonus_sum_range [of d]
    by (auto simp: bonus_bounds_def Let_def founder_bonus_evaluate_def)
  with c show ?thesis by (intro that [OF c]) (simp_all add: bonus_total_def)
next
  case (witness op u a)
  note c = witness_bonus_result [OF witness(2) ok]
  have "bonus_bounds d \<Longrightarrow> bonus_bounds d'"
    using witness(1) countedD(4,5) [OF c ok] witness_bonus_sum_range [of d F]
    by (auto simp: bonus_bounds_def Let_def witness_bonus_evaluate_def)
  with c show ?thesis by (intro that [OF c]) (simp_all add: bonus_total_def)
qed

lemma bonus_run:
  assumes "(bonus_step F)\<^sup>*\<^sup>* d d'" and "assets_ok d"
  shows "assets_ok d'" and "asset_gap a d' = asset_gap a d" and "flags_grow d d'"
    and "core_supply d' - bonus_total (dyn_props d') = core_supply d - bonus_total (dyn_props d)"
    and "bonus_bounds d \<Longrightarrow> bonus_bounds d'"
proof -
  have "assets_ok d' \<and> asset_gap a d' = asset_gap a d \<and> flags_grow d d' \<and>
      core_supply d' - bonus_total (dyn_props d') = core_supply d - bonus_total (dyn_props d) \<and>
      (bonus_bounds d \<longrightarrow> bonus_bounds d')"
    using assms
  proof (induction rule: rtranclp_induct)
    case base
    then show ?case by (simp add: flags_grow_refl)
  next
    case (step x y)
    then have ok: "assets_ok x" by simp
    obtain s p where c: "counted x y s p" and "bonus_total p = bonus_total (dyn_props x) + s"
      and "bonus_bounds x \<longrightarrow> bonus_bounds y"
      using bonus_step_counted [OF step(2) ok] by metis
    moreover have "flags_grow d y"
      using step ok countedD(6) [OF c ok] flags_grow_trans by blast
    ultimately show ?case using countedD(1-4) [OF c ok] step by simp
  qed
  then show "assets_ok d'" and "asset_gap a d' = asset_gap a d" and "flags_grow d d'"
    and "core_supply d' - bonus_total (dyn_props d') = core_supply d - bonus_total (dyn_props d)"
    and "bonus_bounds d \<Longrightarrow> bonus_bounds d'" by auto
qed

end

lemma bonus_conserving:
  assumes "fc_laws F"
  shows "conserving_operation (\<lambda>_. True) (welcome_bonus_evaluate o1) (welcome_bonus_apply F o1)"
    and "conserving_operation (\<lambda>_. True) (referral_bonus_evaluate o2) (referral_bonus_apply F o2)"
    and "conserving_operation (\<lambda>_. True) (sale_bonus_evaluate o3) (sale_bonus_apply F o3)"
    and "conserving_operation (\<lambda>_. True) (founder_bonus_evaluate o4) (founder_bonus_apply F o4)"
    and "conserving_operation (\<lambda>_. True) (witness_bonus_evaluate o5) (witness_bonus_apply F o5)"
  using fc_laws.bonus_results [OF assms] countedD(2)
  by (unfold_locales; fastforce simp: fee_booked_def)+

definition bonus_db :: database where
  "bonus_db = sample_db\<lparr>dyn_props := (dyn_props sample_db)\<lparr>founder_bonus := OMNIBAZAAR_FOUNDER_BONUS_COINS_LIMIT - 300\<rparr>\<rparr>"

definition bonus_op :: welcome_bonus_operation where
  "bonus_op = \<lparr>wb_fee = core_asset 0, wb_receiver = 7\<rparr>"

lemmas bonus_eval =
  bonus_db_def bonus_op_def welcome_bonus_evaluate_def welcome_bonus_apply_def founder_bonus_evaluate_def
  founder_bonus_apply_def get_founder_bonus_sum_def get_founder_account_def HARDFORK_OM_786_TIME_def
  OMNIBAZAAR_FOUNDER_ACCOUNT_def raise_supply_def modify_dyn_props_def no_clash_def
  adjust_balance_def asset_neg_def asset_ge_def asset_less_def checked_fc_def safe_check_def in_int64_def wrap64_def

lemma bonus_db_ok: "assets_ok bonus_db"
proof -
  have "assets bonus_db = assets sample_db" by (simp add: bonus_db_def)
  then show ?thesis using sample_assets_ok by (rule assets_ok_cong [THEN iffD2])
qed

lemma bonus_db_users: "users_count bonus_db = 5"
  by (simp add: users_count_def bonus_db_def sample_db_fields sample_accounts_def fcard_finsert_if)

lemma welcome_bonus_paid:
  "\<exists>d1. welcome_bonus_evaluate bonus_op bonus_db = Inr () \<and>
     welcome_bonus_apply checked_fc bonus_op bonus_db = Inr (core_asset 1000000000, d1)"
proof -
  have "get_welcome_bonus_amount bonus_db = 1000000000"
    by (simp add: get_welcome_bonus_amount_def bonus_db_users GRAPHENE_BLOCKCHAIN_PRECISION_def)
  then show ?thesis by (simp add: bonus_eval bonus_constants sample_eval)
qed

lemma founder_bonus_paid:
  "\<exists>d1. founder_bonus_evaluate \<lparr>fb_fee = core_asset 0, fb_payer = 7\<rparr> bonus_db = Inr () \<and>
     founder_bonus_apply checked_fc \<lparr>fb_fee = core_asset 0, fb_payer = 7\<rparr> bonus_db = Inr (core_asset 300, d1)"
  by (simp add: bonus_eval bonus_constants sample_eval)

section \<open>Properties\<close>

text \<open>C17. Every coin a bonus issues is accounted for: along any run of bonuses the supply of the core asset
  grows by exactly what the five counters grow by, and by exactly what the accounts receive.\<close>

theorem bonus_supply_accounted:
  assumes "fc_laws F" and "assets_ok d" and "(bonus_step F)\<^sup>*\<^sup>* d d'"
  shows "core_supply d' - core_supply d = bonus_total (dyn_props d') - bonus_total (dyn_props d) \<and>
    (\<forall>a. asset_gap a d' = asset_gap a d)"
  using fc_laws.bonus_run(2,4) [OF assms(1,3,2)] by fastforce

theorem bonus_supply_accounted_witness:
  "\<exists>d1. welcome_bonus_apply checked_fc bonus_op bonus_db = Inr (core_asset 1000000000, d1) \<and>
     core_supply d1 - core_supply bonus_db = bonus_total (dyn_props d1) - bonus_total (dyn_props bonus_db)"
proof -
  obtain d1 where e: "welcome_bonus_evaluate bonus_op bonus_db = Inr ()"
    and a: "welcome_bonus_apply checked_fc bonus_op bonus_db = Inr (core_asset 1000000000, d1)"
    using welcome_bonus_paid by blast
  have "(bonus_step checked_fc)\<^sup>*\<^sup>* bonus_db d1" using bonus_step.welcome_rule [OF e a] by blast
  from bonus_supply_accounted [OF checked.fc_laws_axioms bonus_db_ok this] a show ?thesis by blast
qed

text \<open>C28. The limits of the bonuses hold along any run: the founder bonus never passes its limit, and each
  other counter passes it by less than one payment.\<close>

theorem bonus_limits_hold:
  assumes "fc_laws F" and "assets_ok d" and "bonus_bounds d" and "(bonus_step F)\<^sup>*\<^sup>* d d'"
  shows "bonus_bounds d'"
  using fc_laws.bonus_run(5) [OF assms(1,4,2,3)] .

theorem bonus_limits_hold_witness:
  "\<exists>d1. founder_bonus_apply checked_fc \<lparr>fb_fee = core_asset 0, fb_payer = 7\<rparr> bonus_db = Inr (core_asset 300, d1) \<and>
     bonus_bounds d1"
proof -
  obtain d1 where e: "founder_bonus_evaluate \<lparr>fb_fee = core_asset 0, fb_payer = 7\<rparr> bonus_db = Inr ()"
    and a: "founder_bonus_apply checked_fc \<lparr>fb_fee = core_asset 0, fb_payer = 7\<rparr> bonus_db = Inr (core_asset 300, d1)"
    using founder_bonus_paid by blast
  have "(bonus_step checked_fc)\<^sup>*\<^sup>* bonus_db d1" using bonus_step.founder [OF e a] by blast
  moreover have "bonus_bounds bonus_db"
    by (simp add: bonus_bounds_def bonus_db_def sample_db_fields sample_dyn_props_fields sample_parameters_fields bonus_constants)
  ultimately show ?thesis using bonus_limits_hold [OF checked.fc_laws_axioms bonus_db_ok] a by blast
qed

text \<open>C29. No bonus is paid twice for the same thing: after an account has received the welcome bonus, no operation that
  names it as the receiver is accepted, whatever its other fields; after an account has earned its referrer the referral
  bonus, no operation that names it as the referred account; and after a sale bonus, no operation with the same
  seller and the same buyer, whoever pays for it. The evaluators refuse them in every state a run of bonuses leads to.\<close>

theorem bonus_paid_once:
  assumes "fc_laws F" and "assets_ok d" and "(bonus_step F)\<^sup>*\<^sup>* d1 d2"
  shows "(welcome_bonus_apply F w d = Inr (a, d1) \<longrightarrow>
      (\<forall>w'. wb_receiver w' = wb_receiver w \<longrightarrow> \<not> is_ok (welcome_bonus_evaluate w' d2))) \<and>
    (referral_bonus_apply F r d = Inr (a, d1) \<longrightarrow>
      (\<forall>r'. rb_referred_account r' = rb_referred_account r \<longrightarrow> \<not> is_ok (referral_bonus_evaluate r' d2))) \<and>
    (sale_bonus_apply F s d = Inr (a, d1) \<longrightarrow>
      (\<forall>s'. sb_seller s' = sb_seller s \<and> sb_buyer s' = sb_buyer s \<longrightarrow> \<not> is_ok (sale_bonus_evaluate s' d2)))"
proof -
  have grow: "flags_grow d1 d2" if "assets_ok d1" using fc_laws.bonus_run(3) [OF assms(1,3) that] .
  have acc: "\<exists>x'. get_account d2 i = Inr x' \<and> (received_welcome_bonus x \<longrightarrow> received_welcome_bonus x') \<and>
      (sent_referral_bonus x \<longrightarrow> sent_referral_bonus x') \<and> acc_buyers x \<subseteq> acc_buyers x'"
    if "assets_ok d1" "tbl_find (accounts d1) i = Some x" for i x
    using grow [OF that(1)] that(2) by (auto simp: flags_grow_def get_account_def)
  have "\<not> is_ok (welcome_bonus_evaluate w' d2)" if w: "welcome_bonus_apply F w d = Inr (a, d1)" and "wb_receiver w' = wb_receiver w" for w'
    using fc_laws.welcome_bonus_result [OF assms(1) w assms(2)] acc [of "wb_receiver w"] that(2)
      countedD(1) [OF fc_laws.welcome_bonus_result(1) [OF assms(1) w assms(2)] assms(2)]
    by (force simp: welcome_bonus_evaluate_def is_ok_iff)
  moreover have "\<not> is_ok (referral_bonus_evaluate r' d2)"
    if r: "referral_bonus_apply F r d = Inr (a, d1)" and "rb_referred_account r' = rb_referred_account r" for r'
    using fc_laws.referral_bonus_result [OF assms(1) r assms(2)] acc [of "rb_referred_account r"] that(2)
      countedD(1) [OF fc_laws.referral_bonus_result(1) [OF assms(1) r assms(2)] assms(2)]
    by (force simp: referral_bonus_evaluate_def is_ok_iff)
  moreover have "\<not> is_ok (sale_bonus_evaluate s' d2)"
    if s: "sale_bonus_apply F s d = Inr (a, d1)" and "sb_seller s' = sb_seller s" "sb_buyer s' = sb_buyer s" for s'
    using fc_laws.sale_bonus_result [OF assms(1) s assms(2)] acc [of "sb_seller s"] that(2,3)
      countedD(1) [OF fc_laws.sale_bonus_result(1) [OF assms(1) s assms(2)] assms(2)]
    by (force simp: sale_bonus_evaluate_def is_ok_iff split: if_splits)
  ultimately show ?thesis by blast
qed

theorem bonus_paid_once_witness:
  "\<exists>d1. welcome_bonus_apply checked_fc bonus_op bonus_db = Inr (core_asset 1000000000, d1) \<and>
     \<not> is_ok (welcome_bonus_evaluate (bonus_op\<lparr>wb_fee := core_asset 5\<rparr>) d1)"
proof -
  obtain d1 where a: "welcome_bonus_apply checked_fc bonus_op bonus_db = Inr (core_asset 1000000000, d1)"
    using welcome_bonus_paid by blast
  have "(bonus_step checked_fc)\<^sup>*\<^sup>* d1 d1" by simp
  moreover have "wb_receiver (bonus_op\<lparr>wb_fee := core_asset 5\<rparr>) = wb_receiver bonus_op" by simp
  ultimately show ?thesis using bonus_paid_once [OF checked.fc_laws_axioms bonus_db_ok] a by blast
qed

end
