(* ===== verification/Exchange.thy ===== *)
theory Exchange
  imports Evaluator
begin

text \<open>
  The exchange of coins of other chains (\<^verbatim>\<open>exchange.cpp\<close>, \<^verbatim>\<open>exchange_evaluator.cpp\<close>): the exchange
  account registers a payment a verified user made elsewhere, and completes it by paying the user. The
  flag that makes a user verified is set by \<^verbatim>\<open>verification_evaluator.cpp\<close>. The packed size of a string and
  \<^verbatim>\<open>fc::to_lower\<close> come from the fc library and are arguments.
\<close>

definition OMNIBAZAAR_KYC_ACCOUNT :: account_id where
  "OMNIBAZAAR_KYC_ACCOUNT = 7"

definition OMNIBAZAAR_EXCHANGE_ACCOUNT :: account_id where
  "OMNIBAZAAR_EXCHANGE_ACCOUNT = 8"

record exchange_create_operation =
  xc_fee :: asset
  xc_coin_name :: string
  xc_tx_id :: string
  xc_sender :: account_id
  xc_amount :: asset

record exchange_complete_operation =
  xd_fee :: asset
  xd_exchange :: nat
  xd_receiver :: account_id

record verification_operation =
  vf_fee :: asset
  vf_account :: account_id
  vf_status :: bool

subsection \<open>Validation and fees\<close>

definition exchange_create_validate :: "exchange_create_operation \<Rightarrow> unit result" where
  "exchange_create_validate op =
     ebind (fc_assert (0 \<le> amount (xc_fee op)) ''fee.amount >= 0'') (\<lambda>_.
     ebind (fc_assert (xc_coin_name op \<noteq> []) ''Coin name is empty.'') (\<lambda>_.
     ebind (fc_assert (xc_tx_id op \<noteq> []) ''Transaction ID is empty.'') (\<lambda>_.
     fc_assert (0 < amount (xc_amount op)) ''amount.amount > 0'')))"

definition exchange_create_calculate_fee ::
  "fc_lib \<Rightarrow> (string \<Rightarrow> nat) \<Rightarrow> exchange_create_operation \<Rightarrow> fee_parameters \<Rightarrow> share_type result" where
  "exchange_create_calculate_fee F pack_size op k =
     ebind (calculate_data_fee F (pack_size (xc_coin_name op) + pack_size (xc_tx_id op)) (fp_price_per_kbyte k)) (\<lambda>x.
     Inr (wrap64 (int (fp_fee k + x))))"

definition exchange_complete_validate :: "exchange_complete_operation \<Rightarrow> unit result" where
  "exchange_complete_validate op = fc_assert (0 \<le> amount (xd_fee op)) ''fee.amount >= 0''"

definition verification_validate :: "verification_operation \<Rightarrow> unit result" where
  "verification_validate op = fc_assert (0 \<le> amount (vf_fee op)) ''fee.amount >= 0''"

subsection \<open>Evaluators\<close>

text \<open>The index \<^verbatim>\<open>by_tx_id\<close> is unique.\<close>

definition exchange_clash :: "exchange_object \<Rightarrow> exchange_object \<Rightarrow> bool" where
  "exchange_clash a b \<longleftrightarrow> exc_tx_id a = exc_tx_id b"

definition get_exchange :: "database \<Rightarrow> nat \<Rightarrow> exchange_object result" where
  "get_exchange d i = tbl_get (exchanges d) i"

definition exchange_create_evaluate :: "exchange_create_operation \<Rightarrow> database \<Rightarrow> unit result" where
  "exchange_create_evaluate op d =
     ebind (fc_assert (fmpred (\<lambda>_ e. exc_tx_id e \<noteq> xc_tx_id op) (objs (exchanges d)))
              ''Transaction is already registered.'') (\<lambda>_.
     ebind (get_account d (xc_sender op)) (\<lambda>account.
     ebind (fc_assert (verified account) ''Account is not verified'') (\<lambda>_.
     ebind (get_account d OMNIBAZAAR_EXCHANGE_ACCOUNT) (\<lambda>_.
     ebind (get_asset d (asset_id (xc_amount op))) (\<lambda>_.
     fc_assert (amount (xc_amount op) \<le> amount (get_balance d OMNIBAZAAR_EXCHANGE_ACCOUNT (asset_id (xc_amount op))))
       ''Exchange does not have enough balance to complete operation.'')))))"

definition exchange_create_apply ::
  "(string \<Rightarrow> string) \<Rightarrow> exchange_create_operation \<Rightarrow> database \<Rightarrow> (nat \<times> database) result" where
  "exchange_create_apply to_lower op d =
     ebind (tbl_create exchange_clash (exchanges d)
        \<lparr>exc_coin_name = to_lower (xc_coin_name op), exc_tx_id = xc_tx_id op, exc_sender = xc_sender op,
          exc_amount = xc_amount op\<rparr>) (\<lambda>(i, t).
     Inr (i, d\<lparr>exchanges := t\<rparr>))"

definition exchange_complete_evaluate :: "exchange_complete_operation \<Rightarrow> database \<Rightarrow> unit result" where
  "exchange_complete_evaluate op d =
     ebind (get_exchange d (xd_exchange op)) (\<lambda>obj.
     fc_assert (exc_sender obj = xd_receiver op) ''Receiver was not initial sender'')"

definition exchange_complete_apply ::
  "fc_lib \<Rightarrow> exchange_complete_operation \<Rightarrow> database \<Rightarrow> (unit \<times> database) result" where
  "exchange_complete_apply F op d =
     ebind (get_exchange d (xd_exchange op)) (\<lambda>obj.
     ebind (asset_neg F (exc_amount obj)) (\<lambda>debit.
     ebind (adjust_balance F d OMNIBAZAAR_EXCHANGE_ACCOUNT debit) (\<lambda>d1.
     ebind (adjust_balance F d1 (xd_receiver op) (exc_amount obj)) (\<lambda>d2.
     Inr ((), d2\<lparr>exchanges := tbl_remove (exchanges d2) (xd_exchange op)\<rparr>)))))"

definition verification_evaluate :: "verification_operation \<Rightarrow> database \<Rightarrow> unit result" where
  "verification_evaluate op d =
     ebind (get_account d (vf_account op)) (\<lambda>account.
     fc_assert (vf_status op \<noteq> verified account) ''Account already has verification status'')"

definition verification_apply :: "verification_operation \<Rightarrow> database \<Rightarrow> (unit \<times> database) result" where
  "verification_apply op d =
     ebind (modify_account d (vf_account op) (\<lambda>a. a\<lparr>verified := vf_status op\<rparr>)) (\<lambda>d'. Inr ((), d'))"

section \<open>Lemmas\<close>

interpretation exchange_tx: unique_key exchange_clash
  by unfold_locales (auto simp: exchange_clash_def)

lemma exchanges_gap: "asset_gap a (d\<lparr>exchanges := t\<rparr>) = asset_gap a d"
  by (intro asset_gap_cong) simp_all

interpretation verification_op: conserving_operation "\<lambda>_. True" "verification_evaluate op" "verification_apply op" for op
  by unfold_locales (auto simp: verification_apply_def dest: modify_account_gap)

interpretation exchange_create_op: conserving_operation "\<lambda>_. True" "exchange_create_evaluate op"
  "exchange_create_apply to_lower op" for op to_lower
  by unfold_locales (auto simp: exchange_create_apply_def exchanges_gap)

context fc_laws
begin

lemma exchange_complete_result:
  assumes "exchange_complete_apply F op d = Inr (u, d')" and "tbl_find (exchanges d) (xd_exchange op) = Some x"
  shows "exchanges d' = tbl_remove (exchanges d) (xd_exchange op)"
    and "amount (get_balance d' a y) = amount (get_balance d a y)
      - (if a = OMNIBAZAAR_EXCHANGE_ACCOUNT \<and> y = asset_id (exc_amount x) then amount (exc_amount x) else 0)
      + (if a = xd_receiver op \<and> y = asset_id (exc_amount x) then amount (exc_amount x) else 0)"
    and "asset_gap b d' = asset_gap b d"
proof -
  from assms obtain debit d1 d2 where n: "asset_neg F (exc_amount x) = Inr debit"
    and d1: "adjust_balance F d OMNIBAZAAR_EXCHANGE_ACCOUNT debit = Inr d1"
    and d2: "adjust_balance F d1 (xd_receiver op) (exc_amount x) = Inr d2"
    and d': "d' = d2\<lparr>exchanges := tbl_remove (exchanges d2) (xd_exchange op)\<rparr>"
    by (auto simp: exchange_complete_apply_def get_exchange_def)
  show "exchanges d' = tbl_remove (exchanges d) (xd_exchange op)"
    using adjust_balance_frame [OF d1] adjust_balance_frame [OF d2] d' by auto
  have "get_balance d' a y = get_balance d2 a y" by (simp add: d' get_balance_def)
  with adjust_balance_get [OF d1, of a y] adjust_balance_get [OF d2, of a y] n
  show "amount (get_balance d' a y) = amount (get_balance d a y)
      - (if a = OMNIBAZAAR_EXCHANGE_ACCOUNT \<and> y = asset_id (exc_amount x) then amount (exc_amount x) else 0)
      + (if a = xd_receiver op \<and> y = asset_id (exc_amount x) then amount (exc_amount x) else 0)" by auto
  show "asset_gap b d' = asset_gap b d"
    using adjust_balance_gap [OF d1, of b] adjust_balance_gap [OF d2, of b] n d'
    by (auto simp: of_asset_def exchanges_gap)
qed

end

lemma exchange_complete_conserving:
  "fc_laws F \<Longrightarrow> conserving_operation (\<lambda>_. True) (exchange_complete_evaluate op) (exchange_complete_apply F op)"
  by unfold_locales
    (auto simp: exchange_complete_evaluate_def get_exchange_def fee_booked_def dest!: fc_laws.exchange_complete_result(3))

definition exchange_db :: database where
  "exchange_db = sample_db\<lparr>
     accounts := \<lparr>next_id = 10, objs = fmupd 6 (sample_account\<lparr>verified := True\<rparr>) (fmupd 8 sample_account fmempty)\<rparr>,
     balances := fmupd (8, 0) 500 (fmupd (6, 0) 100 fmempty)\<rparr>"

definition exchange_op :: exchange_create_operation where
  "exchange_op = \<lparr>xc_fee = core_asset 0, xc_coin_name = ''BTC'', xc_tx_id = ''t1'', xc_sender = 6,
     xc_amount = core_asset 300\<rparr>"

definition exchange_done :: exchange_complete_operation where
  "exchange_done = \<lparr>xd_fee = core_asset 0, xd_exchange = 0, xd_receiver = 6\<rparr>"

section \<open>Properties\<close>

text \<open>An exchange that was created is paid once: completing it in any state that still holds the object
  moves exactly the registered amount from the exchange account to the account that was registered as
  the sender, keeps every asset's books, and removes the object, so that it cannot be completed again.\<close>

theorem exchange_paid_once:
  assumes "fc_laws F" and "exchange_create_apply to_lower cop d0 = Inr (i, d1)"
    and "tbl_find (exchanges d) i = tbl_find (exchanges d1) i" and "xd_exchange op = i"
    and "exchange_complete_evaluate op d = Inr u" and "exchange_complete_apply F op d = Inr (v, d')"
  shows "xd_receiver op = xc_sender cop \<and>
    (\<forall>a y. amount (get_balance d' a y) = amount (get_balance d a y)
      - (if (a, y) = (OMNIBAZAAR_EXCHANGE_ACCOUNT, asset_id (xc_amount cop)) then amount (xc_amount cop) else 0)
      + (if (a, y) = (xc_sender cop, asset_id (xc_amount cop)) then amount (xc_amount cop) else 0)) \<and>
    (\<forall>b. asset_gap b d' = asset_gap b d) \<and>
    \<not> is_ok (exchange_complete_evaluate op d')"
proof -
  from assms(2) obtain x where x: "tbl_find (exchanges d1) i = Some x" "exc_sender x = xc_sender cop"
    "exc_amount x = xc_amount cop"
    by (auto simp: exchange_create_apply_def tbl_create_find)
  with assms(3,4) have f: "tbl_find (exchanges d) (xd_exchange op) = Some x" by simp
  note r = fc_laws.exchange_complete_result [OF assms(1,6) f]
  from assms(5) f x have "xd_receiver op = xc_sender cop"
    by (auto simp: exchange_complete_evaluate_def get_exchange_def)
  moreover have "\<not> is_ok (exchange_complete_evaluate op d')"
    using r(1) by (auto simp: exchange_complete_evaluate_def get_exchange_def is_ok_iff tbl_remove_find)
  ultimately show ?thesis using r(2,3) x by auto
qed

theorem exchange_paid_once_witness:
  "\<exists>d1 d'. exchange_create_evaluate exchange_op exchange_db = Inr () \<and>
     exchange_create_apply id exchange_op exchange_db = Inr (0, d1) \<and>
     exchange_complete_apply checked_fc exchange_done d1 = Inr ((), d') \<and>
     amount (get_balance d' 8 0) = amount (get_balance d1 8 0) - 300 \<and>
     amount (get_balance d' 6 0) = amount (get_balance d1 6 0) + 300"
proof -
  have e: "exchange_create_evaluate exchange_op exchange_db = Inr ()"
    by (simp add: exchange_create_evaluate_def exchange_op_def exchange_db_def OMNIBAZAAR_EXCHANGE_ACCOUNT_def
        get_balance_def sample_eval)
  have "\<exists>d1. exchange_create_apply id exchange_op exchange_db = Inr (0, d1) \<and>
      exchange_complete_evaluate exchange_done d1 = Inr () \<and> is_ok (exchange_complete_apply checked_fc exchange_done d1)"
    by (simp add: exchange_create_apply_def exchange_op_def exchange_db_def exchange_done_def exchange_clash_def
        exchange_complete_evaluate_def exchange_complete_apply_def get_exchange_def OMNIBAZAAR_EXCHANGE_ACCOUNT_def
        adjust_balance_def asset_neg_def asset_ge_def asset_less_def checked_fc_def safe_check_def in_int64_def sample_eval)
  then obtain d1 where c: "exchange_create_apply id exchange_op exchange_db = Inr (0, d1)"
    and v: "exchange_complete_evaluate exchange_done d1 = Inr ()"
    and ok: "is_ok (exchange_complete_apply checked_fc exchange_done d1)" by blast
  from ok [unfolded is_ok_iff] obtain r where "exchange_complete_apply checked_fc exchange_done d1 = Inr r" ..
  then obtain d' where a: "exchange_complete_apply checked_fc exchange_done d1 = Inr ((), d')" by (cases r) auto
  have "xd_exchange exchange_done = 0" by (simp add: exchange_done_def)
  from exchange_paid_once [OF checked.fc_laws_axioms c refl this v a] e c a show ?thesis
    by (auto simp: exchange_op_def OMNIBAZAAR_EXCHANGE_ACCOUNT_def)
qed

end
