(* ===== verification/Vesting_Ops.thy ===== *)
theory Vesting_Ops
  imports Evaluator
begin

text \<open>
  \<^verbatim>\<open>vesting_balance_evaluator.cpp\<close>: an account locks coins in a vesting balance, and its owner
  withdraws what has vested.
\<close>

datatype vesting_policy_initializer =
    Linear_init (init_begin_timestamp: time_sec) (init_cliff_seconds: nat) (init_duration_seconds: nat)
  | Cdd_init (init_start_claim: time_sec) (init_vesting_seconds: nat)

record vesting_balance_create_operation =
  vc_fee :: asset
  vc_creator :: account_id
  vc_owner :: account_id
  vc_amount :: asset
  vc_policy :: vesting_policy_initializer

record vesting_balance_withdraw_operation =
  vw_fee :: asset
  vw_vesting_balance :: nat
  vw_owner :: account_id
  vw_amount :: asset

definition vesting_balance_create_validate :: "vesting_balance_create_operation \<Rightarrow> unit result" where
  "vesting_balance_create_validate op =
     ebind (fc_assert (0 \<le> amount (vc_fee op)) ''fee.amount >= 0'') (\<lambda>_.
     fc_assert (0 < amount (vc_amount op)) ''amount.amount > 0'')"

definition vesting_balance_withdraw_validate :: "vesting_balance_withdraw_operation \<Rightarrow> unit result" where
  "vesting_balance_withdraw_validate op =
     ebind (fc_assert (0 \<le> amount (vw_fee op)) ''fee.amount >= 0'') (\<lambda>_.
     fc_assert (0 < amount (vw_amount op)) ''amount.amount > 0'')"

definition vesting_balance_create_evaluate :: "vesting_balance_create_operation \<Rightarrow> database \<Rightarrow> unit result" where
  "vesting_balance_create_evaluate op d =
     ebind (get_account d (vc_creator op)) (\<lambda>_.
     ebind (get_account d (vc_owner op)) (\<lambda>_.
     ebind (fc_assert (0 < amount (vc_amount op)) ''op.amount.amount > 0'') (\<lambda>_.
     ebind (asset_ge (get_balance d (vc_creator op) (asset_id (vc_amount op))) (vc_amount op)) (\<lambda>enough.
     ebind (fc_assert enough ''get_balance >= op.amount'') (\<lambda>_.
     ebind (get_asset d (asset_id (vc_amount op))) (\<lambda>asset_type.
     fc_assert (\<not> transfer_restricted asset_type) ''!is_transfer_restricted()''))))))"

definition init_policy_visitor :: "vesting_policy_initializer \<Rightarrow> share_type \<Rightarrow> time_sec \<Rightarrow> vesting_policy" where
  "init_policy_visitor i init_balance now =
     (case i of
        Linear_init bt cliff dur \<Rightarrow>
          Linear \<lparr>begin_timestamp = bt, vesting_cliff_seconds = cliff, vesting_duration_seconds = dur,
                  begin_balance = init_balance\<rparr>
      | Cdd_init sc vs \<Rightarrow>
          Cdd \<lparr>vesting_seconds = vs, coin_seconds_earned = 0, start_claim = sc,
               coin_seconds_earned_last_update = now\<rparr>)"

definition vesting_balance_create_apply ::
  "fc_lib \<Rightarrow> vesting_balance_create_operation \<Rightarrow> database \<Rightarrow> (nat \<times> database) result" where
  "vesting_balance_create_apply F op d =
     (let now = head_block_time d in
     ebind (asset_ge (get_balance d (vc_creator op) (asset_id (vc_amount op))) (vc_amount op)) (\<lambda>enough.
     ebind (fc_assert enough ''get_balance >= op.amount'') (\<lambda>_.
     ebind (asset_neg F (vc_amount op)) (\<lambda>debit.
     ebind (adjust_balance F d (vc_creator op) debit) (\<lambda>d1.
     create_vesting d1 \<lparr>vb_owner = vc_owner op, vb_balance = vc_amount op,
       vb_policy = init_policy_visitor (vc_policy op) (amount (vc_amount op)) now, vb_type = No_type\<rparr>)))))"

definition vesting_balance_withdraw_evaluate ::
  "fc_lib \<Rightarrow> vesting_balance_withdraw_operation \<Rightarrow> database \<Rightarrow> unit result" where
  "vesting_balance_withdraw_evaluate F op d =
     (let now = head_block_time d in
     ebind (tbl_get (vestings d) (vw_vesting_balance op)) (\<lambda>vbo.
     ebind (fc_assert (vw_owner op = vb_owner vbo) ''op.owner == vbo.owner'') (\<lambda>_.
     ebind (vbo_is_withdraw_allowed F vbo now (vw_amount op)) (\<lambda>allowed.
     ebind (fc_assert allowed ''vbo.is_withdraw_allowed( now, op.amount )'') (\<lambda>_.
     ebind (get_account d (vw_owner op)) (\<lambda>_. Inr ()))))))"

definition vesting_balance_withdraw_apply ::
  "fc_lib \<Rightarrow> vesting_balance_withdraw_operation \<Rightarrow> database \<Rightarrow> (unit \<times> database) result" where
  "vesting_balance_withdraw_apply F op d =
     (let now = head_block_time d in
     ebind (tbl_get (vestings d) (vw_vesting_balance op)) (\<lambda>vbo.
     ebind (vbo_withdraw F vbo now (vw_amount op)) (\<lambda>vbo'.
     ebind (modify_vesting d (vw_vesting_balance op) (\<lambda>_. vbo')) (\<lambda>d1.
     ebind (adjust_balance F d1 (vw_owner op) (vw_amount op)) (\<lambda>d2.
     Inr ((), d2))))))"

section \<open>Lemmas\<close>

text \<open>Every vesting balance of the state is well formed at the time of the head block.\<close>

definition vestings_ok :: "database \<Rightarrow> bool" where
  "vestings_ok d \<longleftrightarrow> (\<forall>i vb. tbl_find (vestings d) i = Some vb \<longrightarrow> vbo_ok vb (head_block_time d))"

definition initializer_ok :: "vesting_policy_initializer \<Rightarrow> bool" where
  "initializer_ok i =
     (case i of Linear_init bt cliff dur \<Rightarrow> dur < 2 ^ 32 | Cdd_init sc vs \<Rightarrow> vs < 2 ^ 32)"

lemma init_policy_ok:
  assumes "initializer_ok i" and "0 \<le> amount b" and "in_int64 (amount b)" and "now < 2 ^ 32"
  shows "vbo_ok \<lparr>vb_owner = w, vb_balance = b, vb_policy = init_policy_visitor i (amount b) now, vb_type = ty\<rparr> now"
  using assms
  by (auto simp: vbo_ok_def init_policy_visitor_def initializer_ok_def linear_ok_def linear_vested_def cdd_ok_def
      pos_imp_zdiv_nonneg_iff split: vesting_policy_initializer.splits)

context fc_laws
begin

lemma vesting_create_result:
  assumes "vesting_balance_create_apply F op d = Inr (i, d')"
  shows "tbl_find (vestings d') j = (if j = i then Some \<lparr>vb_owner = vc_owner op, vb_balance = vc_amount op,
       vb_policy = init_policy_visitor (vc_policy op) (amount (vc_amount op)) (head_block_time d), vb_type = No_type\<rparr>
       else tbl_find (vestings d) j)"
    and "asset_gap a d' = asset_gap a d" and "head_block_time d' = head_block_time d"
    and "amount (get_balance d' b y) = amount (get_balance d b y)
      - (if b = vc_creator op \<and> y = asset_id (vc_amount op) then amount (vc_amount op) else 0)"
proof -
  let ?vb = "\<lparr>vb_owner = vc_owner op, vb_balance = vc_amount op,
       vb_policy = init_policy_visitor (vc_policy op) (amount (vc_amount op)) (head_block_time d), vb_type = No_type\<rparr>"
  from assms obtain debit d1 where n: "asset_neg F (vc_amount op) = Inr debit"
    and d1: "adjust_balance F d (vc_creator op) debit = Inr d1" and d': "create_vesting d1 ?vb = Inr (i, d')"
    by (auto simp: vesting_balance_create_apply_def Let_def)
  from d' obtain t where t: "tbl_create no_clash (vestings d1) ?vb = Inr (i, t)" and e: "d' = d1\<lparr>vestings := t\<rparr>"
    by (auto simp: create_vesting_def)
  note f = adjust_balance_frame [OF d1]
  show "tbl_find (vestings d') j = (if j = i then Some ?vb else tbl_find (vestings d) j)"
    using f e tbl_create_find [OF t, of j] by auto
  show "head_block_time d' = head_block_time d" using f e by (auto simp: head_block_time_def)
  show "asset_gap a d' = asset_gap a d"
    using adjust_balance_gap [OF d1, of a] create_vesting_gap [OF d', of a] n by (auto simp: of_asset_def)
  have "get_balance d' b y = get_balance d1 b y" using e by (simp add: get_balance_def)
  with adjust_balance_get [OF d1, of b y] n
  show "amount (get_balance d' b y) = amount (get_balance d b y)
      - (if b = vc_creator op \<and> y = asset_id (vc_amount op) then amount (vc_amount op) else 0)" by auto
qed

lemma vesting_withdraw_result:
  assumes "vesting_balance_withdraw_apply F op d = Inr (u, d')" and "tbl_find (vestings d) (vw_vesting_balance op) = Some vb"
  shows "\<exists>vb'. vbo_withdraw F vb (head_block_time d) (vw_amount op) = Inr vb' \<and>
      (\<forall>j. tbl_find (vestings d') j = (if j = vw_vesting_balance op then Some vb' else tbl_find (vestings d) j))"
    and "asset_gap a d' = asset_gap a d" and "head_block_time d' = head_block_time d"
    and "amount (get_balance d' b y) = amount (get_balance d b y)
      + (if b = vw_owner op \<and> y = asset_id (vw_amount op) then amount (vw_amount op) else 0)"
proof -
  from assms obtain vb' d1 where v: "vbo_withdraw F vb (head_block_time d) (vw_amount op) = Inr vb'"
    and d1: "modify_vesting d (vw_vesting_balance op) (\<lambda>_. vb') = Inr d1"
    and d2: "adjust_balance F d1 (vw_owner op) (vw_amount op) = Inr d'"
    by (auto simp: vesting_balance_withdraw_apply_def Let_def)
  from d1 obtain t where t: "tbl_modify no_clash (vestings d) (vw_vesting_balance op) (\<lambda>_. vb') = Inr t"
    and e: "d1 = d\<lparr>vestings := t\<rparr>"
    by (auto simp: modify_vesting_def)
  note f = adjust_balance_frame [OF d2]
  from v tbl_modify_find [OF t] f e assms(2)
  show "\<exists>vb'. vbo_withdraw F vb (head_block_time d) (vw_amount op) = Inr vb' \<and>
      (\<forall>j. tbl_find (vestings d') j = (if j = vw_vesting_balance op then Some vb' else tbl_find (vestings d) j))"
    by auto
  show "head_block_time d' = head_block_time d" using f e by (auto simp: head_block_time_def)
  have "vb_balance vb' = (vb_balance vb)\<lparr>amount := amount (vb_balance vb) - amount (vw_amount op)\<rparr>"
    "asset_id (vw_amount op) = asset_id (vb_balance vb)"
    using v by (auto simp: vbo_withdraw_def Let_def)
  with modify_vesting_gap [OF d1 assms(2), of a] adjust_balance_gap [OF d2, of a]
  show "asset_gap a d' = asset_gap a d" by (auto simp: of_asset_def)
  have "get_balance d1 b y = get_balance d b y" using e by (simp add: get_balance_def)
  with adjust_balance_get [OF d2, of b y]
  show "amount (get_balance d' b y) = amount (get_balance d b y)
      + (if b = vw_owner op \<and> y = asset_id (vw_amount op) then amount (vw_amount op) else 0)" by auto
qed

end

lemma vesting_create_conserving:
  "fc_laws F \<Longrightarrow> conserving_operation (\<lambda>_. True) (vesting_balance_create_evaluate op) (vesting_balance_create_apply F op)"
  by unfold_locales (auto dest: fc_laws.vesting_create_result(2))

lemma vesting_withdraw_conserving:
  "fc_laws F \<Longrightarrow> conserving_operation (\<lambda>_. True) (vesting_balance_withdraw_evaluate F op) (vesting_balance_withdraw_apply F op)"
  by unfold_locales
    (auto simp: vesting_balance_withdraw_evaluate_def Let_def fee_booked_def dest!: fc_laws.vesting_withdraw_result(2))

definition vesting_db :: database where
  "vesting_db = sample_db\<lparr>vestings := \<lparr>next_id = 1, objs = fmupd 0
     \<lparr>vb_owner = 7, vb_balance = core_asset 1000, vb_policy = Cdd \<lparr>vesting_seconds = 100, coin_seconds_earned = 20000,
       start_claim = 0, coin_seconds_earned_last_update = 1559999970\<rparr>, vb_type = No_type\<rparr> fmempty\<rparr>\<rparr>"

definition vesting_withdrawal :: vesting_balance_withdraw_operation where
  "vesting_withdrawal = \<lparr>vw_fee = core_asset 0, vw_vesting_balance = 0, vw_owner = 7, vw_amount = core_asset 350\<rparr>"

context fc_laws
begin

lemma vesting_create_ok:
  assumes ok: "vestings_ok d" and now: "head_block_time d < 2 ^ 32"
    and v: "vesting_balance_create_validate c = Inr u1" "initializer_ok (vc_policy c)" "in_int64 (amount (vc_amount c))"
    and a: "vesting_balance_create_apply F c d = Inr (i, d1)"
  shows "vestings_ok d1"
proof -
  note r = vesting_create_result [OF a]
  have "0 \<le> amount (vc_amount c)" using v(1) by (auto simp: vesting_balance_create_validate_def)
  from init_policy_ok [OF v(2) this v(3) now] r(1,3) ok show ?thesis by (auto simp: vestings_ok_def)
qed

lemma vesting_withdraw_ok:
  assumes st: "vestings_ok d" and v: "vesting_balance_withdraw_validate w = Inr u2"
    and e: "vesting_balance_withdraw_evaluate F w d = Inr u3" and a: "vesting_balance_withdraw_apply F w d = Inr (u4, d2)"
  shows "vestings_ok d2 \<and>
      (\<exists>vb vb'. tbl_find (vestings d) (vw_vesting_balance w) = Some vb \<and> vb_owner vb = vw_owner w \<and>
        tbl_find (vestings d2) (vw_vesting_balance w) = Some vb' \<and>
        amount (vw_amount w) \<le> vbo_vested vb (head_block_time d) \<and>
        amount (vb_balance vb') = amount (vb_balance vb) - amount (vw_amount w) \<and>
        amount (get_balance d2 (vw_owner w) (asset_id (vw_amount w)))
          = amount (get_balance d (vw_owner w) (asset_id (vw_amount w))) + amount (vw_amount w))"
proof -
  from e obtain vb where vb: "tbl_find (vestings d) (vw_vesting_balance w) = Some vb" "vb_owner vb = vw_owner w"
    and al: "vbo_is_withdraw_allowed F vb (head_block_time d) (vw_amount w) = Inr True"
    by (auto simp: vesting_balance_withdraw_evaluate_def Let_def)
  note r = vesting_withdraw_result [OF a vb(1)]
  from r(1) obtain vb' where vb': "vbo_withdraw F vb (head_block_time d) (vw_amount w) = Inr vb'"
    and t: "\<And>j. tbl_find (vestings d2) j = (if j = vw_vesting_balance w then Some vb' else tbl_find (vestings d) j)"
    by blast
  have am: "asset_id (vw_amount w) = asset_id (vb_balance vb)"
    using vb' by (auto simp: vbo_withdraw_def Let_def)
  then have am': "\<lparr>amount = amount (vw_amount w), asset_id = asset_id (vb_balance vb)\<rparr> = vw_amount w" by (metis asset_eta)
  have ok: "vbo_ok vb (head_block_time d)" using st vb(1) by (simp add: vestings_ok_def)
  have pos: "0 \<le> amount (vw_amount w)" using v by (auto simp: vesting_balance_withdraw_validate_def)
  have le: "amount (vw_amount w) \<le> vbo_vested vb (head_block_time d)"
    using vbo_is_withdraw_allowed_exact [OF ok am] al by simp
  from vbo_withdraw_exact [OF ok pos le] vb' am' have "vbo_ok vb' (head_block_time d)"
    "amount (vb_balance vb') = amount (vb_balance vb) - amount (vw_amount w)" by auto
  then show ?thesis
    using t r(3) r(4) [of "vw_owner w" "asset_id (vw_amount w)"] st vb le by (auto simp: vestings_ok_def)
qed

end

lemma vesting_withdrawn:
  "\<exists>d2. vesting_balance_withdraw_evaluate checked_fc vesting_withdrawal vesting_db = Inr () \<and>
     vesting_balance_withdraw_apply checked_fc vesting_withdrawal vesting_db = Inr ((), d2)"
proof -
  let ?vb = "\<lparr>vb_owner = 7, vb_balance = core_asset 1000, vb_policy = Cdd \<lparr>vesting_seconds = 100, coin_seconds_earned = 20000,
       start_claim = 0, coin_seconds_earned_last_update = 1559999970\<rparr>, vb_type = No_type\<rparr>"
  have ok: "vbo_ok ?vb 1560000000" and v: "vbo_vested ?vb 1560000000 = 500"
    by (simp_all add: vbo_ok_def cdd_ok_def vbo_vested_def cdd_vested_def cdd_accrued_def vs1_def in_int64_def)
  have "vbo_is_withdraw_allowed checked_fc ?vb 1560000000 (core_asset 350) = Inr True"
    using checked.vbo_is_withdraw_allowed_exact [OF ok, of "core_asset 350"] v by simp
  moreover obtain vb' where "vbo_withdraw checked_fc ?vb 1560000000 (core_asset 350) = Inr vb'"
    using checked.vbo_withdraw_exact [OF ok, of 350] v by (auto simp: core_asset_def)
  moreover have "tbl_find (vestings vesting_db) 0 = Some ?vb" "head_block_time vesting_db = 1560000000"
    by (simp_all add: vesting_db_def sample_eval)
  ultimately show ?thesis
    by (simp add: vesting_balance_withdraw_evaluate_def vesting_balance_withdraw_apply_def vesting_withdrawal_def
        tbl_get_def get_account_def modify_vesting_def tbl_modify_def no_clash_def adjust_balance_def vesting_db_def sample_db_fields sample_accounts_fields
        checked_fc_def safe_check_def in_int64_def tbl_find_def)
qed

section \<open>Properties\<close>

text \<open>The vesting operations keep every vesting balance well formed, and a withdrawal the checks
  accept pays the owner exactly what it takes from the balance, at most what has vested at the time
  of the head block.\<close>

theorem vesting_ops_sound:
  assumes "fc_laws F" and "vestings_ok d" and "head_block_time d < 2 ^ 32"
  shows "(vesting_balance_create_validate c = Inr u1 \<and> initializer_ok (vc_policy c) \<and> in_int64 (amount (vc_amount c)) \<and>
      vesting_balance_create_apply F c d = Inr (i, d1) \<longrightarrow> vestings_ok d1) \<and>
    (vesting_balance_withdraw_validate w = Inr u2 \<and> vesting_balance_withdraw_evaluate F w d = Inr u3 \<and>
      vesting_balance_withdraw_apply F w d = Inr (u4, d2) \<longrightarrow>
      vestings_ok d2 \<and>
      (\<exists>vb vb'. tbl_find (vestings d) (vw_vesting_balance w) = Some vb \<and> vb_owner vb = vw_owner w \<and>
        tbl_find (vestings d2) (vw_vesting_balance w) = Some vb' \<and>
        amount (vw_amount w) \<le> vbo_vested vb (head_block_time d) \<and>
        amount (vb_balance vb') = amount (vb_balance vb) - amount (vw_amount w) \<and>
        amount (get_balance d2 (vw_owner w) (asset_id (vw_amount w)))
          = amount (get_balance d (vw_owner w) (asset_id (vw_amount w))) + amount (vw_amount w)))"
  using fc_laws.vesting_create_ok [OF assms] fc_laws.vesting_withdraw_ok [OF assms(1,2)] by blast

theorem vesting_ops_sound_witness:
  "\<exists>d2. vesting_balance_withdraw_apply checked_fc vesting_withdrawal vesting_db = Inr ((), d2) \<and>
     vestings_ok d2 \<and> amount (get_balance d2 7 0) = amount (get_balance vesting_db 7 0) + 350"
proof -
  have v: "vesting_balance_withdraw_validate vesting_withdrawal = Inr ()"
    by (simp add: vesting_balance_withdraw_validate_def vesting_withdrawal_def)
  obtain d2 where a: "vesting_balance_withdraw_apply checked_fc vesting_withdrawal vesting_db = Inr ((), d2)"
    and e: "vesting_balance_withdraw_evaluate checked_fc vesting_withdrawal vesting_db = Inr ()"
    using vesting_withdrawn by blast
  have st: "vestings_ok vesting_db" "head_block_time vesting_db < 2 ^ 32"
    by (auto simp: vestings_ok_def vesting_db_def sample_eval vbo_ok_def cdd_ok_def vs1_def in_int64_def split: if_splits)
  note p = vesting_ops_sound [OF checked.fc_laws_axioms st, THEN conjunct2, THEN mp, OF conjI [OF v conjI [OF e a]]]
  then have "vestings_ok d2" "amount (get_balance d2 (vw_owner vesting_withdrawal) (asset_id (vw_amount vesting_withdrawal)))
      = amount (get_balance vesting_db (vw_owner vesting_withdrawal) (asset_id (vw_amount vesting_withdrawal)))
        + amount (vw_amount vesting_withdrawal)"
    by blast+
  with a show ?thesis by (simp add: vesting_withdrawal_def)
qed

end
