(* ===== verification/Operations.thy ===== *)
theory Operations
  imports Transfers Bonus Exchange Vesting_Ops
begin

text \<open>
  The discriminated union of operations (\<^verbatim>\<open>protocol/operations.hpp\<close>), its visitors
  (\<^verbatim>\<open>operation_validate\<close>, \<^verbatim>\<open>operation_get_required_authorities\<close>) and the dispatch of
  \<^verbatim>\<open>database::apply_operation\<close> to the evaluator of each alternative. Of the operations of the chain the
  union has those whose evaluators are modelled.
\<close>

record string_lib =
  pack_size :: "string \<Rightarrow> nat"
  to_lower :: "string \<Rightarrow> string"

datatype operation =
    Transfer transfer_operation
  | Override_transfer override_transfer_operation
  | Listing_create listing_create_operation
  | Listing_update listing_update_operation
  | Listing_delete listing_delete_operation
  | Listing_report listing_report_operation
  | Escrow_create escrow_create_operation
  | Escrow_release escrow_close_operation
  | Escrow_return escrow_close_operation
  | Escrow_extend escrow_extend_operation
  | Welcome_bonus welcome_bonus_operation
  | Referral_bonus referral_bonus_operation
  | Sale_bonus sale_bonus_operation
  | Founder_bonus founder_bonus_operation
  | Witness_bonus witness_bonus_operation
  | Exchange_create exchange_create_operation
  | Exchange_complete exchange_complete_operation
  | Verification verification_operation
  | Vesting_balance_create vesting_balance_create_operation
  | Vesting_balance_withdraw vesting_balance_withdraw_operation

datatype operation_result = Void_result | Object_id nat | Asset_result asset

definition operation_validate :: "operation \<Rightarrow> unit result" where
  "operation_validate op =
     (case op of
        Transfer x \<Rightarrow> transfer_validate x
      | Override_transfer x \<Rightarrow> override_transfer_validate x
      | Listing_create x \<Rightarrow> listing_create_validate x
      | Listing_update x \<Rightarrow> listing_update_validate x
      | Listing_delete x \<Rightarrow> listing_delete_validate x
      | Listing_report x \<Rightarrow> listing_report_validate x
      | Escrow_create x \<Rightarrow> escrow_create_validate x
      | Escrow_release x \<Rightarrow> escrow_release_validate x
      | Escrow_return x \<Rightarrow> escrow_return_validate x
      | Escrow_extend x \<Rightarrow> escrow_extend_validate x
      | Welcome_bonus x \<Rightarrow> welcome_bonus_validate x
      | Referral_bonus x \<Rightarrow> referral_bonus_validate x
      | Sale_bonus x \<Rightarrow> sale_bonus_validate x
      | Founder_bonus x \<Rightarrow> founder_bonus_validate x
      | Witness_bonus x \<Rightarrow> witness_bonus_validate x
      | Exchange_create x \<Rightarrow> exchange_create_validate x
      | Exchange_complete x \<Rightarrow> exchange_complete_validate x
      | Verification x \<Rightarrow> verification_validate x
      | Vesting_balance_create x \<Rightarrow> vesting_balance_create_validate x
      | Vesting_balance_withdraw x \<Rightarrow> vesting_balance_withdraw_validate x)"

subsection \<open>Who has to sign\<close>

definition fee_payer :: "operation \<Rightarrow> account_id" where
  "fee_payer op =
     (case op of
        Transfer x \<Rightarrow> tr_from x
      | Override_transfer x \<Rightarrow> ot_issuer x
      | Listing_create x \<Rightarrow> lc_seller x
      | Listing_update x \<Rightarrow> lu_seller x
      | Listing_delete x \<Rightarrow> ld_seller x
      | Listing_report x \<Rightarrow> lr_reporting_account x
      | Escrow_create x \<Rightarrow> ec_buyer x
      | Escrow_release x \<Rightarrow> es_fee_paying_account x
      | Escrow_return x \<Rightarrow> es_fee_paying_account x
      | Escrow_extend x \<Rightarrow> ee_fee_paying_account x
      | Welcome_bonus x \<Rightarrow> OMNIBAZAAR_WELCOME_ACCOUNT
      | Referral_bonus x \<Rightarrow> rb_referred_account x
      | Sale_bonus x \<Rightarrow> sb_payer x
      | Founder_bonus x \<Rightarrow> fb_payer x
      | Witness_bonus x \<Rightarrow> nb_payer x
      | Exchange_create x \<Rightarrow> OMNIBAZAAR_EXCHANGE_ACCOUNT
      | Exchange_complete x \<Rightarrow> OMNIBAZAAR_EXCHANGE_ACCOUNT
      | Verification x \<Rightarrow> OMNIBAZAAR_KYC_ACCOUNT
      | Vesting_balance_create x \<Rightarrow> vc_creator x
      | Vesting_balance_withdraw x \<Rightarrow> vw_owner x)"

text \<open>\<^verbatim>\<open>operation_get_required_authorities\<close>: the accounts whose active authority is needed, and the other
  authorities. No modelled operation asks for an owner authority.\<close>

definition required_active :: "operation \<Rightarrow> account_id fset" where
  "required_active op = finsert (fee_payer op)
     (case op of
        Escrow_create x \<Rightarrow> escrow_create_required_active x
      | Escrow_extend x \<Rightarrow> escrow_extend_required_active x
      | _ \<Rightarrow> {||})"

definition required_other :: "operation \<Rightarrow> authority list" where
  "required_other op =
     (case op of
        Escrow_create x \<Rightarrow> escrow_create_required_authorities x
      | Escrow_release x \<Rightarrow> escrow_release_required_authorities x
      | Escrow_return x \<Rightarrow> escrow_return_required_authorities x
      | _ \<Rightarrow> [])"

subsection \<open>Applying an operation\<close>

definition with_result :: "('r \<Rightarrow> operation_result) \<Rightarrow> ('r \<times> database) result \<Rightarrow> (operation_result \<times> database) result" where
  "with_result f r = ebind r (\<lambda>(x, d). Inr (f x, d))"

definition apply_operation ::
  "fc_lib \<Rightarrow> string_lib \<Rightarrow> evaluation_state \<Rightarrow> operation \<Rightarrow> database \<Rightarrow> (operation_result \<times> database) result" where
  "apply_operation F S st op d =
     (let void = (\<lambda>_. Void_result) in
      case op of
        Transfer x \<Rightarrow> with_result void
          (start_evaluate F st (fee_payer op) (tr_fee x) Op_transfer (transfer_calculate_fee F x)
             (transfer_evaluate F x) (transfer_apply F x) d)
      | Override_transfer x \<Rightarrow> with_result void
          (start_evaluate F st (fee_payer op) (ot_fee x) Op_override_transfer (override_transfer_calculate_fee F x)
             (override_transfer_evaluate x) (override_transfer_apply F x) d)
      | Listing_create x \<Rightarrow> with_result Object_id
          (start_evaluate F st (fee_payer op) (lc_fee x) Op_listing_create base_calculate_fee
             (listing_create_evaluate F x) (listing_create_apply F x) d)
      | Listing_update x \<Rightarrow> with_result void
          (start_evaluate F st (fee_payer op) (lu_fee x) Op_listing_update base_calculate_fee
             (listing_update_evaluate F x) (listing_update_apply F x) d)
      | Listing_delete x \<Rightarrow> with_result void
          (start_evaluate F st (fee_payer op) (ld_fee x) Op_listing_delete base_calculate_fee
             (listing_delete_evaluate x) (listing_delete_apply x) d)
      | Listing_report x \<Rightarrow> with_result void
          (start_evaluate F st (fee_payer op) (lr_fee x) Op_listing_report base_calculate_fee
             (listing_report_evaluate x) (listing_report_apply x) d)
      | Escrow_create x \<Rightarrow> with_result Object_id
          (start_evaluate F st (fee_payer op) (ec_fee x) Op_escrow_create (escrow_create_calculate_fee F x)
             (escrow_create_evaluate F x) (escrow_create_apply F x) d)
      | Escrow_release x \<Rightarrow> with_result void
          (start_evaluate F st (fee_payer op) (es_fee x) Op_escrow_release (escrow_release_calculate_fee F x)
             (escrow_release_evaluate x) (escrow_release_apply F x) d)
      | Escrow_return x \<Rightarrow> with_result void
          (start_evaluate F st (fee_payer op) (es_fee x) Op_escrow_return (escrow_return_calculate_fee F x)
             (escrow_return_evaluate x) (escrow_return_apply F x) d)
      | Escrow_extend x \<Rightarrow> with_result void
          (start_evaluate F st (fee_payer op) (ee_fee x) Op_escrow_extend (escrow_extend_calculate_fee F x)
             (escrow_extend_evaluate F x) (escrow_extend_apply x) d)
      | Welcome_bonus x \<Rightarrow> with_result Asset_result
          (start_evaluate F st (fee_payer op) (wb_fee x) Op_welcome_bonus base_calculate_fee
             (welcome_bonus_evaluate x) (welcome_bonus_apply F x) d)
      | Referral_bonus x \<Rightarrow> with_result Asset_result
          (start_evaluate F st (fee_payer op) (rb_fee x) Op_referral_bonus base_calculate_fee
             (referral_bonus_evaluate x) (referral_bonus_apply F x) d)
      | Sale_bonus x \<Rightarrow> with_result Asset_result
          (start_evaluate F st (fee_payer op) (sb_fee x) Op_sale_bonus base_calculate_fee
             (sale_bonus_evaluate x) (sale_bonus_apply F x) d)
      | Founder_bonus x \<Rightarrow> with_result Asset_result
          (start_evaluate F st (fee_payer op) (fb_fee x) Op_founder_bonus base_calculate_fee
             (founder_bonus_evaluate x) (founder_bonus_apply F x) d)
      | Witness_bonus x \<Rightarrow> with_result Asset_result
          (start_evaluate F st (fee_payer op) (nb_fee x) Op_witness_bonus base_calculate_fee
             (witness_bonus_evaluate x) (witness_bonus_apply F x) d)
      | Exchange_create x \<Rightarrow> with_result Object_id
          (start_evaluate F st (fee_payer op) (xc_fee x) Op_exchange_create (exchange_create_calculate_fee F (pack_size S) x)
             (exchange_create_evaluate x) (exchange_create_apply (to_lower S) x) d)
      | Exchange_complete x \<Rightarrow> with_result void
          (start_evaluate F st (fee_payer op) (xd_fee x) Op_exchange_complete base_calculate_fee
             (exchange_complete_evaluate x) (exchange_complete_apply F x) d)
      | Verification x \<Rightarrow> with_result void
          (start_evaluate F st (fee_payer op) (vf_fee x) Op_verification base_calculate_fee
             (verification_evaluate x) (verification_apply x) d)
      | Vesting_balance_create x \<Rightarrow> with_result Object_id
          (start_evaluate F st (fee_payer op) (vc_fee x) Op_vesting_balance_create base_calculate_fee
             (vesting_balance_create_evaluate x) (vesting_balance_create_apply F x) d)
      | Vesting_balance_withdraw x \<Rightarrow> with_result void
          (start_evaluate F st (fee_payer op) (vw_fee x) Op_vesting_balance_withdraw base_calculate_fee
             (vesting_balance_withdraw_evaluate F x) (vesting_balance_withdraw_apply F x) d))"

subsection \<open>The invariant of the chain\<close>

text \<open>
  Nobody owes coins, every open escrow is in the core asset, and the dynamic data of the assets is not
  shared. \<open>steady\<close> is the part of the frame that the operations without escrows share.
\<close>

definition solvent :: "database \<Rightarrow> bool" where
  "solvent d \<longleftrightarrow> fmpred (\<lambda>_ b. 0 \<le> b) (balances d)"

definition chain_ok :: "database \<Rightarrow> bool" where
  "chain_ok d \<longleftrightarrow> assets_ok d \<and> core_escrows d \<and> solvent d"

text \<open>No operation moves the head block or the parameters.\<close>

definition same_clock :: "database \<Rightarrow> database \<Rightarrow> bool" where
  "same_clock d d' \<longleftrightarrow> dgp_time (dyn_props d') = dgp_time (dyn_props d) \<and>
     head_block_number (dyn_props d') = head_block_number (dyn_props d) \<and>
     head_block_id (dyn_props d') = head_block_id (dyn_props d) \<and>
     dynamic_flags (dyn_props d') = dynamic_flags (dyn_props d) \<and>
     current_aslot (dyn_props d') = current_aslot (dyn_props d) \<and>
     witness_budget (dyn_props d') = witness_budget (dyn_props d) \<and>
     last_irreversible_block_num (dyn_props d') = last_irreversible_block_num (dyn_props d) \<and>
     parameters d' = parameters d"

definition steady :: "database \<Rightarrow> database \<Rightarrow> bool" where
  "steady d d' \<longleftrightarrow> assets d' = assets d \<and> escrows d' = escrows d \<and> (solvent d \<longrightarrow> solvent d') \<and> same_clock d d'"

text \<open>The publisher fee of a listing is deposited in the core asset, whatever asset it was offered in.\<close>

definition fees_in_core :: "operation \<Rightarrow> bool" where
  "fees_in_core op =
     (case op of
        Listing_create x \<Rightarrow> fee_in_core (lc_ob_fee x)
      | Listing_update x \<Rightarrow> fee_in_core (lu_ob_fee x)
      | _ \<Rightarrow> True)"

section \<open>Lemmas\<close>

lemma same_clock_refl [simp]: "same_clock d d"
  by (simp add: same_clock_def)

lemma same_clock_trans: "same_clock a b \<Longrightarrow> same_clock b c \<Longrightarrow> same_clock a c"
  by (simp add: same_clock_def)

lemma same_clock_same: "dyn_props d' = dyn_props d \<Longrightarrow> parameters d' = parameters d \<Longrightarrow> same_clock d d'"
  by (simp add: same_clock_def)

lemma steady_refl [simp]: "steady d d"
  by (simp add: steady_def)

lemma steady_trans: "steady a b \<Longrightarrow> steady b c \<Longrightarrow> steady a c"
  by (simp add: steady_def same_clock_def)

lemma steady_same:
  "assets d' = assets d \<Longrightarrow> escrows d' = escrows d \<Longrightarrow> balances d' = balances d \<Longrightarrow>
   dyn_props d' = dyn_props d \<Longrightarrow> parameters d' = parameters d \<Longrightarrow> steady d d'"
  by (simp add: steady_def solvent_def same_clock_def)

lemma solvent_cong: "balances d' = balances d \<Longrightarrow> solvent d' = solvent d"
  by (simp add: solvent_def)

lemma steady_clock: "steady d d' \<Longrightarrow> same_clock d d'"
  by (simp add: steady_def)

lemma steady_chain_ok:
  assumes "steady d d'" and "chain_ok d"
  shows "chain_ok d'"
proof -
  from assms have "assets_ok d'" by (auto simp: steady_def chain_ok_def intro: assets_ok_cong [THEN iffD2])
  with assms show ?thesis by (simp add: chain_ok_def steady_def core_escrows_def)
qed

lemma modify_steady:
  "modify_account d i fa = Inr d' \<Longrightarrow> steady d d'"
  "modify_statistics d i fs = Inr d' \<Longrightarrow> steady d d'"
  "modify_asset_dyn d i fd = Inr d' \<Longrightarrow> steady d d'"
  "modify_listing d i fl = Inr d' \<Longrightarrow> steady d d'"
  "modify_vesting d i fv = Inr d' \<Longrightarrow> steady d d'"
  "create_vesting d vb = Inr (j, d') \<Longrightarrow> steady d d'"
  by (auto simp: modify_account_def modify_statistics_def modify_asset_dyn_def modify_listing_def modify_vesting_def
      create_vesting_def intro!: steady_same)

lemma deposit_frame_steady: "deposit_frame d d' \<Longrightarrow> steady d d'"
  by (simp add: deposit_frame_def steady_same)

lemma votes_frame_steady: "votes_frame d d' \<Longrightarrow> steady d d'"
  by (simp add: votes_frame_def steady_same)

lemma update_steady [simp]:
  "steady d (e\<lparr>listings := l\<rparr>) = steady d e" "steady d (e\<lparr>exchanges := x\<rparr>) = steady d e"
  "steady d (remove_listing i e) = steady d e"
  "(\<And>p. dgp_time (f p) = dgp_time p \<and> head_block_number (f p) = head_block_number p \<and> head_block_id (f p) = head_block_id p \<and>
      dynamic_flags (f p) = dynamic_flags p \<and> current_aslot (f p) = current_aslot p \<and> witness_budget (f p) = witness_budget p \<and>
      last_irreversible_block_num (f p) = last_irreversible_block_num p) \<Longrightarrow>
   steady d (modify_dyn_props f e) = steady d e"
  by (simp_all add: steady_def solvent_def same_clock_def modify_dyn_props_def remove_listing_def)

context fc_laws
begin

lemma adjust_balance_steady:
  assumes "adjust_balance F d who x = Inr d'"
  shows "steady d d'"
proof -
  have "solvent d \<Longrightarrow> solvent d'"
    using assms by (fastforce simp: adjust_balance_def solvent_def safe_add fmpred_iff split: if_splits option.splits)
  with adjust_balance_frame [OF assms] show ?thesis by (auto simp: steady_def same_clock_def)
qed

lemma deposit_fee_steady: "deposit_fee F d acct fee btype = Inr (x, d') \<Longrightarrow> steady d d'"
  by (rule deposit_frame_steady [OF deposit_fee_frame])

lemma update_reputation_steady: "update_reputation F d t f v x = Inr d' \<Longrightarrow> steady d d'"
  by (auto dest!: update_reputation_frame intro: steady_same)

lemma take_items_steady: "take_items l n d = Inr d' \<Longrightarrow> steady d d'"
  by (auto simp: take_items_def dest: modify_steady split: option.splits)

lemma raise_supply_steady: "raise_supply F s d = Inr d' \<Longrightarrow> steady d d'"
  by (auto simp: raise_supply_def dest: modify_steady)

lemma pay_publisher_steady: "pay_publisher F s p fee d = Inr d' \<Longrightarrow> steady d d'"
  by (auto simp: pay_publisher_def dest!: adjust_balance_steady deposit_fee_steady intro: steady_trans
      split: option.splits)

lemmas steps_steady = modify_steady adjust_balance_steady deposit_fee_steady update_reputation_steady
  take_items_steady raise_supply_steady pay_publisher_steady

lemma transfer_steady: "transfer_apply F op d = Inr (u, d') \<Longrightarrow> steady d d'"
  by (auto simp: transfer_apply_def transfer_sale_fees_def dest!: steps_steady split: if_splits) (simp_all add: steady_def same_clock_def)

lemma override_transfer_steady: "override_transfer_apply F op d = Inr (u, d') \<Longrightarrow> steady d d'"
  by (auto simp: override_transfer_apply_def dest!: steps_steady intro: steady_trans)

lemma listing_create_steady:
  assumes "listing_create_apply F op d = Inr (i, d')"
  shows "steady d d'"
proof -
  from assms obtain t d1 where "pay_publisher F (lc_seller op) (lc_publisher op) (publisher_fee (lc_ob_fee op)) (d\<lparr>listings := t\<rparr>) = Inr d1"
    and "modify_account d1 (lc_publisher op) inc_listings = Inr d'"
    by (auto simp: listing_create_apply_def)
  then have "steady (d\<lparr>listings := t\<rparr>) d1" "steady d1 d'" by (auto dest: steps_steady)
  moreover have "steady d (d\<lparr>listings := t\<rparr>)" by simp
  ultimately show ?thesis using steady_trans by blast
qed

lemma listing_update_steady: "listing_update_apply F op d = Inr (u, d') \<Longrightarrow> steady d d'"
  by (auto simp: listing_update_apply_def dest!: steps_steady split: option.splits) (simp_all add: steady_def same_clock_def)

lemma bonus_steady:
  "welcome_bonus_apply F o1 d = Inr (a, d') \<Longrightarrow> steady d d'"
  "referral_bonus_apply F o2 d = Inr (a, d') \<Longrightarrow> steady d d'"
  "sale_bonus_apply F o3 d = Inr (a, d') \<Longrightarrow> steady d d'"
  "founder_bonus_apply F o4 d = Inr (a, d') \<Longrightarrow> steady d d'"
  "witness_bonus_apply F o5 d = Inr (a, d') \<Longrightarrow> steady d d'"
  by (auto simp: welcome_bonus_apply_def referral_bonus_apply_def sale_bonus_apply_def founder_bonus_apply_def
      witness_bonus_apply_def Let_def dest!: steps_steady intro: steady_trans)

lemma exchange_complete_steady: "exchange_complete_apply F op d = Inr (u, d') \<Longrightarrow> steady d d'"
  by (auto simp: exchange_complete_apply_def dest!: steps_steady intro: steady_trans)

lemma vesting_create_steady: "vesting_balance_create_apply F op d = Inr (i, d') \<Longrightarrow> steady d d'"
  by (auto simp: vesting_balance_create_apply_def Let_def dest!: steps_steady intro: steady_trans)

lemma vesting_withdraw_steady: "vesting_balance_withdraw_apply F op d = Inr (u, d') \<Longrightarrow> steady d d'"
  by (auto simp: vesting_balance_withdraw_apply_def Let_def dest!: steps_steady intro: steady_trans)

end

subsection \<open>Operations on escrows\<close>

lemma chain_ok_remove_escrow:
  "chain_ok d \<Longrightarrow> chain_ok (remove_escrow i d)" "same_clock d (remove_escrow i e) = same_clock d e"
  using assets_ok_cong [of "remove_escrow i d" d]
  by (simp_all add: chain_ok_def remove_escrow_def core_escrows_def solvent_def tbl_remove_find same_clock_def)

lemma chain_ok_create_escrow:
  assumes "chain_ok d" and "tbl_create no_clash (escrows d) e = Inr (i, t)" and "asset_id (esc_amount e) = 0"
  shows "chain_ok (d\<lparr>escrows := t\<rparr>)"
  using assms tbl_create_find [OF assms(2)] assets_ok_cong [of "d\<lparr>escrows := t\<rparr>" d]
  by (auto simp: chain_ok_def core_escrows_def solvent_def split: if_splits)

lemma escrow_extend_chain_ok:
  assumes "escrow_extend_apply op d = Inr (u, d')" and "chain_ok d"
  shows "chain_ok d'"
proof -
  from assms(1) obtain t where t: "tbl_modify no_clash (escrows d) (ee_escrow op)
      (\<lambda>e. e\<lparr>esc_expiration_time := ee_expiration_time op\<rparr>) = Inr t" and d': "d' = d\<lparr>escrows := t\<rparr>"
    by (auto simp: escrow_extend_apply_def modify_escrow_def)
  with assms(2) tbl_modify_find [OF t] assets_ok_cong [of d' d] show ?thesis
    by (auto simp: chain_ok_def core_escrows_def solvent_def same_clock_def split: if_splits)
qed

lemma escrow_extend_gap:
  assumes "escrow_extend_apply op d = Inr (u, d')"
  shows "asset_gap a d' = asset_gap a d"
proof -
  from assms obtain t where t: "tbl_modify no_clash (escrows d) (ee_escrow op)
      (\<lambda>e. e\<lparr>esc_expiration_time := ee_expiration_time op\<rparr>) = Inr t" and d': "d' = d\<lparr>escrows := t\<rparr>"
    by (auto simp: escrow_extend_apply_def modify_escrow_def)
  from t obtain e where "tbl_find (escrows d) (ee_escrow op) = Some e" using tbl_modify_exists by fastforce
  with t show ?thesis by (simp add: d' asset_gap_def held_def asset_dyn_of_def tbl_modify_sum)
qed

context fc_laws
begin

lemma collect_escrow_steady: "collect_escrow F e d = Inr (l, d') \<Longrightarrow> steady d d'"
  by (auto simp: collect_escrow_def dest!: steps_steady intro: steady_trans split: if_splits)

lemma deposit_sale_fees_steady: "deposit_sale_fees F b s fees (l, d) = Inr (l', d') \<Longrightarrow> steady d d'"
  by (auto simp: deposit_sale_fees_def dest!: steps_steady intro: steady_trans)

lemma close_votes_steady: "close_votes F op e d = Inr d' \<Longrightarrow> steady d d'"
  by (rule votes_frame_steady [OF close_votes_frame])

lemma escrow_release_steady:
  "escrow_release_apply F op d = Inr (u, d') \<Longrightarrow> \<exists>d1. steady d d1 \<and> d' = remove_escrow (es_escrow op) d1"
  by (auto simp: escrow_release_apply_def
      dest!: collect_escrow_steady deposit_sale_fees_steady close_votes_steady steps_steady split: if_splits)
    (blast intro: steady_trans)+

lemma escrow_return_steady:
  "escrow_return_apply F op d = Inr (u, d') \<Longrightarrow> \<exists>d1. steady d d1 \<and> d' = remove_escrow (es_escrow op) d1"
  by (auto simp: escrow_return_apply_def
      dest!: collect_escrow_steady close_votes_steady steps_steady split: option.splits)
    (blast intro: steady_trans)+

lemma escrow_create_steady:
  "escrow_create_apply F op d = Inr (i, d') \<Longrightarrow>
   \<exists>t. tbl_create no_clash (escrows d) (new_escrow op) = Inr (i, t) \<and> steady (d\<lparr>escrows := t\<rparr>) d'"
  by (auto simp: escrow_create_apply_def dest!: steps_steady split: if_splits) (blast intro: steady_trans)+

lemma escrow_clock:
  "escrow_create_apply F o1 d = Inr (i, d') \<Longrightarrow> same_clock d d'"
  "escrow_release_apply F o2 d = Inr (u, d') \<Longrightarrow> same_clock d d'"
  "escrow_return_apply F o2 d = Inr (u, d') \<Longrightarrow> same_clock d d'"
  "escrow_extend_apply o3 d = Inr (u, d') \<Longrightarrow> same_clock d d'"
  by (auto simp: chain_ok_remove_escrow escrow_extend_apply_def modify_escrow_def same_clock_same
      dest!: escrow_create_steady escrow_release_steady escrow_return_steady dest: steady_clock)
    (simp add: steady_def same_clock_def)

lemma escrow_release_chain_ok: "escrow_release_apply F op d = Inr (u, d') \<Longrightarrow> chain_ok d \<Longrightarrow> chain_ok d'"
  by (auto dest!: escrow_release_steady simp: chain_ok_remove_escrow steady_chain_ok)

lemma escrow_return_chain_ok: "escrow_return_apply F op d = Inr (u, d') \<Longrightarrow> chain_ok d \<Longrightarrow> chain_ok d'"
  by (auto dest!: escrow_return_steady simp: chain_ok_remove_escrow steady_chain_ok)

lemma escrow_create_chain_ok:
  assumes "escrow_create_apply F op d = Inr (i, d')" and "chain_ok d" and "escrow_create_validate op = Inr w"
  shows "chain_ok d'"
proof -
  from escrow_create_steady [OF assms(1)] obtain t where t: "tbl_create no_clash (escrows d) (new_escrow op) = Inr (i, t)"
    and s: "steady (d\<lparr>escrows := t\<rparr>) d'" by blast
  from assms(3) have "asset_id (esc_amount (new_escrow op)) = 0"
    by (auto simp: escrow_create_validate_def new_escrow_def)
  from steady_chain_ok [OF s chain_ok_create_escrow [OF assms(2) t this]] show ?thesis .
qed

lemma escrow_conserving:
  "conserving_operation core_escrows (escrow_create_evaluate F o1) (escrow_create_apply F o1)"
  "conserving_operation core_escrows (escrow_release_evaluate o2) (escrow_release_apply F o2)"
  "conserving_operation core_escrows (escrow_return_evaluate o2) (escrow_return_apply F o2)"
  "conserving_operation core_escrows (escrow_extend_evaluate F o3) (escrow_extend_apply o3)"
proof -
  have core: "core_escrows d2 \<and> assets_ok d2" if "core_escrows d" "fee_booked d d2" for d d2
    using that by (auto simp: fee_booked_def core_escrows_def)
  show "conserving_operation core_escrows (escrow_create_evaluate F o1) (escrow_create_apply F o1)"
    by unfold_locales (blast dest: escrow_create_result(4))
  show "conserving_operation core_escrows (escrow_release_evaluate o2) (escrow_release_apply F o2)"
  proof (unfold_locales, intro allI)
    fix d u d2 r d3 a assume "core_escrows d" "fee_booked d d2" and run: "escrow_release_apply F o2 d2 = Inr (r, d3)"
    then have "core_escrows d2" "assets_ok d2" using core by blast+
    moreover obtain e where e: "tbl_find (escrows d2) (es_escrow o2) = Some e"
      using run by (auto simp: escrow_release_apply_def get_escrow_def)
    ultimately show "asset_gap a d3 = asset_gap a d2"
      using escrow_release_result(4) [OF run e] by (auto simp: core_escrows_def)
  qed
  show "conserving_operation core_escrows (escrow_return_evaluate o2) (escrow_return_apply F o2)"
  proof (unfold_locales, intro allI)
    fix d u d2 r d3 a assume "core_escrows d" "fee_booked d d2" and run: "escrow_return_apply F o2 d2 = Inr (r, d3)"
    then have "core_escrows d2" "assets_ok d2" using core by blast+
    moreover obtain e where e: "tbl_find (escrows d2) (es_escrow o2) = Some e"
      using run by (auto simp: escrow_return_apply_def get_escrow_def)
    ultimately show "asset_gap a d3 = asset_gap a d2"
      using escrow_return_result(3) [OF run e] by (auto simp: core_escrows_def)
  qed
  show "conserving_operation core_escrows (escrow_extend_evaluate F o3) (escrow_extend_apply o3)"
    by unfold_locales (blast dest: escrow_extend_gap)
qed

end

subsection \<open>Every operation keeps the invariant and the gaps\<close>

text \<open>An operation is sound when it conserves and its \<^verbatim>\<open>do_apply\<close> keeps the invariant.\<close>

locale sound_operation = conserving_operation core_escrows do_evaluate do_apply
  for do_evaluate :: "database \<Rightarrow> unit result" and do_apply :: "database \<Rightarrow> ('r \<times> database) result" +
  assumes apply_keeps_ok: "do_apply d = Inr (r, d') \<Longrightarrow> chain_ok d \<Longrightarrow> chain_ok d'"
    and apply_clock: "do_apply d = Inr (r, d') \<Longrightarrow> same_clock d d'"

lemma steady_operation:
  assumes "conserving_operation (\<lambda>_. True) ev app" and "\<And>d r d'. app d = Inr (r, d') \<Longrightarrow> steady d d'"
  shows "sound_operation ev app"
proof -
  have "conserving_operation core_escrows ev app"
    using assms(1) unfolding conserving_operation_def by blast
  then show ?thesis
    by (rule sound_operation.intro) (unfold_locales, (blast intro: steady_chain_ok steady_clock assms(2))+)
qed

interpretation sound_delete: sound_operation "listing_delete_evaluate op" "listing_delete_apply op" for op
  by (rule steady_operation [OF delete_op.conserving_operation_axioms])
    (auto simp: listing_delete_apply_def dest!: modify_steady)

interpretation sound_report: sound_operation "listing_report_evaluate op" "listing_report_apply op" for op
  by (rule steady_operation [OF report_op.conserving_operation_axioms])
    (auto simp: listing_report_apply_def dest!: modify_steady split: if_splits)

interpretation sound_verification: sound_operation "verification_evaluate op" "verification_apply op" for op
  by (rule steady_operation [OF verification_op.conserving_operation_axioms])
    (auto simp: verification_apply_def dest!: modify_steady)

interpretation sound_exchange_create: sound_operation "exchange_create_evaluate op" "exchange_create_apply l op" for l op
  by (rule steady_operation [OF exchange_create_op.conserving_operation_axioms])
    (auto simp: exchange_create_apply_def)

lemma with_result_eq_Inr [simp, result_simps]:
  "with_result f r = Inr (x, d) \<longleftrightarrow> (\<exists>y. r = Inr (y, d) \<and> x = f y)"
  by (auto simp: with_result_def)

context fc_laws
begin

lemma fee_steady:
  assumes "start_evaluate F default_state payer fee tag op_fee ev app d = Inr (r, d')"
  obtains d2 d3 where "app d2 = Inr (r, d3)" and "steady d d2" and "steady d3 d'"
proof -
  from assms obtain fc d1 d2 d3 debit where "convert_fee F default_state fc d = Inr d1"
    and "pay_fee F default_state fc d1 = Inr d2" and d3: "app d2 = Inr (r, d3)"
    and "adjust_balance F d3 payer debit = Inr d'"
    by (auto simp: start_evaluate_def evaluate_def apply_op_def)
  then have "steady d d1" "steady d1 d2" "steady d3 d'"
    by (auto simp: convert_fee_def pay_fee_def default_state_def dest!: steps_steady split: if_splits)
  then show ?thesis using that [OF d3] steady_trans by blast
qed

lemma start_evaluate_clock:
  assumes "start_evaluate F default_state payer fee tag op_fee ev app d = Inr (r, d')"
    and "\<And>d r d'. app d = Inr (r, d') \<Longrightarrow> same_clock d d'"
  shows "same_clock d d'"
  using assms(1) by (rule fee_steady) (blast intro: same_clock_trans steady_clock assms(2))

lemma start_evaluate_sound:
  assumes op: "sound_operation ev app"
    and run: "start_evaluate F default_state payer fee tag op_fee ev app d = Inr (r, d')" and ok: "chain_ok d"
  shows "chain_ok d' \<and> (\<forall>a. asset_gap a d' = asset_gap a d)"
proof -
  from run obtain d2 d3 where d3: "app d2 = Inr (r, d3)" and "steady d d2" and "steady d3 d'" by (rule fee_steady)
  then have "chain_ok d'"
    using sound_operation.apply_keeps_ok [OF op d3] ok steady_chain_ok by blast
  moreover have "asset_gap a d' = asset_gap a d" for a
    using start_evaluate_conserves [OF sound_operation.axioms(1) [OF op] run] ok by (simp add: chain_ok_def)
  ultimately show ?thesis by simp
qed

lemma sound_transfers:
  "sound_operation (transfer_evaluate F o1) (transfer_apply F o1)"
  "sound_operation (override_transfer_evaluate o2) (override_transfer_apply F o2)"
  by (blast intro: steady_operation transfer_conserving override_transfer_conserving fc_laws_axioms transfer_steady
      override_transfer_steady)+

lemma sound_listings:
  "fee_in_core (lc_ob_fee o1) \<Longrightarrow> sound_operation (listing_create_evaluate F o1) (listing_create_apply F o1)"
  "fee_in_core (lu_ob_fee o2) \<Longrightarrow> sound_operation (listing_update_evaluate F o2) (listing_update_apply F o2)"
  by (blast intro: steady_operation listing_create_conserving listing_update_conserving fc_laws_axioms
      listing_create_steady listing_update_steady)+

lemma sound_escrows:
  "escrow_create_validate o1 = Inr () \<Longrightarrow> sound_operation (escrow_create_evaluate F o1) (escrow_create_apply F o1)"
  "sound_operation (escrow_release_evaluate o2) (escrow_release_apply F o2)"
  "sound_operation (escrow_return_evaluate o2) (escrow_return_apply F o2)"
  "sound_operation (escrow_extend_evaluate F o3) (escrow_extend_apply o3)"
  by (rule sound_operation.intro, rule escrow_conserving, rule sound_operation_axioms.intro,
      erule (1) escrow_create_chain_ok escrow_release_chain_ok escrow_return_chain_ok escrow_extend_chain_ok, simp?,
      erule escrow_clock)+

lemma sound_bonuses:
  "sound_operation (welcome_bonus_evaluate o1) (welcome_bonus_apply F o1)"
  "sound_operation (referral_bonus_evaluate o2) (referral_bonus_apply F o2)"
  "sound_operation (sale_bonus_evaluate o3) (sale_bonus_apply F o3)"
  "sound_operation (founder_bonus_evaluate o4) (founder_bonus_apply F o4)"
  "sound_operation (witness_bonus_evaluate o5) (witness_bonus_apply F o5)"
  by (blast intro: steady_operation bonus_conserving fc_laws_axioms bonus_steady)+

lemma sound_others:
  "sound_operation (exchange_complete_evaluate o1) (exchange_complete_apply F o1)"
  "sound_operation (vesting_balance_create_evaluate o2) (vesting_balance_create_apply F o2)"
  "sound_operation (vesting_balance_withdraw_evaluate F o3) (vesting_balance_withdraw_apply F o3)"
  by (blast intro: steady_operation exchange_complete_conserving vesting_create_conserving vesting_withdraw_conserving
      fc_laws_axioms exchange_complete_steady vesting_create_steady vesting_withdraw_steady)+

lemmas sound_operations = sound_transfers sound_listings sound_escrows sound_bonuses sound_others
  sound_delete.sound_operation_axioms sound_report.sound_operation_axioms
  sound_verification.sound_operation_axioms sound_exchange_create.sound_operation_axioms

lemma operation_sound:
  assumes "apply_operation F S default_state op d = Inr (r, d')" and "operation_validate op = Inr u"
    and "fees_in_core op" and "chain_ok d"
  shows "chain_ok d' \<and> (\<forall>a. asset_gap a d' = asset_gap a d)"
  using assms
  by (cases op) (auto simp: apply_operation_def operation_validate_def fees_in_core_def
      dest: sound_operations [THEN start_evaluate_sound])

text \<open>The clock stands still whatever the state and the fees.\<close>

lemma listing_clock:
  "listing_create_apply F o1 d = Inr (i, d') \<Longrightarrow> same_clock d d'"
  "listing_update_apply F o2 d = Inr (u, d') \<Longrightarrow> same_clock d d'"
  by (blast intro: steady_clock listing_create_steady listing_update_steady)+

lemma operation_clock:
  assumes "apply_operation F S default_state op d = Inr (r, d')"
  shows "same_clock d d'"
  using assms
  by (cases op) (auto simp: apply_operation_def elim!: start_evaluate_clock
      intro: listing_clock escrow_clock sound_operations [THEN sound_operation.apply_clock])

end

end
