(* ===== verification/Ordered_Index.thy ===== *)
theory Ordered_Index
  imports Prelude
begin

text \<open>
  The ordered views that \<^verbatim>\<open>boost::multi_index\<close> keeps of a table, as far as the code uses them: \<open>first\<close> is
  \<^verbatim>\<open>begin()\<close> of an \<^verbatim>\<open>ordered_non_unique\<close> index. Which of several objects with the same key comes first
  depends on the history of the container, so it is a parameter, and the laws only say that it has the
  least key.
\<close>

definition tbl_size :: "'a table \<Rightarrow> nat" where
  "tbl_size t = fcard (fmdom (objs t))"

locale ordered_index =
  fixes key :: "'a \<Rightarrow> nat" and first :: "'a table \<Rightarrow> nat option"
  assumes first_None: "first t = None \<longleftrightarrow> objs t = fmempty"
    and first_Some: "first t = Some i \<Longrightarrow> \<exists>x. tbl_find t i = Some x \<and> (\<forall>j y. tbl_find t j = Some y \<longrightarrow> key x \<le> key y)"
begin

text \<open>If the first object has not expired, none has.\<close>

lemma none_expired:
  assumes "case first t of None \<Rightarrow> True | Some i \<Rightarrow> (case tbl_find t i of None \<Rightarrow> True | Some x \<Rightarrow> now < key x)"
    and "tbl_find t j = Some y"
  shows "now < key y"
proof (cases "first t")
  case None
  with assms(2) show ?thesis by (simp add: first_None tbl_find_def)
next
  case (Some i)
  with first_Some [OF Some] assms show ?thesis by force
qed

end

text \<open>An implementation: the least key, and among equal keys the least id.\<close>

definition least_key :: "('a \<Rightarrow> nat) \<Rightarrow> 'a table \<Rightarrow> nat option" where
  "least_key key t =
     (case sorted_list_of_fmap (objs t) of
        [] \<Rightarrow> None
      | p # ps \<Rightarrow> Some (fst (fold (\<lambda>q r. if key (snd q) < key (snd r) then q else r) ps p)))"

section \<open>Lemmas\<close>

lemma fold_least:
  "let m = fold (\<lambda>q r. if key (snd q) < key (snd r) then q else r) ps p in
     m \<in> insert p (set ps) \<and> (\<forall>q \<in> insert p (set ps). key (snd m) \<le> (key (snd q) :: nat))"
proof (induction ps arbitrary: p)
  case (Cons q ps)
  let ?p = "if key (snd q) < key (snd p) then q else p"
  from Cons.IH [of ?p] show ?case by (auto simp: Let_def split: if_splits)
qed simp

lemma set_sorted_list_of_fmap: "(i, x) \<in> set (sorted_list_of_fmap m) \<longleftrightarrow> fmlookup m i = Some x"
  by (auto simp: sorted_list_of_fmap_def fmlookup_dom_iff image_iff)

interpretation by_key: ordered_index key "least_key key" for key :: "'a \<Rightarrow> nat"
proof
  fix t :: "'a table"
  show "least_key key t = None \<longleftrightarrow> objs t = fmempty"
  proof (cases "sorted_list_of_fmap (objs t)")
    case Nil
    then have "fmlookup (objs t) i = None" for i using set_sorted_list_of_fmap [of i _ "objs t"] by (cases "fmlookup (objs t) i") auto
    with Nil show ?thesis by (auto simp: least_key_def intro: fmap_ext)
  next
    case (Cons p ps)
    then have "fmlookup (objs t) (fst p) = Some (snd p)"
      using set_sorted_list_of_fmap [of "fst p" "snd p" "objs t"] by simp
    with Cons show ?thesis by (auto simp: least_key_def)
  qed
  fix i
  assume "least_key key t = Some i"
  then obtain p ps where ps: "sorted_list_of_fmap (objs t) = p # ps"
    and i: "i = fst (fold (\<lambda>q r. if key (snd q) < key (snd r) then q else r) ps p)"
    by (auto simp: least_key_def split: list.splits)
  define m where "m = fold (\<lambda>q r. if key (snd q) < key (snd r) then q else r) ps p"
  have "m \<in> set (sorted_list_of_fmap (objs t))" and least: "\<And>q. q \<in> set (sorted_list_of_fmap (objs t)) \<Longrightarrow> key (snd m) \<le> key (snd q)"
    using fold_least [of key ps p] by (auto simp: Let_def ps m_def)
  then have "tbl_find t i = Some (snd m)"
    using set_sorted_list_of_fmap [of i "snd m"] by (simp add: i m_def [symmetric] tbl_find_def)
  moreover have "key (snd m) \<le> key y" if "tbl_find t j = Some y" for j y
    using least [of "(j, y)"] that by (simp add: set_sorted_list_of_fmap tbl_find_def)
  ultimately show "\<exists>x. tbl_find t i = Some x \<and> (\<forall>j y. tbl_find t j = Some y \<longrightarrow> key x \<le> key y)" by blast
qed

lemma tbl_remove_size: "tbl_find t i = Some x \<Longrightarrow> tbl_size (tbl_remove t i) < tbl_size t"
proof -
  assume "tbl_find t i = Some x"
  then have "i |\<in>| fmdom (objs t)" by (auto simp: tbl_find_def fmlookup_dom_iff)
  then have "fmdom (fmdrop i (objs t)) |\<subset>| fmdom (objs t)" by auto
  then show ?thesis by (simp add: tbl_size_def tbl_remove_def pfsubset_fcard_mono)
qed

end
