(* ===== verification/Housekeeping.thy ===== *)
theory Housekeeping
  imports Operations Ordered_Index
begin

text \<open>
  What a block does after its transactions: \<^verbatim>\<open>clear_expired_escrows\<close> and \<^verbatim>\<open>clear_expired_listings\<close> of
  \<^verbatim>\<open>db_update.cpp\<close>, with \<^verbatim>\<open>push_escrow\<close> of \<^verbatim>\<open>db_block.cpp\<close>. Both close objects by running an operation in
  an undo session of its own: when it throws, the state is as before. The loops run while the first
  object by expiration has expired; they are partial functions, and that they return is a theorem.
\<close>

subsection \<open>Escrows\<close>

text \<open>The operation that closes an expired escrow: no fee, no memo, the default votes.\<close>

definition close_operation :: "nat \<Rightarrow> escrow_object \<Rightarrow> account_id \<Rightarrow> escrow_close_operation" where
  "close_operation i e payer = \<lparr>es_fee = core_asset 0, es_fee_paying_account = payer, es_escrow = i,
     es_buyer_account = esc_buyer e, es_escrow_account = esc_escrow e, es_seller_account = esc_seller e,
     es_memo_size = None, reputation_vote_for_seller = OMNIBAZAAR_REPUTATION_DEFAULT,
     reputation_vote_for_buyer = OMNIBAZAAR_REPUTATION_DEFAULT,
     reputation_vote_for_escrow = OMNIBAZAAR_REPUTATION_DEFAULT\<rparr>"

definition push_escrow ::
  "fc_lib \<Rightarrow> string_lib \<Rightarrow> nat \<Rightarrow> escrow_object \<Rightarrow> bool \<Rightarrow> database \<Rightarrow> database result" where
  "push_escrow F S i e release d =
     (let op = if release then Escrow_release (close_operation i e (esc_buyer e))
               else Escrow_return (close_operation i e (esc_seller e)) in
      ebind (operation_validate op) (\<lambda>_. emap snd (apply_operation F S default_state op d)))"

definition close_expired_escrow :: "fc_lib \<Rightarrow> string_lib \<Rightarrow> nat \<Rightarrow> escrow_object \<Rightarrow> database \<Rightarrow> database" where
  "close_expired_escrow F S i e d =
     (case push_escrow F S i e True d of
        Inr d' \<Rightarrow> d'
      | Inl _ \<Rightarrow>
          (case push_escrow F S i e False d of
             Inr d' \<Rightarrow> d'
           | Inl _ \<Rightarrow> remove_escrow i d))"

definition expired_first :: "('a \<Rightarrow> time_sec) \<Rightarrow> ('a table \<Rightarrow> nat option) \<Rightarrow> time_sec \<Rightarrow> 'a table \<Rightarrow> (nat \<times> 'a) option" where
  "expired_first key first now t =
     (case first t of
        None \<Rightarrow> None
      | Some i \<Rightarrow>
          (case tbl_find t i of
             None \<Rightarrow> None
           | Some x \<Rightarrow> if key x \<le> now then Some (i, x) else None))"

partial_function (option) clear_expired_escrows ::
  "(escrow_object table \<Rightarrow> nat option) \<Rightarrow> fc_lib \<Rightarrow> string_lib \<Rightarrow> database \<Rightarrow> database option" where
  "clear_expired_escrows first F S d =
     (case expired_first esc_expiration_time first (head_block_time d) (escrows d) of
        None \<Rightarrow> Some d
      | Some (i, e) \<Rightarrow> clear_expired_escrows first F S (close_expired_escrow F S i e d))"

subsection \<open>Listings\<close>

definition delete_operation :: "nat \<Rightarrow> listing_object \<Rightarrow> operation" where
  "delete_operation i l = Listing_delete \<lparr>ld_fee = core_asset 0, ld_seller = lst_seller l, ld_listing_id = i\<rparr>"

text \<open>The exceptions of the operation are swallowed, those of \<^verbatim>\<open>validate\<close> are not.\<close>

definition clear_listing :: "fc_lib \<Rightarrow> string_lib \<Rightarrow> nat \<Rightarrow> listing_object \<Rightarrow> database \<Rightarrow> database result" where
  "clear_listing F S i l d =
     ebind (operation_validate (delete_operation i l)) (\<lambda>_.
     Inr (case apply_operation F S default_state (delete_operation i l) d of
            Inl _ \<Rightarrow> d
          | Inr (_, d') \<Rightarrow> d'))"

partial_function (option) clear_listings ::
  "(database \<Rightarrow> listing_object \<Rightarrow> time_sec) \<Rightarrow> (listing_object table \<Rightarrow> nat option) \<Rightarrow> fc_lib \<Rightarrow> string_lib
    \<Rightarrow> database \<Rightarrow> database result option" where
  "clear_listings expiry first F S d =
     (case expired_first (expiry d) first (head_block_time d) (listings d) of
        None \<Rightarrow> Some (Inr d)
      | Some (i, l) \<Rightarrow>
          (case clear_listing F S i l d of
             Inl err \<Rightarrow> Some (Inl err)
           | Inr d' \<Rightarrow> clear_listings expiry first F S d'))"

text \<open>From the hard fork on the age of a listing counts from its last update.\<close>

definition clear_expired_listings ::
  "(listing_object table \<Rightarrow> nat option) \<Rightarrow> (listing_object table \<Rightarrow> nat option) \<Rightarrow> fc_lib \<Rightarrow> string_lib \<Rightarrow> database
    \<Rightarrow> database result option" where
  "clear_expired_listings by_expiration by_update_time F S d =
     (if head_block_time d < HARDFORK_OM_774_TIME
      then clear_listings (\<lambda>_. lst_expiration_time) by_expiration F S d
      else clear_listings (\<lambda>d l. tps_add F (updated_at l) (maximum_listing_lifetime (parameters d))) by_update_time F S d)"

section \<open>Lemmas\<close>

lemma expired_first_Some:
  "expired_first key first now t = Some (i, x) \<longleftrightarrow> first t = Some i \<and> tbl_find t i = Some x \<and> key x \<le> now"
  by (auto simp: expired_first_def split: option.splits if_splits)

lemma expired_first_None:
  assumes "expired_first key first now t = None" and "ordered_index key first" and "tbl_find t j = Some y"
  shows "now < key y"
proof (rule ordered_index.none_expired [OF assms(2) _ assms(3)])
  show "case first t of None \<Rightarrow> True | Some i \<Rightarrow> (case tbl_find t i of None \<Rightarrow> True | Some x \<Rightarrow> now < key x)"
    using assms(1) by (auto simp: expired_first_def split: option.splits if_splits)
qed

subsection \<open>Closing an escrow\<close>

text \<open>Whatever happens, the escrow is gone, the others are there, and nothing is created: the gap can only
  grow, by the coins of an escrow that could neither be released nor returned.\<close>

definition positive_escrows :: "database \<Rightarrow> bool" where
  "positive_escrows d \<longleftrightarrow> (\<forall>i e. tbl_find (escrows d) i = Some e \<longrightarrow> 0 \<le> amount (esc_amount e))"

context fc_laws
begin

lemma push_escrow_result:
  assumes run: "push_escrow F S i e release d = Inr d'" and ok: "chain_ok d"
  shows "chain_ok d'" and "same_clock d d'" and "escrows d' = tbl_remove (escrows d) i"
    and "asset_gap a d' = asset_gap a d"
proof -
  let ?op = "if release then Escrow_release (close_operation i e (esc_buyer e))
               else Escrow_return (close_operation i e (esc_seller e))"
  from run obtain r where v: "operation_validate ?op = Inr ()" and a: "apply_operation F S default_state ?op d = Inr (r, d')"
    by (auto simp: push_escrow_def Let_def)
  have "fees_in_core ?op" by (simp add: fees_in_core_def)
  from operation_sound [OF a v this ok] operation_clock [OF a]
  show "chain_ok d'" "same_clock d d'" "asset_gap a d' = asset_gap a d" by blast+
  show "escrows d' = tbl_remove (escrows d) i"
  proof (cases release)
    case True
    with a obtain x where "start_evaluate F default_state (fee_payer ?op) (core_asset 0) Op_escrow_release
        (escrow_release_calculate_fee F (close_operation i e (esc_buyer e)))
        (escrow_release_evaluate (close_operation i e (esc_buyer e)))
        (escrow_release_apply F (close_operation i e (esc_buyer e))) d = Inr (x, d')"
      by (auto simp: apply_operation_def close_operation_def)
    then obtain d2 d3 where d3: "escrow_release_apply F (close_operation i e (esc_buyer e)) d2 = Inr (x, d3)"
      and e2: "steady d d2" "steady d3 d'" by (rule fee_steady)
    from d3 obtain y where "tbl_find (escrows d2) (es_escrow (close_operation i e (esc_buyer e))) = Some y"
      by (auto simp: escrow_release_apply_def get_escrow_def)
    from escrow_release_result(1) [OF d3 this] e2 show ?thesis by (simp add: close_operation_def steady_def)
  next
    case False
    with a obtain x where "start_evaluate F default_state (fee_payer ?op) (core_asset 0) Op_escrow_return
        (escrow_return_calculate_fee F (close_operation i e (esc_seller e)))
        (escrow_return_evaluate (close_operation i e (esc_seller e)))
        (escrow_return_apply F (close_operation i e (esc_seller e))) d = Inr (x, d')"
      by (auto simp: apply_operation_def close_operation_def)
    then obtain d2 d3 where d3: "escrow_return_apply F (close_operation i e (esc_seller e)) d2 = Inr (x, d3)"
      and e2: "steady d d2" "steady d3 d'" by (rule fee_steady)
    from d3 obtain y where "tbl_find (escrows d2) (es_escrow (close_operation i e (esc_seller e))) = Some y"
      by (auto simp: escrow_return_apply_def get_escrow_def)
    from escrow_return_result(1) [OF d3 this] e2 show ?thesis by (simp add: close_operation_def steady_def)
  qed
qed

lemma close_expired_escrow_result:
  fixes S :: string_lib
  assumes ok: "chain_ok d" and e: "tbl_find (escrows d) i = Some e" and pos: "0 \<le> amount (esc_amount e)"
  defines "d' \<equiv> close_expired_escrow F S i e d"
  shows "chain_ok d'" and "same_clock d d'" and "escrows d' = tbl_remove (escrows d) i" and "asset_gap a d \<le> asset_gap a d'"
proof -
  consider (release) "push_escrow F S i e True d = Inr d'"
    | (return) "push_escrow F S i e False d = Inr d'"
    | (lost) "d' = remove_escrow i d"
    unfolding d'_def close_expired_escrow_def
    by (cases "push_escrow F S i e True d"; cases "push_escrow F S i e False d") auto
  then have "chain_ok d' \<and> same_clock d d' \<and> escrows d' = tbl_remove (escrows d) i \<and> asset_gap a d \<le> asset_gap a d'"
  proof cases
    case release
    from push_escrow_result [OF this ok] show ?thesis by simp
  next
    case return
    from push_escrow_result [OF this ok] show ?thesis by simp
  next
    case lost
    have "escrows (remove_escrow i d) = tbl_remove (escrows d) i" by (simp add: remove_escrow_def)
    with lost show ?thesis using remove_escrow_gap [OF e, of a] ok pos
      by (simp add: chain_ok_remove_escrow of_asset_def)
  qed
  then show "chain_ok d'" and "same_clock d d'" and "escrows d' = tbl_remove (escrows d) i" and "asset_gap a d \<le> asset_gap a d'"
    by blast+
qed

text \<open>The loop returns: every turn removes an escrow.\<close>

lemma clear_expired_escrows_result:
  assumes "ordered_index esc_expiration_time first" and "chain_ok d" and "positive_escrows d"
  shows "\<exists>d'. clear_expired_escrows first F S d = Some d' \<and> chain_ok d' \<and> same_clock d d' \<and>
    (\<forall>a. asset_gap a d \<le> asset_gap a d') \<and>
    (\<forall>j. tbl_find (escrows d') j =
       (case tbl_find (escrows d) j of None \<Rightarrow> None
        | Some e \<Rightarrow> if esc_expiration_time e \<le> head_block_time d then None else Some e))"
  using assms(2,3)
proof (induction "tbl_size (escrows d)" arbitrary: d rule: less_induct)
  case less
  show ?case
  proof (cases "expired_first esc_expiration_time first (head_block_time d) (escrows d)")
    case None
    then have "clear_expired_escrows first F S d = Some d" by (simp add: clear_expired_escrows.simps)
    moreover have "head_block_time d < esc_expiration_time e" if "tbl_find (escrows d) j = Some e" for j e
      using expired_first_None [OF None assms(1) that] .
    ultimately show ?thesis using less.prems by (fastforce split: option.splits)
  next
    case (Some p)
    then obtain i e where p: "expired_first esc_expiration_time first (head_block_time d) (escrows d) = Some (i, e)" by (cases p) auto
    then have e: "tbl_find (escrows d) i = Some e" "esc_expiration_time e \<le> head_block_time d" by (auto simp: expired_first_Some)
    let ?d = "close_expired_escrow F S i e d"
    have pos: "0 \<le> amount (esc_amount e)" using less.prems(2) e by (auto simp: positive_escrows_def)
    note c = close_expired_escrow_result [OF less.prems(1) e(1) pos, where S = S]
    have pos': "positive_escrows ?d" using less.prems(2) c(3) by (auto simp: positive_escrows_def tbl_remove_find split: if_splits)
    have sz: "tbl_size (escrows ?d) < tbl_size (escrows d)" using tbl_remove_size [OF e(1)] c(3) by simp
    have now: "head_block_time ?d = head_block_time d" using c(2) by (simp add: same_clock_def head_block_time_def)
    obtain d' where d': "clear_expired_escrows first F S ?d = Some d'" "chain_ok d'" "same_clock ?d d'"
      "\<forall>a. asset_gap a ?d \<le> asset_gap a d'"
      "\<forall>j. tbl_find (escrows d') j =
       (case tbl_find (escrows ?d) j of None \<Rightarrow> None
        | Some e \<Rightarrow> if esc_expiration_time e \<le> head_block_time ?d then None else Some e)"
      using less.hyps [OF sz c(1) pos'] by blast
    have "clear_expired_escrows first F S d = Some d'"
      using p d'(1) by (subst clear_expired_escrows.simps) simp
    moreover have "\<forall>a. asset_gap a d \<le> asset_gap a d'" using c(4) d'(4) by (meson order_trans)
    moreover have "same_clock d d'" using c(2) d'(3) by (rule same_clock_trans)
    moreover have "tbl_find (escrows d') j = (case tbl_find (escrows d) j of None \<Rightarrow> None
        | Some e \<Rightarrow> if esc_expiration_time e \<le> head_block_time d then None else Some e)" for j
      using d'(5) [rule_format, of j] c(3) e unfolding now by (auto simp: tbl_remove_find)
    ultimately show ?thesis using d'(2) by blast
  qed
qed

end

subsection \<open>Deleting a listing\<close>

text \<open>
  What the deletion of an expired listing needs: its fee is nothing, the core asset is there, and every
  listing has a seller who may use the core asset and a publisher.
\<close>

definition seller_ok :: "database \<Rightarrow> asset_object \<Rightarrow> account_id \<Rightarrow> bool" where
  "seller_ok d core a \<longleftrightarrow>
     (\<exists>acc s. tbl_find (accounts d) a = Some acc \<and> tbl_find (statistics d) (acc_statistics acc) = Some s \<and>
        in_int64 (pending_fees s) \<and> in_int64 (pending_vested_fees s) \<and> is_authorized_asset d acc 0 core)"

definition tidy :: "fc_lib \<Rightarrow> database \<Rightarrow> bool" where
  "tidy F d \<longleftrightarrow>
     (\<exists>fee. required_fee F (current_fees (parameters d)) Op_listing_delete base_calculate_fee = Inr fee \<and> fee \<le> 0) \<and>
     (\<exists>core. tbl_find (assets d) 0 = Some core \<and> tbl_find (asset_dyn d) (dynamic_asset_data_id core) \<noteq> None \<and>
        (\<forall>i l. tbl_find (listings d) i = Some l \<longrightarrow>
           seller_ok d core (lst_seller l) \<and> tbl_find (accounts d) (lst_publisher l) \<noteq> None))"

lemma dec_listings_fields [simp]:
  "allowed_assets (dec_listings a) = allowed_assets a" "whitelisting_accounts (dec_listings a) = whitelisting_accounts a"
  "blacklisting_accounts (dec_listings a) = blacklisting_accounts a" "acc_statistics (dec_listings a) = acc_statistics a"
  by (simp_all add: dec_listings_def)

lemma tidy_step:
  assumes "tidy F d" and "assets d' = assets d" and "asset_dyn d' = asset_dyn d" and "parameters d' = parameters d"
    and "dyn_props d' = dyn_props d" and "\<And>j. tbl_find (statistics d') j = tbl_find (statistics d) j"
    and acc: "\<And>j. tbl_find (accounts d') j = (if j = p then map_option dec_listings (tbl_find (accounts d) p) else tbl_find (accounts d) j)"
    and "\<And>j l. tbl_find (listings d') j = Some l \<Longrightarrow> tbl_find (listings d) j = Some l"
  shows "tidy F d'"
proof -
  have auth: "is_authorized_asset d' acc' x y = is_authorized_asset d acc x y"
    if "acc' = acc \<or> acc' = dec_listings acc" for acc' acc x y
    using that assms(5)
    by (elim disjE) (simp_all add: is_authorized_asset_def is_authorized_asset_slow_def head_block_time_def)
  have seller: "seller_ok d' core a" if "seller_ok d core a" for core a
  proof -
    from that obtain x s where x: "tbl_find (accounts d) a = Some x" "tbl_find (statistics d) (acc_statistics x) = Some s"
      "in_int64 (pending_fees s)" "in_int64 (pending_vested_fees s)" "is_authorized_asset d x 0 core"
      by (auto simp: seller_ok_def)
    let ?x = "if a = p then dec_listings x else x"
    have "tbl_find (accounts d') a = Some ?x" using acc [of a] x(1) by (cases "a = p") simp_all
    moreover have "acc_statistics ?x = acc_statistics x" by simp
    moreover have "is_authorized_asset d' ?x 0 core" using auth [of ?x x 0 core] x(5) by simp
    ultimately show ?thesis using x(2-4) unfolding seller_ok_def assms(6) by metis
  qed
  have pub: "tbl_find (accounts d') a \<noteq> None" if "tbl_find (accounts d) a \<noteq> None" for a
    using that acc [of a] by auto
  from assms(1) obtain fee core where "required_fee F (current_fees (parameters d)) Op_listing_delete base_calculate_fee = Inr fee \<and> fee \<le> 0"
    and "tbl_find (assets d) 0 = Some core" "tbl_find (asset_dyn d) (dynamic_asset_data_id core) \<noteq> None"
    and "\<And>i l. tbl_find (listings d) i = Some l \<Longrightarrow> seller_ok d core (lst_seller l) \<and> tbl_find (accounts d) (lst_publisher l) \<noteq> None"
    unfolding tidy_def by blast
  with seller pub assms(8) show ?thesis unfolding tidy_def assms(2-4) by blast
qed

context fc_laws
begin

lemma delete_result:
  assumes "tidy F d" and l: "tbl_find (listings d) i = Some l"
  shows "\<exists>d'. apply_operation F S default_state (delete_operation i l) d = Inr (Void_result, d') \<and>
    listings d' = tbl_remove (listings d) i \<and> same_clock d d' \<and> tidy F d'"
proof -
  from assms obtain fee core acc s p dyn where fee: "required_fee F (current_fees (parameters d)) Op_listing_delete base_calculate_fee = Inr fee" "fee \<le> 0"
    and core: "tbl_find (assets d) 0 = Some core" "tbl_find (asset_dyn d) (dynamic_asset_data_id core) = Some dyn"
    and acc: "tbl_find (accounts d) (lst_seller l) = Some acc" "tbl_find (statistics d) (acc_statistics acc) = Some s"
    and s: "in_int64 (pending_fees s)" "in_int64 (pending_vested_fees s)" and auth: "is_authorized_asset d acc 0 core"
    and p: "tbl_find (accounts d) (lst_publisher l) = Some p"
    by (fastforce simp: tidy_def seller_ok_def)
  let ?fc = "\<lparr>fee_from_account = core_asset 0, fee_statistics_id = acc_statistics acc,
      fee_asset_dyn_id = dynamic_asset_data_id core, core_fee_paid = 0\<rparr>"
  have prep: "prepare_fee F d (lst_seller l) (core_asset 0) = Inr ?fc"
    using core acc auth by (simp add: prepare_fee_def get_account_def get_asset_def tbl_get_def the_result_def core_asset_def)
  have ps: "stat_pay_fee F 0 th s = Inr s" for th
    using s by (simp add: stat_pay_fee_def safe_add safe_check_def)
  obtain st where st: "tbl_modify no_clash (statistics d) (acc_statistics acc) (\<lambda>_. s) = Inr st"
    using acc(2) by (auto simp: tbl_modify_def tbl_get_def the_result_def no_clash_def)
  let ?d2 = "d\<lparr>statistics := st\<rparr>"
  have pay: "pay_fee F default_state ?fc d = Inr ?d2"
    using acc(2) ps st by (simp add: pay_fee_def default_state_def tbl_get_def the_result_def modify_statistics_def)
  obtain ac where ac: "tbl_modify no_clash (accounts d) (lst_publisher l) dec_listings = Inr ac"
    using p by (auto simp: tbl_modify_def tbl_get_def the_result_def no_clash_def)
  let ?d' = "remove_listing i (?d2\<lparr>accounts := ac\<rparr>)"
  have app: "listing_delete_apply \<lparr>ld_fee = core_asset 0, ld_seller = lst_seller l, ld_listing_id = i\<rparr> ?d2 = Inr ((), ?d')"
    using l ac by (simp add: listing_delete_apply_def get_listing_def tbl_get_def the_result_def modify_account_def)
  have "apply_operation F S default_state (delete_operation i l) d = Inr (Void_result, ?d')"
    using prep fee pay app l
    by (simp add: apply_operation_def delete_operation_def fee_payer_def with_result_def start_evaluate_def evaluate_def apply_op_def
        default_state_def convert_fee_def listing_delete_evaluate_def get_listing_def tbl_get_def the_result_def
        core_asset_def asset_neg_def safe_neg safe_check_def in_int64_def adjust_balance_def)
  moreover have "tidy F ?d'"
  proof (rule tidy_step [OF assms(1)])
    show "tbl_find (statistics ?d') j = tbl_find (statistics d) j" for j
      using tbl_modify_find [OF st, of j] acc(2) by (simp add: remove_listing_def)
    show "tbl_find (accounts ?d') j = (if j = lst_publisher l then map_option dec_listings (tbl_find (accounts d) (lst_publisher l)) else tbl_find (accounts d) j)" for j
      using tbl_modify_find [OF ac, of j] by (simp add: remove_listing_def)
    show "tbl_find (listings d) j = Some l'" if "tbl_find (listings ?d') j = Some l'" for j l'
      using that by (auto simp: remove_listing_def tbl_remove_find split: if_splits)
  qed (simp_all add: remove_listing_def)
  ultimately show ?thesis by (auto simp: remove_listing_def same_clock_def)
qed

lemma clear_listing_result:
  assumes "tidy F d" and "tbl_find (listings d) i = Some l"
  shows "\<exists>d'. clear_listing F S i l d = Inr d' \<and> listings d' = tbl_remove (listings d) i \<and> same_clock d d' \<and> tidy F d'"
proof -
  have "operation_validate (delete_operation i l) = Inr ()"
    by (simp add: operation_validate_def delete_operation_def listing_delete_validate_def core_asset_def)
  with delete_result [OF assms, of S] show ?thesis by (auto simp: clear_listing_def)
qed

lemma clear_listings_result:
  assumes "tidy F d" and exp: "\<And>d'. same_clock d d' \<Longrightarrow> expiry d' = expiry d"
    and least: "\<And>t j y. expired_first (expiry d) first (head_block_time d) t = None \<Longrightarrow>
        (\<And>k z. tbl_find t k = Some z \<Longrightarrow> tbl_find (listings d) k = Some z) \<Longrightarrow> tbl_find t j = Some y \<Longrightarrow>
        head_block_time d < expiry d y"
  shows "\<exists>d'. clear_listings expiry first F S d = Some (Inr d') \<and> same_clock d d' \<and>
    (\<forall>j. tbl_find (listings d') j =
       (case tbl_find (listings d) j of None \<Rightarrow> None
        | Some l \<Rightarrow> if expiry d l \<le> head_block_time d then None else Some l))"
  using assms
proof (induction "tbl_size (listings d)" arbitrary: d rule: less_induct)
  case less
  show ?case
  proof (cases "expired_first (expiry d) first (head_block_time d) (listings d)")
    case None
    then have "clear_listings expiry first F S d = Some (Inr d)" by (simp add: clear_listings.simps)
    moreover have "head_block_time d < expiry d l" if "tbl_find (listings d) j = Some l" for j l
      using less.prems(3) [OF None _ that] by blast
    ultimately show ?thesis by (fastforce split: option.splits)
  next
    case (Some q)
    then obtain i l where q: "expired_first (expiry d) first (head_block_time d) (listings d) = Some (i, l)" by (cases q) auto
    then have l: "tbl_find (listings d) i = Some l" "expiry d l \<le> head_block_time d" by (auto simp: expired_first_Some)
    obtain d1 where d1: "clear_listing F S i l d = Inr d1" "listings d1 = tbl_remove (listings d) i" "same_clock d d1" "tidy F d1"
      using clear_listing_result [OF less.prems(1) l(1)] by blast
    have sz: "tbl_size (listings d1) < tbl_size (listings d)" using tbl_remove_size [OF l(1)] d1(2) by simp
    have now: "head_block_time d1 = head_block_time d" using d1(3) by (simp add: same_clock_def head_block_time_def)
    have e1: "expiry d1 = expiry d" using less.prems(2) [OF d1(3)] .
    have "\<exists>d'. clear_listings expiry first F S d1 = Some (Inr d') \<and> same_clock d1 d' \<and>
      (\<forall>j. tbl_find (listings d') j = (case tbl_find (listings d1) j of None \<Rightarrow> None
        | Some l \<Rightarrow> if expiry d1 l \<le> head_block_time d1 then None else Some l))"
    proof (rule less.hyps [OF sz d1(4)])
      show "expiry d' = expiry d1" if "same_clock d1 d'" for d'
        using less.prems(2) [OF same_clock_trans [OF d1(3) that]] e1 by simp
      show "head_block_time d1 < expiry d1 y"
        if "expired_first (expiry d1) first (head_block_time d1) t = None"
          "\<And>k z. tbl_find t k = Some z \<Longrightarrow> tbl_find (listings d1) k = Some z" "tbl_find t j = Some y" for t j y
      proof -
        have "tbl_find (listings d) k = Some z" if "tbl_find t k = Some z" for k z
          using \<open>\<And>k z. tbl_find t k = Some z \<Longrightarrow> tbl_find (listings d1) k = Some z\<close> [OF that] d1(2)
          by (simp add: tbl_remove_find split: if_splits)
        from less.prems(3) [OF that(1) [unfolded now e1] this that(3)] show ?thesis by (simp add: now e1)
      qed
    qed
    then obtain d' where d': "clear_listings expiry first F S d1 = Some (Inr d')" "same_clock d1 d'"
      "\<forall>j. tbl_find (listings d') j = (case tbl_find (listings d1) j of None \<Rightarrow> None
        | Some l \<Rightarrow> if expiry d1 l \<le> head_block_time d1 then None else Some l)" by blast
    have "clear_listings expiry first F S d = Some (Inr d')"
      using q d1(1) d'(1) by (subst clear_listings.simps) simp
    moreover have "tbl_find (listings d') j = (case tbl_find (listings d) j of None \<Rightarrow> None
        | Some l \<Rightarrow> if expiry d l \<le> head_block_time d then None else Some l)" for j
      using d'(3) [rule_format, of j] l unfolding now e1 d1(2) by (auto simp: tbl_remove_find)
    ultimately show ?thesis using same_clock_trans [OF d1(3) d'(2)] by blast
  qed
qed

end

text \<open>While the deletion costs something, it is refused and the loop meets the same listing again.\<close>

lemma delete_refused:
  assumes "required_fee F (current_fees (parameters d)) Op_listing_delete base_calculate_fee = Inr fee" and "0 < fee"
  shows "\<not> is_ok (apply_operation F S default_state (delete_operation i l) d)"
proof
  assume "is_ok (apply_operation F S default_state (delete_operation i l) d)"
  then obtain fc where "prepare_fee F d (lst_seller l) (core_asset 0) = Inr fc" and "fee \<le> core_fee_paid fc"
    using assms(1)
    by (auto simp: is_ok_iff apply_operation_def delete_operation_def fee_payer_def start_evaluate_def evaluate_def default_state_def)
  with assms(2) show False by (auto simp: prepare_fee_def core_asset_def)
qed

lemma clear_listings_diverges:
  assumes "required_fee F (current_fees (parameters d)) Op_listing_delete base_calculate_fee = Inr fee" and "0 < fee"
    and q: "expired_first (expiry d) first (head_block_time d) (listings d) = Some (i, l)"
  shows "clear_listings expiry first F S d = None"
proof (rule ccontr)
  have stay: "clear_listing F S i l d = Inr d"
    using delete_refused [OF assms(1,2), of S i l]
    by (auto simp: clear_listing_def is_ok_iff operation_validate_def delete_operation_def listing_delete_validate_def
        core_asset_def split: sum.splits)
  assume "clear_listings expiry first F S d \<noteq> None"
  then obtain r where "clear_listings expiry first F S d = Some r" by blast
  then have "\<not> (expiry = expiry \<and> first = first \<and> F = F \<and> S = S \<and> d = d)"
  proof (rule clear_listings.raw_induct [where P = "\<lambda>e f F' S' d' _. \<not> (e = expiry \<and> f = first \<and> F' = F \<and> S' = S \<and> d' = d)", rotated])
    fix rec :: "(database \<Rightarrow> listing_object \<Rightarrow> nat) \<Rightarrow> (listing_object table \<Rightarrow> nat option) \<Rightarrow> fc_lib \<Rightarrow> string_lib \<Rightarrow> database
      \<Rightarrow> database result option"
    fix e f F' S' d' r
    assume ih: "\<And>e f F' S' d' r. rec e f F' S' d' = Some r \<Longrightarrow>
        \<not> (e = expiry \<and> f = first \<and> F' = F \<and> S' = S \<and> d' = d)"
      and "(case expired_first (e d') f (head_block_time d') (listings d') of None \<Rightarrow> Some (Inr d')
         | Some (i, l) \<Rightarrow> (case clear_listing F' S' i l d' of Inl err \<Rightarrow> Some (Inl err) | Inr x \<Rightarrow> rec e f F' S' x)) = Some r"
    with stay q ih [of expiry first F S d r] show "\<not> (e = expiry \<and> f = first \<and> F' = F \<and> S' = S \<and> d' = d)"
      by auto
  qed
  then show False by simp
qed

section \<open>Properties\<close>

text \<open>C35. Clearing expired escrows always ends, for every order in which the index presents escrows of the
  same time: exactly the expired escrows are gone and the others are untouched, the invariant of the
  chain is kept, and no coin is created.\<close>

theorem clear_expired_escrows_returns:
  assumes "fc_laws F" and "ordered_index esc_expiration_time first" and "chain_ok d" and "positive_escrows d"
  shows "\<exists>d'. clear_expired_escrows first F S d = Some d' \<and> chain_ok d' \<and> (\<forall>a. asset_gap a d \<le> asset_gap a d') \<and>
    (\<forall>j. tbl_find (escrows d') j =
       (case tbl_find (escrows d) j of None \<Rightarrow> None
        | Some e \<Rightarrow> if esc_expiration_time e \<le> head_block_time d then None else Some e))"
  using fc_laws.clear_expired_escrows_result [OF assms] by blast

definition late_db :: database where
  "late_db = open_db\<lparr>dyn_props := sample_dyn_props\<lparr>dgp_time := 1560001000\<rparr>\<rparr>"

definition sample_strings :: string_lib where
  "sample_strings = \<lparr>pack_size = (\<lambda>s. length s + 1), to_lower = id\<rparr>"

lemma late_db_ok: "chain_ok late_db" "positive_escrows late_db"
proof -
  have "assets late_db = assets sample_db" by (simp add: late_db_def open_db_def sale_db_def)
  then have "assets_ok late_db" using sample_assets_ok by (rule assets_ok_cong [THEN iffD2])
  moreover have e: "tbl_find (escrows late_db) i = (if i = 0 then Some (new_escrow sale_escrow) else None)" for i
    by (simp add: late_db_def open_db_def tbl_find_def)
  ultimately show "chain_ok late_db"
    by (simp add: chain_ok_def core_escrows_def solvent_def new_escrow_def sale_escrow_def core_asset_def)
      (simp add: late_db_def open_db_def fmpred_upd_iff fmdrop_fmupd)
  show "positive_escrows late_db"
    by (simp add: positive_escrows_def e new_escrow_def sale_escrow_def core_asset_def)
qed

theorem clear_expired_escrows_returns_witness:
  "\<exists>d'. clear_expired_escrows (least_key esc_expiration_time) checked_fc sample_strings late_db = Some d' \<and>
     tbl_find (escrows d') 0 = None \<and> solvent d'"
proof -
  have "tbl_find (escrows late_db) 0 = Some (new_escrow sale_escrow)"
    by (simp add: late_db_def open_db_def tbl_find_def)
  moreover have "esc_expiration_time (new_escrow sale_escrow) \<le> head_block_time late_db"
    by (simp add: late_db_def head_block_time_def new_escrow_def sale_escrow_def)
  ultimately show ?thesis
    using clear_expired_escrows_returns [OF checked.fc_laws_axioms by_key.ordered_index_axioms late_db_ok, of sample_strings]
    by (force simp: chain_ok_def)
qed

text \<open>Clearing expired listings ends and removes exactly the expired listings, before and after the hard
  fork that counts their age from the last update, provided the deletion of a listing costs nothing, every
  seller may use the core asset, and no expiration exceeds 32 bits.\<close>

theorem clear_expired_listings_returns:
  assumes "fc_laws F" and "ordered_index lst_expiration_time be" and "ordered_index updated_at bu" and "tidy F d"
    and "\<forall>i l. tbl_find (listings d) i = Some l \<longrightarrow> updated_at l + maximum_listing_lifetime (parameters d) < 2 ^ 32"
  defines "expiry \<equiv> \<lambda>l. if head_block_time d < HARDFORK_OM_774_TIME then lst_expiration_time l
    else updated_at l + maximum_listing_lifetime (parameters d)"
  shows "\<exists>d'. clear_expired_listings be bu F S d = Some (Inr d') \<and>
    (\<forall>j. tbl_find (listings d') j =
       (case tbl_find (listings d) j of None \<Rightarrow> None
        | Some l \<Rightarrow> if expiry l \<le> head_block_time d then None else Some l))"
proof (cases "head_block_time d < HARDFORK_OM_774_TIME")
  case True
  have "\<exists>d'. clear_listings (\<lambda>_. lst_expiration_time) be F S d = Some (Inr d') \<and> same_clock d d' \<and>
    (\<forall>j. tbl_find (listings d') j = (case tbl_find (listings d) j of None \<Rightarrow> None
        | Some l \<Rightarrow> if lst_expiration_time l \<le> head_block_time d then None else Some l))"
    by (rule fc_laws.clear_listings_result [OF assms(1,4)]) (auto dest: expired_first_None [OF _ assms(2)])
  moreover have "expiry = lst_expiration_time" using True by (simp add: expiry_def fun_eq_iff)
  ultimately show ?thesis using True unfolding clear_expired_listings_def by auto
next
  case False
  let ?life = "maximum_listing_lifetime (parameters d)" and ?e = "\<lambda>d l. tps_add F (updated_at l) (maximum_listing_lifetime (parameters d))"
  have e: "?e d l = updated_at l + ?life" if "tbl_find (listings d) i = Some l" for i l
    using fc_laws.tps_add [OF assms(1)] assms(5) that by auto
  have "\<exists>d'. clear_listings ?e bu F S d = Some (Inr d') \<and> same_clock d d' \<and>
    (\<forall>j. tbl_find (listings d') j = (case tbl_find (listings d) j of None \<Rightarrow> None
        | Some l \<Rightarrow> if ?e d l \<le> head_block_time d then None else Some l))"
  proof (rule fc_laws.clear_listings_result [OF assms(1,4)])
    show "?e d' = ?e d" if "same_clock d d'" for d' using that by (simp add: same_clock_def)
    fix t j y
    assume none: "expired_first (?e d) bu (head_block_time d) t = None"
      and sub: "\<And>k z. tbl_find t k = Some z \<Longrightarrow> tbl_find (listings d) k = Some z" and y: "tbl_find t j = Some y"
    have "expired_first updated_at bu (head_block_time d - ?life) t = None" if "?life \<le> head_block_time d"
    proof (rule ccontr)
      assume "expired_first updated_at bu (head_block_time d - ?life) t \<noteq> None"
      then obtain i x where x: "bu t = Some i" "tbl_find t i = Some x" "updated_at x \<le> head_block_time d - ?life"
        by (auto simp: expired_first_Some)
      then have "?e d x \<le> head_block_time d" using e [OF sub [OF x(2)]] that by simp
      with x have "expired_first (?e d) bu (head_block_time d) t = Some (i, x)" by (simp add: expired_first_Some)
      with none show False by simp
    qed
    from expired_first_None [OF this assms(3) y] e [OF sub [OF y]] show "head_block_time d < ?e d y"
      by (cases "?life \<le> head_block_time d") auto
  qed
  then obtain d' where d': "clear_listings ?e bu F S d = Some (Inr d')"
    and f: "\<And>j. tbl_find (listings d') j = (case tbl_find (listings d) j of None \<Rightarrow> None
        | Some l \<Rightarrow> if ?e d l \<le> head_block_time d then None else Some l)" by blast
  have "tbl_find (listings d') j = (case tbl_find (listings d) j of None \<Rightarrow> None
        | Some l \<Rightarrow> if expiry l \<le> head_block_time d then None else Some l)" for j
    using f [of j] e [of j] False by (cases "tbl_find (listings d) j") (simp_all add: expiry_def)
  with d' False show ?thesis by (auto simp: clear_expired_listings_def)
qed

theorem clear_expired_listings_returns_witness:
  "\<exists>d'. clear_expired_listings (least_key lst_expiration_time) (least_key updated_at) checked_fc sample_strings sale_db = Some (Inr d') \<and>
     tbl_find (listings d') 0 = None"
proof -
  have l: "tbl_find (listings sale_db) i = (if i = 0 then Some (the (tbl_find (listings sale_db) 0)) else None)" for i
    by (simp add: sale_db_def tbl_find_def)
  have "tidy checked_fc sale_db"
    by (auto simp: tidy_def seller_ok_def sale_db_def sample_eval required_fee_eval checked_fc_def in_int64_def
        is_authorized_asset_def safe_check_def split: if_splits)
  moreover have "\<forall>i l. tbl_find (listings sale_db) i = Some l \<longrightarrow>
      updated_at l + maximum_listing_lifetime (parameters sale_db) < 2 ^ 32"
    by (simp add: sale_db_def sample_eval)
  ultimately have "\<exists>d'. clear_expired_listings (least_key lst_expiration_time) (least_key updated_at) checked_fc sample_strings sale_db = Some (Inr d') \<and>
    (\<forall>j. tbl_find (listings d') j = (case tbl_find (listings sale_db) j of None \<Rightarrow> None
        | Some l \<Rightarrow> if (if head_block_time sale_db < HARDFORK_OM_774_TIME then lst_expiration_time l
    else updated_at l + maximum_listing_lifetime (parameters sale_db)) \<le> head_block_time sale_db then None else Some l))"
    by (rule clear_expired_listings_returns [OF checked.fc_laws_axioms by_key.ordered_index_axioms by_key.ordered_index_axioms])
  then show ?thesis
    by (elim exE conjE) (intro exI conjI, assumption, simp add: sale_db_def sample_eval HARDFORK_OM_774_TIME_def)
qed

text \<open>C36. If the fee schedule asks for a fee to delete a listing, the loop that clears expired listings never
  ends once a listing has expired: the deletion is refused, the exception is swallowed, and the same
  listing is met again.\<close>

theorem clear_expired_listings_diverges:
  assumes "required_fee F (current_fees (parameters d)) Op_listing_delete base_calculate_fee = Inr fee" and "0 < fee"
    and "if head_block_time d < HARDFORK_OM_774_TIME
      then expired_first lst_expiration_time be (head_block_time d) (listings d) = Some (i, l)
      else expired_first (\<lambda>l. tps_add F (updated_at l) (maximum_listing_lifetime (parameters d))) bu
        (head_block_time d) (listings d) = Some (i, l)"
  shows "clear_expired_listings be bu F S d = None"
  using assms(3) clear_listings_diverges [OF assms(1,2)] by (simp add: clear_expired_listings_def split: if_splits)

definition charged_db :: database where
  "charged_db = sale_db\<lparr>parameters := sample_parameters\<lparr>current_fees :=
     \<lparr>fs_parameters = [Op_listing_delete \<mapsto> \<lparr>fp_fee = 1, fp_price_per_kbyte = 0\<rparr>], fs_scale = 10000\<rparr>\<rparr>\<rparr>"

theorem clear_expired_listings_diverges_witness:
  "clear_expired_listings (least_key lst_expiration_time) (least_key updated_at) checked_fc sample_strings charged_db = None"
proof (rule clear_expired_listings_diverges)
  show "required_fee checked_fc (current_fees (parameters charged_db)) Op_listing_delete base_calculate_fee = Inr 1"
    by (simp add: charged_db_def required_fee_eval checked_fc_def wrap64_def)
  show "(0 :: int) < 1" by simp
  show "if head_block_time charged_db < HARDFORK_OM_774_TIME
    then expired_first lst_expiration_time (least_key lst_expiration_time) (head_block_time charged_db) (listings charged_db) =
      Some (0, the (tbl_find (listings sale_db) 0))
    else expired_first (\<lambda>l. tps_add checked_fc (updated_at l) (maximum_listing_lifetime (parameters charged_db)))
      (least_key updated_at) (head_block_time charged_db) (listings charged_db) = Some (0, the (tbl_find (listings sale_db) 0))"
    by (simp add: charged_db_def sale_db_def sample_eval HARDFORK_OM_774_TIME_def expired_first_def least_key_def
        sorted_list_of_fmap_def sorted_list_of_fset.rep_eq checked_fc_def)
qed

end
