(* ===== verification/Transactions.thy ===== *)
theory Transactions
  imports Housekeeping
begin

unbundle bit_operations_syntax

text \<open>
  Transactions: \<^verbatim>\<open>transaction::validate\<close>, the keys of the signatures and \<^verbatim>\<open>verify_authority\<close> of
  \<^verbatim>\<open>protocol/transaction.cpp\<close>, \<^verbatim>\<open>database::_apply_transaction\<close> of \<^verbatim>\<open>db_block.cpp\<close> and
  \<^verbatim>\<open>clear_expired_transactions\<close> of \<^verbatim>\<open>db_update.cpp\<close>. The index of transactions that guards against
  replays is a table of the database that only this code touches; it stands beside the rest of the
  state in the record \<open>node\<close>. Hashing and the recovery of keys from signatures belong to \<^verbatim>\<open>fc\<close>: they are
  the parameter \<open>X\<close>.
\<close>

record transaction =
  ref_block_num :: nat
  ref_block_prefix :: nat
  trx_expiration :: time_sec
  trx_operations :: "operation list"

record signed_transaction = transaction +
  signatures :: "nat list"

record crypto_lib =
  digest :: "transaction \<Rightarrow> 8 word list"
  sig_digest :: "nat \<Rightarrow> transaction \<Rightarrow> 8 word list"
  recover_key :: "nat \<Rightarrow> 8 word list \<Rightarrow> public_key"
  keys :: key_lib

text \<open>A block id is a number of 160 bits; \<open>hash_word i\<close> is its word \<^verbatim>\<open>_hash[i]\<close>.\<close>

definition hash_word :: "nat \<Rightarrow> nat \<Rightarrow> nat" where
  "hash_word i h = h div 2 ^ (32 * i) mod 2 ^ 32"

record transaction_object =
  to_trx :: signed_transaction
  to_id :: "8 word list"

record node =
  state :: database
  trx_index :: "transaction_object table"
  chain_id :: nat

subsection \<open>Flags\<close>

definition skip_transaction_signatures :: "32 word" where
  "skip_transaction_signatures = 2"

definition skip_transaction_dupe_check :: "32 word" where
  "skip_transaction_dupe_check = 4"

definition skip_tapos_check :: "32 word" where
  "skip_tapos_check = 32"

definition skip_authority_check :: "32 word" where
  "skip_authority_check = 64"

definition skips :: "32 word \<Rightarrow> 32 word \<Rightarrow> bool" where
  "skips skip flag \<longleftrightarrow> skip AND flag \<noteq> 0"

subsection \<open>Validation and signatures\<close>

definition transaction_validate :: "signed_transaction \<Rightarrow> unit result" where
  "transaction_validate t =
     ebind (fc_assert (trx_operations t \<noteq> []) ''A transaction must have at least one operation'') (\<lambda>_.
     efold (\<lambda>op _. operation_validate op) (trx_operations t) ())"

definition transaction_id :: "crypto_lib \<Rightarrow> signed_transaction \<Rightarrow> 8 word list" where
  "transaction_id X t = take 20 (digest X (transaction.truncate t))"

definition get_signature_keys :: "crypto_lib \<Rightarrow> nat \<Rightarrow> signed_transaction \<Rightarrow> public_key fset result" where
  "get_signature_keys X chain t =
     (let d = sig_digest X chain (transaction.truncate t) in
      efold (\<lambda>sig ks. let k = recover_key X sig d in
               ebind (fc_assert (k |\<notin>| ks) ''Duplicate Signature detected'') (\<lambda>_. Inr (finsert k ks)))
        (signatures t) {||})"

definition all_required_active :: "operation list \<Rightarrow> account_id fset" where
  "all_required_active ops = fold (\<lambda>op s. s |\<union>| required_active op) ops {||}"

definition verify_authority ::
  "key_lib \<Rightarrow> (account_id \<Rightarrow> authority option result) \<Rightarrow> (account_id \<Rightarrow> authority option result) \<Rightarrow> nat
    \<Rightarrow> operation list \<Rightarrow> public_key fset \<Rightarrow> unit result" where
  "verify_authority K ga go n ops sigs =
     verify_required K ga go n False {||} {||} sigs (all_required_active ops) {||} (concat (map required_other ops))"

definition active_of :: "database \<Rightarrow> account_id \<Rightarrow> authority option result" where
  "active_of d a = ebind (get_account d a) (\<lambda>x. Inr (Some (acc_active x)))"

definition owner_of :: "database \<Rightarrow> account_id \<Rightarrow> authority option result" where
  "owner_of d a = ebind (get_account d a) (\<lambda>x. Inr (Some (acc_owner x)))"

subsection \<open>Applying a transaction\<close>

definition trx_clash :: "transaction_object \<Rightarrow> transaction_object \<Rightarrow> bool" where
  "trx_clash a b \<longleftrightarrow> to_id a = to_id b"

definition check_expiration :: "fc_lib \<Rightarrow> 32 word \<Rightarrow> signed_transaction \<Rightarrow> database \<Rightarrow> unit result" where
  "check_expiration F skip t d =
     (if 0 < head_block_number (dyn_props d) then
        ebind (if skips skip skip_tapos_check then Inr ()
               else ebind (tbl_get (block_summaries d) (ref_block_num t)) (\<lambda>summary.
                    fc_assert (ref_block_prefix t = hash_word 1 summary) ''ref_block_prefix'')) (\<lambda>_.
        ebind (fc_assert (trx_expiration t \<le> tps_add F (head_block_time d) (maximum_time_until_expiration (parameters d)))
                 ''trx.expiration <= now + maximum_time_until_expiration'') (\<lambda>_.
        fc_assert (head_block_time d \<le> trx_expiration t) ''now <= trx.expiration''))
      else Inr ())"

definition apply_operations ::
  "fc_lib \<Rightarrow> string_lib \<Rightarrow> operation list \<Rightarrow> database \<Rightarrow> (operation_result list \<times> database) result" where
  "apply_operations F S ops d =
     efold (\<lambda>op (rs, d). ebind (apply_operation F S default_state op d) (\<lambda>(r, d'). Inr (rs @ [r], d'))) ops ([], d)"

definition apply_transaction ::
  "crypto_lib \<Rightarrow> fc_lib \<Rightarrow> string_lib \<Rightarrow> 32 word \<Rightarrow> signed_transaction \<Rightarrow> node \<Rightarrow> (operation_result list \<times> node) result" where
  "apply_transaction X F S skip t n =
     (let d = state n; tid = transaction_id X t in
     ebind (transaction_validate t) (\<lambda>_.
     ebind (fc_assert (skips skip skip_transaction_dupe_check \<or> fmpred (\<lambda>_ x. to_id x \<noteq> tid) (objs (trx_index n)))
              ''duplicate transaction'') (\<lambda>_.
     ebind (if skips skip (skip_transaction_signatures OR skip_authority_check) then Inr ()
            else ebind (get_signature_keys X (chain_id n) t) (\<lambda>sigs.
                 verify_authority (keys X) (active_of d) (owner_of d) (max_authority_depth (parameters d))
                   (trx_operations t) sigs)) (\<lambda>_.
     ebind (check_expiration F skip t d) (\<lambda>_.
     ebind (if skips skip skip_transaction_dupe_check then Inr (trx_index n)
            else emap snd (tbl_create trx_clash (trx_index n) \<lparr>to_trx = t, to_id = tid\<rparr>)) (\<lambda>idx.
     ebind (apply_operations F S (trx_operations t) d) (\<lambda>(rs, d').
     ebind (fc_assert (fmpred (\<lambda>k b. fst k = GRAPHENE_TEMP_ACCOUNT \<longrightarrow> b = 0) (balances d')) ''b.balance == 0'') (\<lambda>_.
     Inr (rs, n\<lparr>state := d', trx_index := idx\<rparr>)))))))))"

partial_function (option) clear_expired_transactions ::
  "(transaction_object table \<Rightarrow> nat option) \<Rightarrow> node \<Rightarrow> node option" where
  "clear_expired_transactions first n =
     (case first (trx_index n) of
        None \<Rightarrow> Some n
      | Some i \<Rightarrow>
          (case tbl_find (trx_index n) i of
             None \<Rightarrow> Some n
           | Some x \<Rightarrow>
               if trx_expiration (to_trx x) < head_block_time (state n)
               then clear_expired_transactions first (n\<lparr>trx_index := tbl_remove (trx_index n) i\<rparr>)
               else Some n))"

subsection \<open>The life of a transaction index\<close>

text \<open>
  What happens to a node between two transactions: others are applied, the state advances in any way that
  does not turn the clock back, and expired transactions are dropped, after the first block.
\<close>

inductive node_step ::
  "crypto_lib \<Rightarrow> fc_lib \<Rightarrow> string_lib \<Rightarrow> (transaction_object table \<Rightarrow> nat option) \<Rightarrow> node \<Rightarrow> node \<Rightarrow> bool"
  for X F S first where
  step_apply: "apply_transaction X F S skip t n = Inr (r, n') \<Longrightarrow> node_step X F S first n n'"
| step_advance: "dgp_time (dyn_props (state n)) \<le> dgp_time (dyn_props d') \<Longrightarrow>
     head_block_number (dyn_props (state n)) \<le> head_block_number (dyn_props d') \<Longrightarrow>
     node_step X F S first n (n\<lparr>state := d'\<rparr>)"
| step_clear: "0 < head_block_number (dyn_props (state n)) \<Longrightarrow> clear_expired_transactions first n = Some n' \<Longrightarrow>
     node_step X F S first n n'"

text \<open>A transaction is barred while it is in the index, and for ever after it has expired.\<close>

definition barred :: "crypto_lib \<Rightarrow> signed_transaction \<Rightarrow> node \<Rightarrow> bool" where
  "barred X t n \<longleftrightarrow>
     (\<exists>i x. tbl_find (trx_index n) i = Some x \<and> to_id x = transaction_id X t \<and> trx_expiration (to_trx x) = trx_expiration t) \<or>
     (0 < head_block_number (dyn_props (state n)) \<and> trx_expiration t < head_block_time (state n))"

section \<open>Lemmas\<close>

lemma transaction_validate_all:
  "transaction_validate t = Inr u \<Longrightarrow> op \<in> set (trx_operations t) \<Longrightarrow> operation_validate op = Inr ()"
proof -
  have "efold (\<lambda>op _. operation_validate op) ops () = Inr u \<Longrightarrow> op \<in> set ops \<Longrightarrow> operation_validate op = Inr ()" for ops
    by (induction ops) auto
  then show "transaction_validate t = Inr u \<Longrightarrow> op \<in> set (trx_operations t) \<Longrightarrow> operation_validate op = Inr ()"
    by (auto simp: transaction_validate_def)
qed

lemma all_required_active_iff: "a |\<in>| all_required_active ops \<longleftrightarrow> (\<exists>op\<in>set ops. a |\<in>| required_active op)"
proof -
  have "a |\<in>| fold (\<lambda>op s. s |\<union>| required_active op) ops s \<longleftrightarrow> a |\<in>| s \<or> (\<exists>op\<in>set ops. a |\<in>| required_active op)" for s
    by (induction ops arbitrary: s) auto
  then show ?thesis by (simp add: all_required_active_def)
qed

lemma get_signature_keys_set:
  assumes "get_signature_keys X chain t = Inr ks"
  shows "fset ks = (\<lambda>sig. recover_key X sig (sig_digest X chain (transaction.truncate t))) ` set (signatures t)"
proof -
  have "efold (\<lambda>sig ks. let k = f sig in
      ebind (fc_assert (k |\<notin>| ks) msg) (\<lambda>_. Inr (finsert k ks))) sigs ks0 = Inr ks \<Longrightarrow> fset ks = f ` set sigs \<union> fset ks0"
    for f sigs ks0 msg
    by (induction sigs arbitrary: ks0) (auto simp: Let_def)
  with assms show ?thesis by (force simp: get_signature_keys_def Let_def)
qed

lemma apply_transaction_cases:
  assumes "apply_transaction X F S skip t n = Inr (rs, n')"
  obtains idx d' where "n' = n\<lparr>state := d', trx_index := idx\<rparr>"
    and "transaction_validate t = Inr ()"
    and "skips skip skip_transaction_dupe_check \<or> fmpred (\<lambda>_ x. to_id x \<noteq> transaction_id X t) (objs (trx_index n))"
    and "skips skip (skip_transaction_signatures OR skip_authority_check) \<or>
      (\<exists>sigs. get_signature_keys X (chain_id n) t = Inr sigs \<and>
         verify_authority (keys X) (active_of (state n)) (owner_of (state n)) (max_authority_depth (parameters (state n)))
           (trx_operations t) sigs = Inr ())"
    and "check_expiration F skip t (state n) = Inr ()"
    and "if skips skip skip_transaction_dupe_check then idx = trx_index n
      else \<exists>i. tbl_create trx_clash (trx_index n) \<lparr>to_trx = t, to_id = transaction_id X t\<rparr> = Inr (i, idx)"
    and "apply_operations F S (trx_operations t) (state n) = Inr (rs, d')"
    and "fmpred (\<lambda>k b. fst k = GRAPHENE_TEMP_ACCOUNT \<longrightarrow> b = 0) (balances d')"
  using assms by (auto simp: apply_transaction_def Let_def split: if_splits)

context fc_laws
begin

lemma apply_operations_clock:
  assumes "apply_operations F S ops d = Inr (rs, d')"
  shows "same_clock d d'"
proof -
  have "efold (\<lambda>op (rs, d). ebind (apply_operation F S default_state op d) (\<lambda>(r, d'). Inr (rs @ [r], d'))) ops (rs0, d) = Inr (rs, d') \<Longrightarrow>
    same_clock d d'" for rs0
    by (induction ops arbitrary: rs0 d) (auto dest!: operation_clock intro: same_clock_trans)
  then show ?thesis using assms by (simp add: apply_operations_def)
qed

lemma apply_operations_sound:
  assumes "apply_operations F S ops d = Inr (rs, d')" and "chain_ok d"
    and "\<And>op. op \<in> set ops \<Longrightarrow> operation_validate op = Inr () \<and> fees_in_core op"
  shows "chain_ok d' \<and> (\<forall>a. asset_gap a d' = asset_gap a d) \<and> length rs = length ops"
proof -
  have "efold (\<lambda>op (rs, d). ebind (apply_operation F S default_state op d) (\<lambda>(r, d'). Inr (rs @ [r], d'))) ops (rs0, d) = Inr (rs, d') \<Longrightarrow>
    chain_ok d \<Longrightarrow> (\<And>op. op \<in> set ops \<Longrightarrow> operation_validate op = Inr () \<and> fees_in_core op) \<Longrightarrow>
    chain_ok d' \<and> (\<forall>a. asset_gap a d' = asset_gap a d) \<and> length rs = length rs0 + length ops" for rs0
  proof (induction ops arbitrary: rs0 d)
    case (Cons op ops)
    from Cons.prems(1) obtain r d1 where a: "apply_operation F S default_state op d = Inr (r, d1)"
      and rest: "efold (\<lambda>op (rs, d). ebind (apply_operation F S default_state op d) (\<lambda>(r, d'). Inr (rs @ [r], d'))) ops (rs0 @ [r], d1) = Inr (rs, d')"
      by auto
    have "operation_validate op = Inr ()" "fees_in_core op" using Cons.prems(3) by auto
    from operation_sound [OF a this Cons.prems(2)] Cons.IH [OF rest] Cons.prems(3) show ?case by auto
  qed simp
  from this [of "[]"] assms show ?thesis by (simp add: apply_operations_def)
qed

lemma apply_transaction_sound:
  assumes "apply_transaction X F S skip t n = Inr (rs, n')"
    and "chain_ok (state n)" and "list_all fees_in_core (trx_operations t)"
  shows "chain_ok (state n') \<and> (\<forall>a. asset_gap a (state n') = asset_gap a (state n)) \<and>
    length rs = length (trx_operations t)"
  using assms(1)
proof (rule apply_transaction_cases)
  fix idx d'
  assume n': "n' = n\<lparr>state := d', trx_index := idx\<rparr>" and v: "transaction_validate t = Inr ()"
    and ops: "apply_operations F S (trx_operations t) (state n) = Inr (rs, d')"
  from assms(3) have f: "op \<in> set (trx_operations t) \<Longrightarrow> fees_in_core op" for op by (simp add: list_all_iff)
  from apply_operations_sound [OF ops assms(2)] transaction_validate_all [OF v] f n' show ?thesis by simp
qed

lemma apply_transaction_clock:
  assumes "apply_transaction X F S skip t n = Inr (rs, n')"
  shows "same_clock (state n) (state n')"
  using assms by (rule apply_transaction_cases) (simp add: apply_operations_clock)

end

lemma apply_transaction_keeps:
  assumes "apply_transaction X F S skip t n = Inr (rs, n')" and "tbl_find (trx_index n) i = Some x"
  shows "tbl_find (trx_index n') i = Some x"
  using assms(1)
proof (rule apply_transaction_cases)
  fix idx d'
  assume n': "n' = n\<lparr>state := d', trx_index := idx\<rparr>"
    and idx: "if skips skip skip_transaction_dupe_check then idx = trx_index n
      else \<exists>i. tbl_create trx_clash (trx_index n) \<lparr>to_trx = t, to_id = transaction_id X t\<rparr> = Inr (i, idx)"
  show ?thesis
  proof (cases "skips skip skip_transaction_dupe_check")
    case True
    with idx n' assms(2) show ?thesis by simp
  next
    case False
    with idx obtain j where c: "tbl_create trx_clash (trx_index n) \<lparr>to_trx = t, to_id = transaction_id X t\<rparr> = Inr (j, idx)" by auto
    from tbl_create_find [OF c, of i] tbl_create_fresh [OF c] assms(2) n' show ?thesis by auto
  qed
qed

lemma clear_keeps:
  assumes "clear_expired_transactions first n = Some n'"
  shows "state n' = state n \<and> chain_id n' = chain_id n \<and>
    (\<forall>i x. tbl_find (trx_index n) i = Some x \<and> \<not> trx_expiration (to_trx x) < head_block_time (state n) \<longrightarrow>
       tbl_find (trx_index n') i = Some x)"
  using assms
proof (rule clear_expired_transactions.raw_induct [where P = "\<lambda>_ n n'. state n' = state n \<and> chain_id n' = chain_id n \<and>
    (\<forall>i x. tbl_find (trx_index n) i = Some x \<and> \<not> trx_expiration (to_trx x) < head_block_time (state n) \<longrightarrow>
       tbl_find (trx_index n') i = Some x)", rotated])
  fix rec :: "(transaction_object table \<Rightarrow> nat option) \<Rightarrow> node \<Rightarrow> node option" and f n n'
  assume ih: "\<And>f n n'. rec f n = Some n' \<Longrightarrow> state n' = state n \<and> chain_id n' = chain_id n \<and>
    (\<forall>i x. tbl_find (trx_index n) i = Some x \<and> \<not> trx_expiration (to_trx x) < head_block_time (state n) \<longrightarrow>
       tbl_find (trx_index n') i = Some x)"
    and run: "(case f (trx_index n) of None \<Rightarrow> Some n
      | Some i \<Rightarrow> (case tbl_find (trx_index n) i of None \<Rightarrow> Some n
         | Some x \<Rightarrow> if trx_expiration (to_trx x) < head_block_time (state n)
             then rec f (n\<lparr>trx_index := tbl_remove (trx_index n) i\<rparr>) else Some n)) = Some n'"
  show "state n' = state n \<and> chain_id n' = chain_id n \<and>
    (\<forall>i x. tbl_find (trx_index n) i = Some x \<and> \<not> trx_expiration (to_trx x) < head_block_time (state n) \<longrightarrow>
       tbl_find (trx_index n') i = Some x)"
  proof (cases "\<exists>i x. f (trx_index n) = Some i \<and> tbl_find (trx_index n) i = Some x \<and>
      trx_expiration (to_trx x) < head_block_time (state n)")
    case True
    then obtain i x where i: "f (trx_index n) = Some i" "tbl_find (trx_index n) i = Some x"
      "trx_expiration (to_trx x) < head_block_time (state n)" by blast
    with run have "rec f (n\<lparr>trx_index := tbl_remove (trx_index n) i\<rparr>) = Some n'" by simp
    note r = ih [OF this]
    have "j \<noteq> i" if "tbl_find (trx_index n) j = Some y" "\<not> trx_expiration (to_trx y) < head_block_time (state n)" for j y
      using that i by auto
    with r show ?thesis by (simp add: tbl_remove_find)
  next
    case False
    with run have "n' = n" by (auto split: option.splits if_splits)
    then show ?thesis by simp
  qed
qed


text \<open>The loop returns, and it leaves exactly the transactions that have not expired.\<close>

lemma clear_expired_transactions_result:
  assumes "ordered_index (\<lambda>x. trx_expiration (to_trx x)) first"
  shows "\<exists>n'. clear_expired_transactions first n = Some n' \<and> state n' = state n \<and>
    (\<forall>j. tbl_find (trx_index n') j =
       (case tbl_find (trx_index n) j of None \<Rightarrow> None
        | Some x \<Rightarrow> if trx_expiration (to_trx x) < head_block_time (state n) then None else Some x))"
proof (induction "tbl_size (trx_index n)" arbitrary: n rule: less_induct)
  case less
  show ?case
  proof (cases "first (trx_index n)")
    case None
    then have "clear_expired_transactions first n = Some n" by (simp add: clear_expired_transactions.simps)
    moreover have "tbl_find (trx_index n) j = None" for j
      using None ordered_index.first_None [OF assms] by (simp add: tbl_find_def)
    ultimately show ?thesis by simp
  next
    case (Some i)
    from ordered_index.first_Some [OF assms Some] obtain x where x: "tbl_find (trx_index n) i = Some x"
      and least: "\<And>j y. tbl_find (trx_index n) j = Some y \<Longrightarrow> trx_expiration (to_trx x) \<le> trx_expiration (to_trx y)" by blast
    show ?thesis
    proof (cases "trx_expiration (to_trx x) < head_block_time (state n)")
      case False
      then have "clear_expired_transactions first n = Some n" using Some x by (simp add: clear_expired_transactions.simps)
      moreover have "\<not> trx_expiration (to_trx y) < head_block_time (state n)" if "tbl_find (trx_index n) j = Some y" for j y
        using least [OF that] False by simp
      ultimately show ?thesis by (fastforce split: option.splits)
    next
      case True
      let ?n = "n\<lparr>trx_index := tbl_remove (trx_index n) i\<rparr>"
      have sz: "tbl_size (trx_index ?n) < tbl_size (trx_index n)" using tbl_remove_size [OF x] by simp
      from less.hyps [OF sz] obtain n' where n': "clear_expired_transactions first ?n = Some n'" "state n' = state ?n"
        "\<And>j. tbl_find (trx_index n') j =
       (case tbl_find (trx_index ?n) j of None \<Rightarrow> None
        | Some x \<Rightarrow> if trx_expiration (to_trx x) < head_block_time (state ?n) then None else Some x)" by blast
      have "clear_expired_transactions first n = Some n'"
        using Some x True n'(1) by (subst clear_expired_transactions.simps) simp
      moreover have "tbl_find (trx_index n') j = (case tbl_find (trx_index n) j of None \<Rightarrow> None
        | Some x \<Rightarrow> if trx_expiration (to_trx x) < head_block_time (state n) then None else Some x)" for j
        using n'(3) [of j] x True by (auto simp: tbl_remove_find split: option.splits)
      ultimately show ?thesis using n'(2) by auto
    qed
  qed
qed

lemma barred_refused:
  assumes "barred X t n" and "\<not> skips skip skip_transaction_dupe_check" and "transaction_id X t' = transaction_id X t"
    and "trx_expiration t' = trx_expiration t"
  shows "\<not> is_ok (apply_transaction X F S skip t' n)"
proof
  assume "is_ok (apply_transaction X F S skip t' n)"
  then obtain rs n' where "apply_transaction X F S skip t' n = Inr (rs, n')" by (auto simp: is_ok_iff)
  then show False
  proof (rule apply_transaction_cases)
    assume "skips skip skip_transaction_dupe_check \<or> fmpred (\<lambda>_ x. to_id x \<noteq> transaction_id X t') (objs (trx_index n))"
      and e: "check_expiration F skip t' (state n) = Inr ()"
    then have f: "fmpred (\<lambda>_ x. to_id x \<noteq> transaction_id X t') (objs (trx_index n))" using assms(2) by simp
    from assms(1) show False unfolding barred_def
    proof (elim disjE exE conjE)
      fix i x
      assume "tbl_find (trx_index n) i = Some x" "to_id x = transaction_id X t"
      with f assms(3) show False by (auto simp: fmpred_iff tbl_find_def)
    next
      assume "0 < head_block_number (dyn_props (state n))" "trx_expiration t < head_block_time (state n)"
      with e assms(4) show False by (auto simp: check_expiration_def)
    qed
  qed
qed

lemma barred_applied:
  assumes "apply_transaction X F S skip t n = Inr (rs, n')" and "\<not> skips skip skip_transaction_dupe_check"
  shows "barred X t n'"
  using assms(1)
proof (rule apply_transaction_cases)
  fix idx d'
  assume n': "n' = n\<lparr>state := d', trx_index := idx\<rparr>"
    and "if skips skip skip_transaction_dupe_check then idx = trx_index n
      else \<exists>i. tbl_create trx_clash (trx_index n) \<lparr>to_trx = t, to_id = transaction_id X t\<rparr> = Inr (i, idx)"
  then obtain i where c: "tbl_create trx_clash (trx_index n) \<lparr>to_trx = t, to_id = transaction_id X t\<rparr> = Inr (i, idx)"
    using assms(2) by auto
  from tbl_create_find [OF c, of i] n'
  have "tbl_find (trx_index n') i = Some \<lparr>to_trx = t, to_id = transaction_id X t\<rparr>" by simp
  then show ?thesis unfolding barred_def by force
qed

context fc_laws
begin

lemma barred_step:
  assumes "node_step X F S first n n'" and "barred X t n"
  shows "barred X t n'"
  using assms
proof (induction rule: node_step.induct)
  case (step_apply skip t' n r n')
  have "same_clock (state n) (state n')" using step_apply.hyps by (rule apply_transaction_clock)
  with step_apply.prems apply_transaction_keeps [OF step_apply.hyps] show ?case
    unfolding barred_def same_clock_def head_block_time_def by auto
next
  case (step_advance n d')
  then show ?case unfolding barred_def head_block_time_def by auto
next
  case (step_clear n n')
  note k = clear_keeps [OF step_clear.hyps(2)]
  from step_clear.prems show ?case unfolding barred_def
  proof (elim disjE exE conjE)
    fix i x
    assume "tbl_find (trx_index n) i = Some x" "to_id x = transaction_id X t" "trx_expiration (to_trx x) = trx_expiration t"
    with k step_clear.hyps(1) show "(\<exists>i x. tbl_find (trx_index n') i = Some x \<and> to_id x = transaction_id X t \<and> trx_expiration (to_trx x) = trx_expiration t) \<or>
      (0 < head_block_number (dyn_props (state n')) \<and> trx_expiration t < head_block_time (state n'))"
      by (cases "trx_expiration t < head_block_time (state n)") (force+)
  qed (use k in auto)
qed

lemma barred_steps: "(node_step X F S first)\<^sup>*\<^sup>* n n' \<Longrightarrow> barred X t n \<Longrightarrow> barred X t n'"
  by (induction rule: rtranclp_induct) (auto intro: barred_step)

end

section \<open>Sample\<close>

text \<open>Account 6, whose active authority is the key 60, sends 200 coins to account 7.\<close>

definition signed_db :: database where
  "signed_db = sample_db\<lparr>
     accounts := sample_accounts\<lparr>objs := fmupd 6 (sample_account\<lparr>acc_statistics := 6,
       acc_active := empty_authority\<lparr>weight_threshold := 1, key_auths := fmupd 60 1 fmempty\<rparr>\<rparr>) (objs sample_accounts)\<rparr>,
     block_summaries := \<lparr>next_id = 1, objs = fmupd 0 (77 * 2 ^ 32) fmempty\<rparr>\<rparr>"

definition sample_node :: node where
  "sample_node = \<lparr>state = signed_db, trx_index = empty_table, chain_id = 5\<rparr>"

definition sample_crypto :: crypto_lib where
  "sample_crypto = \<lparr>digest = (\<lambda>t. [of_nat (ref_block_num t)]), sig_digest = (\<lambda>c t. [of_nat c]),
     recover_key = (\<lambda>sig d. sig), keys = sample_key_lib\<rparr>"

definition sample_transfer :: transfer_operation where
  "sample_transfer = \<lparr>tr_fee = core_asset 0, tr_ob_fee = no_ob_fee, tr_from = 6, tr_to = 7, tr_amount = core_asset 200,
     tr_memo_size = None, tr_reputation_vote = 5, tr_listing = None, tr_listing_count = None\<rparr>"

definition sample_trx :: signed_transaction where
  "sample_trx = \<lparr>ref_block_num = 0, ref_block_prefix = 77, trx_expiration = 1560000100,
     trx_operations = [Transfer sample_transfer], signatures = [60]\<rparr>"

lemma sample_verified:
  "get_signature_keys sample_crypto 5 sample_trx = Inr {|60|}"
  "verify_authority sample_key_lib (active_of signed_db) (owner_of signed_db) 2 [Transfer sample_transfer] {|60|} = Inr ()"
proof -
  show "get_signature_keys sample_crypto 5 sample_trx = Inr {|60|}"
    by (simp add: get_signature_keys_def sample_crypto_def sample_trx_def Let_def)
  let ?auth = "empty_authority\<lparr>weight_threshold := 1, key_auths := fmupd 60 1 fmempty\<rparr>"
  have a: "active_of signed_db 6 = Inr (Some ?auth)"
    by (simp add: active_of_def signed_db_def get_account_def tbl_get_def tbl_find_def)
  let ?s = "init_sign_state {|60|} {||}"
  have c: "check_authority sample_key_lib (active_of signed_db) 2 (Some ?auth) ?s =
      Inr (True, ?s\<lparr>provided_signatures := fmupd 60 True fmempty\<rparr>)"
    by (simp add: numeral_2_eq_2 check_members_def empty_authority_def then_loop_def sorted_list_of_fmap_def
        sorted_list_of_fset.rep_eq signed_by_def init_sign_state_def)
  show "verify_authority sample_key_lib (active_of signed_db) (owner_of signed_db) 2 [Transfer sample_transfer] {|60|} = Inr ()"
    using a c
    by (simp add: verify_authority_def verify_required_def all_required_active_def required_active_def required_other_def
        fee_payer_def sample_transfer_def GRAPHENE_COMMITTEE_ACCOUNT_def require_active_def check_account_authority_def
        sorted_list_of_fset.rep_eq init_sign_state_def GRAPHENE_TEMP_ACCOUNT_def remove_unused_signatures_def)
qed

lemma sample_applied: "is_ok (apply_transaction sample_crypto checked_fc sample_strings 0 sample_trx sample_node)"
proof -
  have v: "transaction_validate sample_trx = Inr ()"
    by (simp add: transaction_validate_def sample_trx_def operation_validate_def transfer_validate_def sample_transfer_def
        vote_in_range_def OMNIBAZAAR_REPUTATION_MIN_def OMNIBAZAAR_REPUTATION_MAX_def)
  have e: "check_expiration checked_fc 0 sample_trx signed_db = Inr ()"
    by (simp add: check_expiration_def hash_word_def signed_db_def sample_eval sample_crypto_def sample_trx_def skips_def checked_fc_def
        head_block_time_def)
  have "case apply_operations checked_fc sample_strings [Transfer sample_transfer] signed_db of Inl _ \<Rightarrow> False
      | Inr (rs, d') \<Rightarrow> fmpred (\<lambda>k b. fst k = GRAPHENE_TEMP_ACCOUNT \<longrightarrow> b = 0) (balances d')"
    by (simp add: apply_operations_def apply_operation_def with_result_def fee_payer_def start_evaluate_def evaluate_def
        apply_op_def prepare_fee_def convert_fee_def pay_fee_def stat_pay_fee_def default_state_def required_fee_eval
        transfer_evaluate_def transfer_apply_def sample_transfer_def signed_db_def sale_check_def transfer_ob_fee_def
        is_enough_def fee_covers_def ob_fee_sum_def fee_amount_def is_authorized_asset_def close_eval sample_eval
        transfer_calculate_fee_def add_memo_fee_def GRAPHENE_TEMP_ACCOUNT_def)
  then obtain rs d' where o: "apply_operations checked_fc sample_strings [Transfer sample_transfer] signed_db = Inr (rs, d')"
    and t: "fmpred (\<lambda>k b. fst k = GRAPHENE_TEMP_ACCOUNT \<longrightarrow> b = 0) (balances d')"
    by (auto split: sum.splits)
  have f: "state sample_node = signed_db" "trx_index sample_node = empty_table" "chain_id sample_node = 5"
    "keys sample_crypto = sample_key_lib" "trx_operations sample_trx = [Transfer sample_transfer]"
    "max_authority_depth (parameters signed_db) = 2"
    by (simp_all add: sample_node_def sample_crypto_def sample_trx_def signed_db_def sample_eval)
  show ?thesis
    by (simp add: apply_transaction_def f v e sample_verified o t skips_def empty_table_def tbl_create_def tbl_insert_def no_clash_def is_ok_def)
qed

section \<open>Properties\<close>

text \<open>C5. Replay protection: once a transaction has been applied with the duplicate check on, then whatever
  transactions are applied, blocks advance the clock, and expired transactions are cleared, the same
  transaction, however it is signed, is refused whenever the duplicate check is on.\<close>

theorem replay_rejected:
  assumes "fc_laws F"
    and "apply_transaction X F S skip t n = Inr (rs, n1)" and "\<not> skips skip skip_transaction_dupe_check"
    and "(node_step X F S first)\<^sup>*\<^sup>* n1 n2"
    and "transaction.truncate t' = transaction.truncate t" and "\<not> skips skip' skip_transaction_dupe_check"
  shows "\<not> is_ok (apply_transaction X F S skip' t' n2)"
proof -
  have b: "barred X t n2"
    using assms(1,4) barred_applied [OF assms(2,3)] by (rule fc_laws.barred_steps)
  from assms(5) have "transaction_id X t' = transaction_id X t" "trx_expiration t' = trx_expiration t"
    by (simp_all add: transaction_id_def transaction.defs)
  with b assms(6) show ?thesis by (rule barred_refused)
qed

theorem replay_rejected_witness:
  "\<exists>rs n1 n2. apply_transaction sample_crypto checked_fc sample_strings 0 sample_trx sample_node = Inr (rs, n1) \<and>
     clear_expired_transactions (least_key (\<lambda>x. trx_expiration (to_trx x))) n1 = Some n2 \<and>
     \<not> is_ok (apply_transaction sample_crypto checked_fc sample_strings 0 (sample_trx\<lparr>signatures := [61]\<rparr>) n2)"
proof -
  let ?first = "least_key (\<lambda>x. trx_expiration (to_trx x))"
  from sample_applied obtain rs n1 where a: "apply_transaction sample_crypto checked_fc sample_strings 0 sample_trx sample_node = Inr (rs, n1)"
    by (auto simp: is_ok_iff)
  from clear_expired_transactions_result [OF by_key.ordered_index_axioms] obtain n2
    where c: "clear_expired_transactions ?first n1 = Some n2" by blast
  have "same_clock (state sample_node) (state n1)"
    using checked.fc_laws_axioms a by (rule fc_laws.apply_transaction_clock)
  then have "0 < head_block_number (dyn_props (state n1))"
    by (simp add: same_clock_def sample_node_def signed_db_def sample_eval)
  then have "(node_step sample_crypto checked_fc sample_strings ?first)\<^sup>*\<^sup>* n1 n2"
    using c by (blast intro: step_clear)
  from replay_rejected [OF checked.fc_laws_axioms a _ this, of "sample_trx\<lparr>signatures := [61]\<rparr>" 0] a c show ?thesis
    by (auto simp: skips_def transaction.defs sample_trx_def)
qed

text \<open>C6. What a transaction may do: applied with the signature checks on, every account whose active
  authority one of its operations needs is authorised by the keys that signed it, in the specification
  without caches, every other authority an operation needs is reached, and the committee account is not
  among them.\<close>

theorem transaction_authorised:
  assumes "apply_transaction X F S skip t n = Inr (rs, n')"
    and "\<not> skips skip (skip_transaction_signatures OR skip_authority_check)"
  shows "\<exists>sigs. fset sigs = (\<lambda>sig. recover_key X sig (sig_digest X (chain_id n) (transaction.truncate t))) ` set (signatures t) \<and>
    (\<forall>op\<in>set (trx_operations t).
      (\<forall>a. a |\<in>| required_active op \<longrightarrow> a \<noteq> GRAPHENE_COMMITTEE_ACCOUNT \<and>
        authorised (keys X) (active_of (state n)) (owner_of (state n)) sigs {|GRAPHENE_TEMP_ACCOUNT|} a) \<and>
      (\<forall>auth\<in>set (required_other op).
        reaches (keys X) sigs (approved (keys X) (active_of (state n)) sigs {|GRAPHENE_TEMP_ACCOUNT|}) auth))"
  using assms(1)
proof (rule apply_transaction_cases)
  assume "skips skip (skip_transaction_signatures OR skip_authority_check) \<or>
      (\<exists>sigs. get_signature_keys X (chain_id n) t = Inr sigs \<and>
         verify_authority (keys X) (active_of (state n)) (owner_of (state n)) (max_authority_depth (parameters (state n)))
           (trx_operations t) sigs = Inr ())"
  with assms(2) obtain sigs where s: "get_signature_keys X (chain_id n) t = Inr sigs"
    and v: "verify_authority (keys X) (active_of (state n)) (owner_of (state n)) (max_authority_depth (parameters (state n)))
           (trx_operations t) sigs = Inr ()" by blast
  note r = verify_required_sound [OF v [unfolded verify_authority_def]]
  have "op \<in> set (trx_operations t) \<Longrightarrow> a |\<in>| required_active op \<Longrightarrow> a |\<in>| all_required_active (trx_operations t)" for op a
    by (auto simp: all_required_active_iff)
  with r get_signature_keys_set [OF s] show ?thesis by (intro exI [of _ sigs]) auto
qed

theorem transaction_authorised_witness:
  "\<exists>sigs. fset sigs = {60} \<and>
     authorised sample_key_lib (active_of signed_db) (owner_of signed_db) sigs {|GRAPHENE_TEMP_ACCOUNT|} 6"
proof -
  from sample_applied obtain rs n1 where a: "apply_transaction sample_crypto checked_fc sample_strings 0 sample_trx sample_node = Inr (rs, n1)"
    by (auto simp: is_ok_iff)
  have "\<not> skips 0 (skip_transaction_signatures OR skip_authority_check)" by (simp add: skips_def)
  from transaction_authorised [OF a this] show ?thesis
    by (simp add: sample_trx_def required_active_def fee_payer_def sample_transfer_def sample_crypto_def sample_node_def) blast
qed

text \<open>C1. A transaction whose listings carry their publisher fees, if any, in the core coin creates and destroys nothing:
  it keeps the gap between the supply of each asset and what is held, and the state stays sound; it
  returns one result for each operation and does not move the clock. Without that condition the statement is false:
  the evaluator of listings lets a fee in another asset through that is paid out in core coins.\<close>

theorem transaction_conserves:
  assumes "fc_laws F" and "apply_transaction X F S skip t n = Inr (rs, n')"
    and "chain_ok (state n)" and "list_all fees_in_core (trx_operations t)"
  shows "chain_ok (state n') \<and> (\<forall>a. asset_gap a (state n') = asset_gap a (state n)) \<and>
    same_clock (state n) (state n') \<and> length rs = length (trx_operations t)"
  using fc_laws.apply_transaction_sound [OF assms] fc_laws.apply_transaction_clock [OF assms(1,2)] by simp

theorem transaction_conserves_witness:
  "\<exists>rs n1. apply_transaction sample_crypto checked_fc sample_strings 0 sample_trx sample_node = Inr (rs, n1) \<and>
     asset_gap 0 (state n1) = asset_gap 0 signed_db \<and> solvent (state n1) \<and> length rs = 1"
proof -
  from sample_applied obtain rs n1 where a: "apply_transaction sample_crypto checked_fc sample_strings 0 sample_trx sample_node = Inr (rs, n1)"
    by (auto simp: is_ok_iff)
  have "assets signed_db = assets sample_db" by (simp add: signed_db_def)
  then have "assets_ok signed_db" using sample_assets_ok by (rule assets_ok_cong [THEN iffD2])
  then have "chain_ok (state sample_node)"
    by (simp add: chain_ok_def sample_node_def core_escrows_def solvent_def signed_db_def sample_eval)
  moreover have "list_all fees_in_core (trx_operations sample_trx)" by (simp add: sample_trx_def fees_in_core_def)
  ultimately have "chain_ok (state n1) \<and> (\<forall>a. asset_gap a (state n1) = asset_gap a (state sample_node)) \<and>
    same_clock (state sample_node) (state n1) \<and> length rs = length (trx_operations sample_trx)"
    by (rule transaction_conserves [OF checked.fc_laws_axioms a])
  with a show ?thesis by (auto simp: chain_ok_def sample_node_def sample_trx_def)
qed

text \<open>Clearing the index of transactions returns, and leaves exactly those that have not expired.\<close>

theorem clear_expired_transactions_returns:
  assumes "ordered_index (\<lambda>x. trx_expiration (to_trx x)) first"
  shows "\<exists>n'. clear_expired_transactions first n = Some n' \<and> state n' = state n \<and>
    (\<forall>j x. tbl_find (trx_index n') j = Some x \<longleftrightarrow>
       tbl_find (trx_index n) j = Some x \<and> head_block_time (state n) \<le> trx_expiration (to_trx x))"
proof -
  from clear_expired_transactions_result [OF assms, of n] obtain n' where n': "clear_expired_transactions first n = Some n'"
    "state n' = state n" "\<And>j. tbl_find (trx_index n') j =
       (case tbl_find (trx_index n) j of None \<Rightarrow> None
        | Some x \<Rightarrow> if trx_expiration (to_trx x) < head_block_time (state n) then None else Some x)" by blast
  then show ?thesis by (intro exI [of _ n']) (auto split: option.splits if_splits)
qed

theorem clear_expired_transactions_returns_witness:
  "\<exists>n'. clear_expired_transactions (least_key (\<lambda>x. trx_expiration (to_trx x)))
       (sample_node\<lparr>trx_index := \<lparr>next_id = 2, objs = fmupd 0 \<lparr>to_trx = sample_trx\<lparr>trx_expiration := 5\<rparr>, to_id = []\<rparr>
          (fmupd 1 \<lparr>to_trx = sample_trx, to_id = [1]\<rparr> fmempty)\<rparr>\<rparr>) = Some n' \<and>
     tbl_find (trx_index n') 0 = None \<and> tbl_find (trx_index n') 1 = Some \<lparr>to_trx = sample_trx, to_id = [1]\<rparr>"
proof -
  let ?n = "sample_node\<lparr>trx_index := \<lparr>next_id = 2, objs = fmupd 0 \<lparr>to_trx = sample_trx\<lparr>trx_expiration := 5\<rparr>, to_id = []\<rparr>
          (fmupd 1 \<lparr>to_trx = sample_trx, to_id = [1]\<rparr> fmempty)\<rparr>\<rparr>"
  from clear_expired_transactions_returns [OF by_key.ordered_index_axioms, of ?n] obtain n'
    where c: "clear_expired_transactions (least_key (\<lambda>x. trx_expiration (to_trx x))) ?n = Some n'"
      and f: "\<And>j x. tbl_find (trx_index n') j = Some x \<longleftrightarrow>
       tbl_find (trx_index ?n) j = Some x \<and> head_block_time (state ?n) \<le> trx_expiration (to_trx x)" by blast
  have "tbl_find (trx_index n') 1 = Some \<lparr>to_trx = sample_trx, to_id = [1]\<rparr>"
    unfolding f by (simp add: sample_node_def signed_db_def sample_eval sample_trx_def)
  moreover have "tbl_find (trx_index n') 0 \<noteq> Some x" for x
    unfolding f by (simp add: sample_node_def signed_db_def sample_eval sample_trx_def) auto
  ultimately show ?thesis using c by auto
qed

end
