(* ===== verification/Blocks.thy ===== *)
theory Blocks
  imports Transactions "HOL-Library.Multiset"
begin

unbundle bit_operations_syntax

text \<open>
  Blocks: the header, the id and the Merkle root of \<^verbatim>\<open>protocol/block.cpp\<close>, the time slots and the shuffled
  schedule of the witnesses (\<^verbatim>\<open>db_witness_schedule.cpp\<close>), the bookkeeping after a block of \<^verbatim>\<open>db_update.cpp\<close>
  and the part of \<^verbatim>\<open>database::_apply_block\<close> up to it. Hashes, the recovery of the signer and the reversal of
  the bytes of a word belong to \<^verbatim>\<open>fc\<close>: they are the parameter \<open>B\<close>.
\<close>

record processed_transaction = signed_transaction +
  operation_results :: "operation_result list"

record block_header =
  previous :: nat
  timestamp :: time_sec
  block_witness :: nat
  transaction_merkle_root :: nat

record signed_block_header = block_header +
  witness_signature :: nat

record signed_block = signed_block_header +
  transactions :: "processed_transaction list"

record block_lib =
  header_digest :: "block_header \<Rightarrow> nat"
  header_hash :: "signed_block_header \<Rightarrow> nat"
  signee :: "nat \<Rightarrow> nat \<Rightarrow> public_key"
  endian_reverse :: "32 word \<Rightarrow> 32 word"
  merkle_digest :: "processed_transaction \<Rightarrow> nat"
  hash_pair :: "nat \<Rightarrow> nat \<Rightarrow> nat"
  hash_root :: "nat \<Rightarrow> nat"

text \<open>What the code relies on: reversing the bytes of a word twice gives the word.\<close>

locale block_laws =
  fixes B :: block_lib
  assumes endian_reverse: "endian_reverse B (endian_reverse B w) = w"

subsection \<open>Ids and Merkle roots\<close>

definition num_from_id :: "block_lib \<Rightarrow> nat \<Rightarrow> nat" where
  "num_from_id B h = unat (endian_reverse B (of_nat (hash_word 0 h)))"

definition block_num :: "block_lib \<Rightarrow> 'a block_header_scheme \<Rightarrow> nat" where
  "block_num B b = (num_from_id B (previous b) + 1) mod 2 ^ 32"

text \<open>The first 160 bits of the hash, with the number of the block in the first word.\<close>

definition block_id :: "block_lib \<Rightarrow> 'a signed_block_header_scheme \<Rightarrow> nat" where
  "block_id B b =
     unat (endian_reverse B (of_nat (block_num B b)))
       + 2 ^ 32 * (header_hash B (signed_block_header.truncate b) div 2 ^ 32 mod 2 ^ 128)"

definition validate_signee :: "block_lib \<Rightarrow> 'a signed_block_header_scheme \<Rightarrow> public_key \<Rightarrow> bool" where
  "validate_signee B b expected \<longleftrightarrow> signee B (witness_signature b) (header_digest B (block_header.truncate b)) = expected"

text \<open>One turn of the loop hashes neighbours; the last of an odd number stays.\<close>

fun hash_level :: "block_lib \<Rightarrow> nat list \<Rightarrow> nat list" where
  "hash_level B (x # y # ids) = hash_pair B x y # hash_level B ids"
| "hash_level B ids = ids"

lemma hash_level_length: "length (hash_level B ids) = (length ids + 1) div 2"
  by (induction B ids rule: hash_level.induct) simp_all

function merkle_loop :: "block_lib \<Rightarrow> nat list \<Rightarrow> nat list" where
  "merkle_loop B ids = (if 1 < length ids then merkle_loop B (hash_level B ids) else ids)"
  by pat_completeness auto
termination
  by (relation "measure (\<lambda>(B, ids). length ids)") (auto simp: hash_level_length)

declare merkle_loop.simps [simp del]

definition calculate_merkle_root :: "block_lib \<Rightarrow> processed_transaction list \<Rightarrow> nat" where
  "calculate_merkle_root B ts =
     (if ts = [] then 0 else hash_root B (hd (merkle_loop B (map (merkle_digest B) ts))))"

subsection \<open>Slots\<close>

definition maintenance_flag :: "32 word" where
  "maintenance_flag = 1"

definition get_scheduled_witness :: "database \<Rightarrow> 32 word \<Rightarrow> nat result" where
  "get_scheduled_witness d slot_num =
     (let aslot = current_aslot (dyn_props d) + ucast slot_num in
      if witness_schedule d = [] then Inl Undefined
      else Inr (witness_schedule d ! (unat aslot mod length (witness_schedule d))))"

definition get_slot_time :: "fc_lib \<Rightarrow> database \<Rightarrow> 32 word \<Rightarrow> time_sec result" where
  "get_slot_time F d slot_num =
     (if slot_num = 0 then Inr 0
      else let interval = block_interval (parameters d) in
      if head_block_number (dyn_props d) = 0
      then Inr (tps_add F (dgp_time (dyn_props d)) (unat (slot_num * of_nat interval)))
      else if interval = 0 then Inl Undefined
      else let head_block_abs_slot = head_block_time d div interval;
               head_slot_time = head_block_abs_slot * interval;
               slot_num = (if dynamic_flags (dyn_props d) AND maintenance_flag \<noteq> 0
                           then slot_num + of_nat (maintenance_skip_slots (parameters d)) else slot_num) in
           Inr (tps_add F head_slot_time (unat (slot_num * of_nat interval))))"

definition get_slot_at_time :: "fc_lib \<Rightarrow> database \<Rightarrow> time_sec \<Rightarrow> (32 word) result" where
  "get_slot_at_time F d when =
     ebind (get_slot_time F d 1) (\<lambda>first_slot_time.
     if when < first_slot_time then Inr 0
     else if block_interval (parameters d) = 0 then Inl Undefined
     else Inr (word_of_int (tps_diff F when first_slot_time div int (block_interval (parameters d)) + 1)))"

definition witness_participation_rate :: "fc_lib \<Rightarrow> database \<Rightarrow> nat" where
  "witness_participation_rate F d = GRAPHENE_100_PERCENT * u128_popcount F (recent_slots_filled (dyn_props d)) div 128"

subsection \<open>The shuffled schedule\<close>

definition shuffle_key :: "64 word \<Rightarrow> nat \<Rightarrow> 64 word" where
  "shuffle_key now_hi i =
     (let k = now_hi + of_nat i * 2685821657736338717;
          k = k XOR drop_bit 12 k;
          k = k XOR push_bit 25 k;
          k = k XOR drop_bit 27 k in
      k * 2685821657736338717)"

definition swap :: "nat \<Rightarrow> nat \<Rightarrow> 'a list \<Rightarrow> 'a list" where
  "swap i j xs = xs[i := xs ! j, j := xs ! i]"

definition shuffle_step :: "64 word \<Rightarrow> nat \<Rightarrow> 'a list \<Rightarrow> 'a list" where
  "shuffle_step now_hi i xs =
     (let jmax = length xs - i; j = i + unat (shuffle_key now_hi i) mod jmax in swap i j xs)"

definition shuffle_witnesses :: "time_sec \<Rightarrow> 'a list \<Rightarrow> 'a list" where
  "shuffle_witnesses now ws = fold (shuffle_step (push_bit 32 (of_nat now))) [0..<length ws] ws"

definition update_witness_schedule :: "database \<Rightarrow> database result" where
  "update_witness_schedule d =
     (if active_witnesses d = [] then Inl Undefined
      else if head_block_number (dyn_props d) mod length (active_witnesses d) = 0
      then Inr (d\<lparr>witness_schedule := shuffle_witnesses (head_block_time d) (active_witnesses d)\<rparr>)
      else Inr d)"

subsection \<open>After the transactions of a block\<close>

definition GRAPHENE_RECENTLY_MISSED_COUNT_INCREMENT :: "32 word" where
  "GRAPHENE_RECENTLY_MISSED_COUNT_INCREMENT = 4"

definition GRAPHENE_RECENTLY_MISSED_COUNT_DECREMENT :: "32 word" where
  "GRAPHENE_RECENTLY_MISSED_COUNT_DECREMENT = 3"

definition GRAPHENE_MAX_UNDO_HISTORY :: int where
  "GRAPHENE_MAX_UNDO_HISTORY = 10000"

definition GRAPHENE_IRREVERSIBLE_THRESHOLD :: nat where
  "GRAPHENE_IRREVERSIBLE_THRESHOLD = 70 * 100"

definition skip_witness_signature :: "32 word" where
  "skip_witness_signature = 1"

definition skip_merkle_check :: "32 word" where
  "skip_merkle_check = 128"

definition skip_undo_history_check :: "32 word" where
  "skip_undo_history_check = 512"

definition skip_witness_schedule_check :: "32 word" where
  "skip_witness_schedule_check = 1024"

text \<open>The loop over the missed slots: the witness of each, unless it is the one of the block, missed one.\<close>

definition count_missed :: "nat \<Rightarrow> nat \<Rightarrow> database \<Rightarrow> database result" where
  "count_missed witness i d =
     ebind (get_scheduled_witness d (of_nat (i + 1))) (\<lambda>w.
     ebind (tbl_get (witnesses d) w) (\<lambda>_.
     if w \<noteq> witness then modify_witness d w (\<lambda>x. x\<lparr>total_missed := total_missed x + 1\<rparr>) else Inr d))"

definition next_missed_count :: "bool \<Rightarrow> 32 word \<Rightarrow> 32 word \<Rightarrow> 32 word" where
  "next_missed_count reset missed_blocks c =
     (if reset then 0
      else if missed_blocks \<noteq> 0 then c + GRAPHENE_RECENTLY_MISSED_COUNT_INCREMENT * missed_blocks
      else if GRAPHENE_RECENTLY_MISSED_COUNT_INCREMENT < c then c - GRAPHENE_RECENTLY_MISSED_COUNT_DECREMENT
      else if 0 < c then c - 1
      else c)"

text \<open>\<open>cps\<close> are the checkpoints of the node, from block numbers to ids, in increasing order.\<close>

definition before_checkpoint :: "(nat \<times> nat) list \<Rightarrow> nat \<Rightarrow> bool" where
  "before_checkpoint cps n \<longleftrightarrow> cps \<noteq> [] \<and> n \<le> fst (last cps)"

definition update_global_dynamic_data ::
  "block_lib \<Rightarrow> fc_lib \<Rightarrow> (nat \<times> nat) list \<Rightarrow> 32 word \<Rightarrow> signed_block \<Rightarrow> database \<Rightarrow> database result" where
  "update_global_dynamic_data B F cps skip b d =
     ebind (get_slot_at_time F d (timestamp b)) (\<lambda>slot.
     (let missed_blocks = slot - 1; n = block_num B b in
     ebind (efold (count_missed (block_witness b)) [0..<unat missed_blocks] d) (\<lambda>d1.
     (let dgp = dyn_props d1;
          dgp' = dgp\<lparr>
            recently_missed_count := next_missed_count (n = 1 \<or> before_checkpoint cps n) missed_blocks (recently_missed_count dgp),
            head_block_number := n, head_block_id := block_id B b, dgp_time := timestamp b,
            current_witness := block_witness b,
            recent_slots_filled := u128_shl F (u128_add F (u128_shl F (recent_slots_filled dgp) 1) 1) (unat missed_blocks),
            current_aslot := current_aslot dgp + ucast (missed_blocks + 1)\<rparr> in
     ebind (if skips skip skip_undo_history_check then Inr ()
            else fc_assert ((int n - int (last_irreversible_block_num dgp)) mod 2 ^ 32 < GRAPHENE_MAX_UNDO_HISTORY)
                   ''The database does not have enough undo history'') (\<lambda>_.
     Inr (d1\<lparr>dyn_props := dgp'\<rparr>))))))"

definition update_signing_witness :: "block_lib \<Rightarrow> fc_lib \<Rightarrow> nat \<Rightarrow> signed_block \<Rightarrow> database \<Rightarrow> database result" where
  "update_signing_witness B F wit b d =
     ebind (get_slot_at_time F d (timestamp b)) (\<lambda>slot.
     (let new_block_aslot = current_aslot (dyn_props d) + ucast slot;
          witness_pay = min (witness_pay_per_block (parameters d)) (witness_budget (dyn_props d)) in
     ebind (safe_sub F (witness_budget (dyn_props d)) witness_pay) (\<lambda>budget.
     ebind (deposit_witness_pay F (d\<lparr>dyn_props := (dyn_props d)\<lparr>witness_budget := budget\<rparr>\<rparr>) wit witness_pay) (\<lambda>d1.
     modify_witness d1 wit (\<lambda>w. w\<lparr>last_aslot := new_block_aslot, last_confirmed_block_num := block_num B b,
       total_produced := total_produced w + 1\<rparr>)))))"

text \<open>\<^verbatim>\<open>nth_element\<close> puts at the offset what a sorted sequence has there.\<close>

definition update_last_irreversible_block :: "database \<Rightarrow> database result" where
  "update_last_irreversible_block d =
     ebind (efold (\<lambda>i nums. ebind (tbl_get (witnesses d) i) (\<lambda>w. Inr (nums @ [last_confirmed_block_num w]))) (active_witnesses d) []) (\<lambda>nums.
     (let offset = (GRAPHENE_100_PERCENT - GRAPHENE_IRREVERSIBLE_THRESHOLD) * length nums div GRAPHENE_100_PERCENT in
      if length nums \<le> offset then Inl Undefined
      else let new_lib = sort nums ! offset in
        Inr (if last_irreversible_block_num (dyn_props d) < new_lib
             then d\<lparr>dyn_props := (dyn_props d)\<lparr>last_irreversible_block_num := new_lib\<rparr>\<rparr> else d)))"

definition create_block_summary :: "block_lib \<Rightarrow> signed_block \<Rightarrow> database \<Rightarrow> database result" where
  "create_block_summary B b d =
     ebind (tbl_modify no_clash (block_summaries d) (block_num B b mod 2 ^ 16) (\<lambda>_. block_id B b)) (\<lambda>t.
     Inr (d\<lparr>block_summaries := t\<rparr>))"

definition update_maintenance_flag :: "bool \<Rightarrow> database \<Rightarrow> database" where
  "update_maintenance_flag new_flag d =
     d\<lparr>dyn_props := (dyn_props d)\<lparr>dynamic_flags :=
       (dynamic_flags (dyn_props d) AND NOT maintenance_flag) OR (if new_flag then maintenance_flag else 0)\<rparr>\<rparr>"

subsection \<open>Applying a block\<close>

definition validate_block_header ::
  "block_lib \<Rightarrow> fc_lib \<Rightarrow> 32 word \<Rightarrow> signed_block \<Rightarrow> database \<Rightarrow> witness_object result" where
  "validate_block_header B F skip b d =
     ebind (fc_assert (head_block_id (dyn_props d) = previous b) ''head_block_id() == next_block.previous'') (\<lambda>_.
     ebind (fc_assert (head_block_time d < timestamp b) ''head_block_time() < next_block.timestamp'') (\<lambda>_.
     ebind (tbl_get (witnesses d) (block_witness b)) (\<lambda>witness.
     ebind (if skips skip skip_witness_signature then Inr ()
            else fc_assert (validate_signee B b (signing_key witness)) ''next_block.validate_signee( witness.signing_key )'') (\<lambda>_.
     ebind (if skips skip skip_witness_schedule_check then Inr ()
            else ebind (get_slot_at_time F d (timestamp b)) (\<lambda>slot_num.
                 ebind (fc_assert (0 < slot_num) ''slot_num > 0'') (\<lambda>_.
                 ebind (get_scheduled_witness d slot_num) (\<lambda>scheduled.
                 fc_assert (block_witness b = scheduled) ''Witness produced block at wrong time'')))) (\<lambda>_.
     Inr witness)))))"

definition witness_bonuses :: "'a transaction_scheme list \<Rightarrow> account_id list" where
  "witness_bonuses ts =
     concat (map (\<lambda>t. concat (map (\<lambda>op. case op of Witness_bonus x \<Rightarrow> [nb_receiver x] | _ \<Rightarrow> []) (trx_operations t))) ts)"

definition founder_bonuses :: "'a transaction_scheme list \<Rightarrow> account_id list" where
  "founder_bonuses ts =
     concat (map (\<lambda>t. concat (map (\<lambda>op. case op of Founder_bonus x \<Rightarrow> [fb_payer x] | _ \<Rightarrow> []) (trx_operations t))) ts)"

definition check_bonuses :: "account_id \<Rightarrow> 'a transaction_scheme list \<Rightarrow> database \<Rightarrow> unit result" where
  "check_bonuses signer ts d =
     ebind (if witness_bonus (dyn_props d) < OMNIBAZAAR_WITNESS_BONUS_TOTAL_COINS then
              ebind (fc_assert (list_all (\<lambda>r. r = signer) (witness_bonuses ts))
                       ''Witness Bonus does not belong to signing witness of this block'') (\<lambda>_.
              fc_assert (length (witness_bonuses ts) \<le> 1) ''Block has more than one witness_bonus_operation'')
            else Inr ()) (\<lambda>_.
     if founder_bonus (dyn_props d) < OMNIBAZAAR_FOUNDER_BONUS_COINS_LIMIT then
       fc_assert (length (founder_bonuses ts) \<le> 1) ''Block has more than one founder_bonus_operation''
     else Inr ())"

text \<open>\<^verbatim>\<open>_apply_block\<close> up to the update of the last irreversible block.\<close>

definition do_apply_block ::
  "crypto_lib \<Rightarrow> block_lib \<Rightarrow> fc_lib \<Rightarrow> string_lib \<Rightarrow> (nat \<times> nat) list \<Rightarrow> 32 word \<Rightarrow> signed_block \<Rightarrow> node \<Rightarrow> node result" where
  "do_apply_block X B F S cps skip b n =
     ebind (fc_assert (skips skip skip_merkle_check \<or> transaction_merkle_root b = calculate_merkle_root B (transactions b))
              ''next_block.transaction_merkle_root == next_block.calculate_merkle_root()'') (\<lambda>_.
     ebind (validate_block_header B F skip b (state n)) (\<lambda>signing_witness.
     ebind (efold (\<lambda>t n. emap snd (apply_transaction X F S skip (signed_transaction.truncate t) n)) (transactions b) n) (\<lambda>n1.
     ebind (check_bonuses (witness_account signing_witness) (transactions b) (state n1)) (\<lambda>_.
     ebind (update_global_dynamic_data B F cps skip b (state n1)) (\<lambda>d2.
     ebind (update_signing_witness B F (block_witness b) b d2) (\<lambda>d3.
     ebind (update_last_irreversible_block d3) (\<lambda>d4.
     Inr (n1\<lparr>state := d4\<rparr>))))))))"

text \<open>A block below the last checkpoint is hardly checked at all.\<close>

definition apply_block ::
  "crypto_lib \<Rightarrow> block_lib \<Rightarrow> fc_lib \<Rightarrow> string_lib \<Rightarrow> (nat \<times> nat) list \<Rightarrow> 32 word \<Rightarrow> signed_block \<Rightarrow> node \<Rightarrow> node result" where
  "apply_block X B F S cps skip b n =
     (let num = block_num B b; used = cps \<noteq> [] \<and> snd (last cps) \<noteq> 0 in
     ebind (fc_assert (used \<longrightarrow> (case map_of cps num of None \<Rightarrow> True | Some h \<Rightarrow> block_id B b = h))
              ''Block did not match checkpoint'') (\<lambda>_.
     do_apply_block X B F S cps (if used \<and> num \<le> fst (last cps) then NOT 0 else skip) b n))"

section \<open>Lemmas\<close>

subsection \<open>Slots\<close>

text \<open>When slot \<open>s\<close> starts, in exact arithmetic.\<close>

definition slot_start :: "database \<Rightarrow> nat \<Rightarrow> nat" where
  "slot_start d s =
     (let interval = block_interval (parameters d) in
      if head_block_number (dyn_props d) = 0 then dgp_time (dyn_props d) + s * interval
      else head_block_time d div interval * interval
        + (s + (if dynamic_flags (dyn_props d) AND maintenance_flag \<noteq> 0 then maintenance_skip_slots (parameters d) else 0)) * interval)"

lemma slot_start_Suc: "slot_start d (Suc s) = slot_start d s + block_interval (parameters d)"
  by (simp add: slot_start_def Let_def algebra_simps)

lemma slot_start_add: "slot_start d (s + k) = slot_start d s + k * block_interval (parameters d)"
  by (induction k) (simp_all add: slot_start_Suc)

lemma slot_start_mono: "s \<le> t \<Longrightarrow> slot_start d s \<le> slot_start d t"
  using slot_start_add [of d s "t - s"] by simp

lemma unat_slot:
  fixes s :: "32 word"
  assumes "(unat s + k) * i < 2 ^ 32" and "0 < i"
  shows "unat ((s + of_nat k) * of_nat i) = (unat s + k) * i"
proof -
  have "(s + of_nat k) * of_nat i = (of_nat ((unat s + k) * i) :: 32 word)" by simp
  moreover have "unat (of_nat ((unat s + k) * i) :: 32 word) = (unat s + k) * i"
    using assms(1) by (simp only: unat_of_nat) (simp add: take_bit_nat_eq_self)
  ultimately show ?thesis by (simp only:)
qed

context fc_laws
begin

lemma get_slot_time_exact:
  assumes "0 < slot" and "0 < block_interval (parameters d)" and "slot_start d (unat slot) < 2 ^ 32"
  shows "get_slot_time F d slot = Inr (slot_start d (unat slot))"
proof -
  let ?i = "block_interval (parameters d)"
  have nz: "slot \<noteq> 0" using assms(1) by simp
  show ?thesis
  proof (cases "head_block_number (dyn_props d) = 0")
    case True
    with assms(3) have s: "dgp_time (dyn_props d) + unat slot * ?i < 2 ^ 32" by (simp add: slot_start_def)
    with unat_slot [of slot 0 ?i] assms(2) have "unat (slot * of_nat ?i) = unat slot * ?i" by simp
    with True nz s show ?thesis by (simp add: get_slot_time_def slot_start_def Let_def tps_add)
  next
    case False
    let ?k = "if dynamic_flags (dyn_props d) AND maintenance_flag \<noteq> 0 then maintenance_skip_slots (parameters d) else 0"
    from False assms(3) have s: "head_block_time d div ?i * ?i + (unat slot + ?k) * ?i < 2 ^ 32" by (simp add: slot_start_def Let_def)
    with unat_slot [of slot ?k ?i] assms(2) have "unat ((slot + of_nat ?k) * of_nat ?i) = (unat slot + ?k) * ?i" by simp
    moreover have "(if dynamic_flags (dyn_props d) AND maintenance_flag \<noteq> 0
                           then slot + of_nat (maintenance_skip_slots (parameters d)) else slot) = slot + of_nat ?k" by simp
    ultimately show ?thesis using False nz s assms(2)
      by (simp only: get_slot_time_def slot_start_def Let_def tps_add if_False) simp
  qed
qed

lemma get_slot_at_time_exact:
  assumes "0 < block_interval (parameters d)" and "slot_start d 1 < 2 ^ 32" and "t < 2 ^ 32"
  shows "get_slot_at_time F d t =
    Inr (if t < slot_start d 1 then 0 else of_nat ((t - slot_start d 1) div block_interval (parameters d) + 1))"
proof -
  have "get_slot_time F d 1 = Inr (slot_start d 1)" using get_slot_time_exact [of 1 d] assms by simp
  moreover have "word_of_int ((int t - int f) div int i + 1) = (of_nat ((t - f) div i + 1) :: 32 word)" if "f \<le> t" for f i
    using that by (simp flip: of_nat_diff of_nat_div)
  ultimately show ?thesis using assms(1) by (simp add: get_slot_at_time_def tps_diff)
qed

end

subsection \<open>The schedule\<close>

lemma shuffle_step_mset: "i < length xs \<Longrightarrow> mset (shuffle_step hi i xs) = mset xs \<and> length (shuffle_step hi i xs) = length xs"
proof -
  assume i: "i < length xs"
  define j where "j = i + unat (shuffle_key hi i) mod (length xs - i)"
  have "unat (shuffle_key hi i) mod (length xs - i) < length xs - i" using i by (intro mod_less_divisor) simp
  then have "j < length xs" unfolding j_def by linarith
  with i mset_swap [of j xs i] show ?thesis by (simp add: shuffle_step_def swap_def Let_def j_def)
qed

lemma shuffle_mset: "mset (shuffle_witnesses now ws) = mset ws"
proof -
  have "set is \<subseteq> {..<length xs} \<Longrightarrow> mset (fold (shuffle_step hi) is xs) = mset xs" for hi "is" and xs :: "'a list"
  proof (induction "is" arbitrary: xs)
    case (Cons i "is")
    then show ?case using shuffle_step_mset [of i xs hi] Cons.IH [of "shuffle_step hi i xs"] by simp
  qed simp
  then show ?thesis by (simp add: shuffle_witnesses_def atLeast_upt)
qed

lemma mod_window:
  assumes "i < (n :: nat)"
  shows "\<exists>!k. k < n \<and> (a + k) mod n = i"
proof (rule ex1I)
  let ?k = "(i + n - a mod n) mod n"
  have r: "a mod n < n" using assms by simp
  have "(a + ?k) mod n = (a mod n + (i + n - a mod n)) mod n" by (metis mod_add_left_eq mod_add_right_eq)
  also have "a mod n + (i + n - a mod n) = i + n" using r by linarith
  also have "(i + n) mod n = i" using assms by simp
  finally show "?k < n \<and> (a + ?k) mod n = i" using assms by simp
  fix k
  assume k: "k < n \<and> (a + k) mod n = i"
  then have "(a + k) mod n = (a + ?k) mod n" using \<open>?k < n \<and> (a + ?k) mod n = i\<close> by simp
  then have "k mod n = ?k mod n" unfolding nat_mod_eq_iff by (simp only: add.assoc add_left_cancel)
  with k show "k = ?k" by simp
qed

subsection \<open>The last irreversible block\<close>

lemma sorted_tail_count:
  assumes "offset < length (nums :: nat list)"
  shows "length nums - offset \<le> length (filter (\<lambda>x. sort nums ! offset \<le> x) nums)"
proof -
  let ?s = "sort nums" and ?P = "\<lambda>x. sort nums ! offset \<le> x"
  have "list_all ?P (drop offset ?s)"
    unfolding list_all_length using assms by (auto intro: sorted_nth_mono)
  then have "filter ?P (drop offset ?s) = drop offset ?s" by (simp add: list_all_iff filter_id_conv)
  then have "length nums - offset \<le> length (filter ?P (drop offset ?s))" by simp
  also have "\<dots> \<le> length (filter ?P ?s)"
    by (metis append_take_drop_id filter_append length_append le_add2)
  also have "\<dots> = length (filter ?P nums)" by (metis filter_sort length_sort)
  finally show ?thesis .
qed

lemma confirmed_numbers:
  assumes "efold (\<lambda>i nums. ebind (tbl_get t i) (\<lambda>w. Inr (nums @ [g w]))) ws acc = Inr nums"
  shows "nums = acc @ map (\<lambda>i. g (the (tbl_find t i))) ws \<and> (\<forall>i\<in>set ws. tbl_find t i \<noteq> None)"
  using assms by (induction ws arbitrary: acc) fastforce+

subsection \<open>Merkle roots\<close>

text \<open>The pairs that are hashed on the way to the root.\<close>

fun level_pairs :: "nat list \<Rightarrow> (nat \<times> nat) set" where
  "level_pairs (x # y # ids) = insert (x, y) (level_pairs ids)"
| "level_pairs ids = {}"

function merkle_pairs :: "block_lib \<Rightarrow> nat list \<Rightarrow> (nat \<times> nat) set" where
  "merkle_pairs B ids = (if 1 < length ids then level_pairs ids \<union> merkle_pairs B (hash_level B ids) else {})"
  by pat_completeness auto
termination
  by (relation "measure (\<lambda>(B, ids). length ids)") (auto simp: hash_level_length)

declare merkle_pairs.simps [simp del]

text \<open>Two different pairs of the two computations with the same hash.\<close>

definition collision :: "block_lib \<Rightarrow> (nat \<times> nat) set \<Rightarrow> (nat \<times> nat) set \<Rightarrow> bool" where
  "collision B P Q \<longleftrightarrow> (\<exists>(a, b)\<in>P. \<exists>(c, d)\<in>Q. (a, b) \<noteq> (c, d) \<and> hash_pair B a b = hash_pair B c d)"

lemma collision_mono: "collision B P Q \<Longrightarrow> P \<subseteq> P' \<Longrightarrow> Q \<subseteq> Q' \<Longrightarrow> collision B P' Q'"
  unfolding collision_def by blast

lemma hash_level_binding:
  "length xs = length ys \<Longrightarrow> hash_level B xs = hash_level B ys \<Longrightarrow> xs = ys \<or> collision B (level_pairs xs) (level_pairs ys)"
proof (induction xs arbitrary: ys rule: level_pairs.induct)
  case (1 x y xs)
  then obtain u v zs where ys: "ys = u # v # zs" by (metis Suc_length_conv)
  with 1 have "xs = zs \<or> collision B (level_pairs xs) (level_pairs zs)" "hash_pair B x y = hash_pair B u v" by auto
  moreover have "collision B (level_pairs (x # y # xs)) (level_pairs (u # v # zs))" if "collision B (level_pairs xs) (level_pairs zs)"
    using that by (rule collision_mono) auto
  moreover have "collision B (level_pairs (x # y # xs)) (level_pairs (u # v # zs))"
    if "(x, y) \<noteq> (u, v)" "hash_pair B x y = hash_pair B u v"
    unfolding collision_def level_pairs.simps using that by blast
  ultimately show ?case unfolding ys by blast
qed (auto simp: length_Suc_conv eq_commute [of "Suc 0"])

lemma merkle_loop_binding:
  "length xs = length ys \<Longrightarrow> merkle_loop B xs = merkle_loop B ys \<Longrightarrow> xs = ys \<or> collision B (merkle_pairs B xs) (merkle_pairs B ys)"
proof (induction B xs arbitrary: ys rule: merkle_loop.induct)
  case (1 B xs)
  show ?case
  proof (cases "1 < length xs")
    case False
    with 1 show ?thesis by (simp add: merkle_loop.simps)
  next
    case True
    then have "hash_level B xs = hash_level B ys \<or> collision B (merkle_pairs B (hash_level B xs)) (merkle_pairs B (hash_level B ys))"
      using 1 by (simp add: merkle_loop.simps [of B xs] merkle_loop.simps [of B ys] hash_level_length)
    moreover have "merkle_pairs B xs = level_pairs xs \<union> merkle_pairs B (hash_level B xs)"
      "merkle_pairs B ys = level_pairs ys \<union> merkle_pairs B (hash_level B ys)"
      using True 1(2) by (simp_all add: merkle_pairs.simps [of B xs] merkle_pairs.simps [of B ys])
    ultimately show ?thesis using hash_level_binding [OF 1(2)] by (metis collision_mono sup_ge1 sup_ge2)
  qed
qed

lemma merkle_loop_length: "ids \<noteq> [] \<Longrightarrow> length (merkle_loop B ids) = 1"
proof (induction B ids rule: merkle_loop.induct)
  case (1 B ids)
  show ?case
  proof (cases "1 < length ids")
    case True
    then have "0 < length (hash_level B ids)" unfolding hash_level_length by simp
    with 1(1) [OF True] True show ?thesis by (simp add: merkle_loop.simps [of B ids])
  next
    case False
    with 1(2) have "length ids = 1" by (cases ids) auto
    then show ?thesis by (simp add: merkle_loop.simps [of B ids])
  qed
qed

subsection \<open>Applying a block\<close>

lemma count_missed_frame: "count_missed w i d = Inr d' \<Longrightarrow> \<exists>t. d' = d\<lparr>witnesses := t\<rparr>"
  by (auto simp: count_missed_def modify_witness_def split: if_splits intro: exI [of _ "witnesses d"])

lemma missed_frame:
  assumes "efold (count_missed w) is d = Inr d'"
  shows "\<exists>t. d' = d\<lparr>witnesses := t\<rparr>"
  using assms
proof (induction "is" arbitrary: d)
  case Nil
  then show ?case by (auto intro: exI [of _ "witnesses d"])
next
  case (Cons i "is")
  then obtain d1 where "count_missed w i d = Inr d1" "efold (count_missed w) is d1 = Inr d'" by auto
  with count_missed_frame [of w i d d1] Cons.IH [of d1] show ?case by auto
qed

lemma witnesses_dyn_gap: "asset_gap a (d\<lparr>witnesses := t, dyn_props := p\<rparr>) = asset_gap a d"
  "asset_gap a (d\<lparr>witnesses := t\<rparr>) = asset_gap a d" "asset_gap a (d\<lparr>dyn_props := p\<rparr>) = asset_gap a d"
  by (intro asset_gap_cong; simp)+

lemma chain_ok_cong:
  assumes "assets d' = assets d" and "escrows d' = escrows d" and "balances d' = balances d"
  shows "chain_ok d' = chain_ok d"
  using assets_ok_cong [OF assms(1)] assms(2,3) by (simp add: chain_ok_def core_escrows_def solvent_def)

lemma witnesses_dyn_ok: "chain_ok (d\<lparr>witnesses := t, dyn_props := p\<rparr>) = chain_ok d"
  "chain_ok (d\<lparr>witnesses := t\<rparr>) = chain_ok d" "chain_ok (d\<lparr>dyn_props := p\<rparr>) = chain_ok d"
  "chain_ok (d\<lparr>vestings := v\<rparr>) = chain_ok d"
  by (rule chain_ok_cong; simp)+

lemma update_global_dynamic_data_result:
  assumes "update_global_dynamic_data B F cps skip b d = Inr d'"
  shows "\<exists>t p slot. d' = d\<lparr>witnesses := t, dyn_props := p\<rparr> \<and> get_slot_at_time F d (timestamp b) = Inr slot \<and>
    head_block_number p = block_num B b \<and> head_block_id p = block_id B b \<and> dgp_time p = timestamp b \<and>
    witness_budget p = witness_budget (dyn_props d) \<and> current_aslot p = current_aslot (dyn_props d) + ucast slot \<and>
    last_irreversible_block_num p = last_irreversible_block_num (dyn_props d)"
proof -
  from assms obtain slot d1 where s: "get_slot_at_time F d (timestamp b) = Inr slot"
    and m: "efold (count_missed (block_witness b)) [0..<unat (slot - 1)] d = Inr d1"
    and d': "d' = d1\<lparr>dyn_props := (dyn_props d1)\<lparr>
            recently_missed_count := next_missed_count (block_num B b = 1 \<or> before_checkpoint cps (block_num B b)) (slot - 1) (recently_missed_count (dyn_props d1)),
            head_block_number := block_num B b, head_block_id := block_id B b, dgp_time := timestamp b,
            current_witness := block_witness b,
            recent_slots_filled := u128_shl F (u128_add F (u128_shl F (recent_slots_filled (dyn_props d1)) 1) 1) (unat (slot - 1)),
            current_aslot := current_aslot (dyn_props d1) + ucast (slot - 1 + 1)\<rparr>\<rparr>"
    unfolding update_global_dynamic_data_def Let_def by (auto split: if_splits)
  from missed_frame [OF m] obtain t where t: "d1 = d\<lparr>witnesses := t\<rparr>" ..
  show ?thesis
    by (intro exI [of _ t] exI [of _ "dyn_props d'"] exI [of _ slot]) (use s d' t in simp)
qed

lemma update_last_irreversible_result:
  assumes "update_last_irreversible_block d = Inr d'"
  shows "\<exists>n. d' = d\<lparr>dyn_props := (dyn_props d)\<lparr>last_irreversible_block_num := n\<rparr>\<rparr>"
  using assms by (auto simp: update_last_irreversible_block_def Let_def split: if_splits
      intro: exI [of _ "last_irreversible_block_num (dyn_props d)"])

context fc_laws
begin

lemma deposit_witness_pay_frame:
  "deposit_witness_pay F d w amt = Inr d' \<Longrightarrow> dyn_props d' = dyn_props d \<and> (chain_ok d \<longrightarrow> chain_ok d')"
  by (auto simp: deposit_witness_pay_def modify_witness_def witnesses_dyn_ok split: if_splits option.splits
      dest!: deposit_lazy_vesting_frame)

lemma update_signing_witness_result:
  assumes "update_signing_witness B F w b d = Inr d'"
  shows "\<exists>pay. dyn_props d' = (dyn_props d)\<lparr>witness_budget := witness_budget (dyn_props d) - pay\<rparr> \<and>
    (chain_ok d \<longrightarrow> chain_ok d') \<and> (\<forall>a. asset_gap a d' = asset_gap a d - of_asset a (core_asset pay))"
proof -
  define pay where "pay = min (witness_pay_per_block (parameters d)) (witness_budget (dyn_props d))"
  from assms obtain slot :: "32 word" and budget d1 where b: "safe_sub F (witness_budget (dyn_props d)) pay = Inr budget"
    and p: "deposit_witness_pay F (d\<lparr>dyn_props := (dyn_props d)\<lparr>witness_budget := budget\<rparr>\<rparr>) w pay = Inr d1"
    and m: "modify_witness d1 w (\<lambda>x. x\<lparr>last_aslot := current_aslot (dyn_props d) + ucast slot, last_confirmed_block_num := block_num B b,
       total_produced := total_produced x + 1\<rparr>) = Inr d'"
    unfolding update_signing_witness_def Let_def pay_def by auto
  have "budget = witness_budget (dyn_props d) - pay" using b by (simp add: safe_sub)
  moreover from m obtain t where "d' = d1\<lparr>witnesses := t\<rparr>" by (auto simp: modify_witness_def)
  moreover note deposit_witness_pay_frame [OF p] deposit_witness_pay_gap [OF p]
  ultimately show ?thesis by (intro exI [of _ pay]) (simp add: witnesses_dyn_ok witnesses_dyn_gap)
qed

lemma transactions_sound:
  assumes "efold (\<lambda>t n. emap snd (apply_transaction X F S skip (signed_transaction.truncate t) n)) ts n = Inr n'"
    and "chain_ok (state n)" and "list_all (\<lambda>t. list_all fees_in_core (trx_operations t)) ts"
  shows "chain_ok (state n') \<and> (\<forall>a. asset_gap a (state n') = asset_gap a (state n)) \<and> same_clock (state n) (state n')"
  using assms
proof (induction ts arbitrary: n)
  case (Cons t ts)
  then obtain rs n1 where a: "apply_transaction X F S skip (signed_transaction.truncate t) n = Inr (rs, n1)"
    and r: "efold (\<lambda>t n. emap snd (apply_transaction X F S skip (signed_transaction.truncate t) n)) ts n1 = Inr n'" by auto
  have "list_all fees_in_core (trx_operations (signed_transaction.truncate t))"
    using Cons.prems(3) by (simp add: signed_transaction.defs)
  from apply_transaction_sound [OF a Cons.prems(2) this] apply_transaction_clock [OF a] Cons.IH [OF r] Cons.prems(3)
  show ?case by (auto intro: same_clock_trans)
qed simp

end

text \<open>The number of the head block is the one in its id.\<close>

definition head_ok :: "block_lib \<Rightarrow> database \<Rightarrow> bool" where
  "head_ok B d \<longleftrightarrow> num_from_id B (head_block_id (dyn_props d)) = head_block_number (dyn_props d)"

context block_laws
begin

lemma num_from_block_id: "num_from_id B (block_id B b) = block_num B b"
proof -
  let ?w = "endian_reverse B (of_nat (block_num B b))"
  have "unat ?w < 2 ^ 32" using unsigned_less [of ?w] by simp
  then have "hash_word 0 (block_id B b) = unat ?w" by (simp add: hash_word_def block_id_def)
  then have "num_from_id B (block_id B b) = unat (of_nat (block_num B b) :: 32 word)"
    by (simp add: num_from_id_def endian_reverse)
  also have "\<dots> = block_num B b" unfolding unat_of_nat by (simp add: block_num_def)
  finally show ?thesis .
qed

end

section \<open>Sample\<close>

text \<open>Three witnesses on the chain of the sample node, and an empty block of the witness of its first slot.\<close>

definition byte_reverse :: "32 word \<Rightarrow> 32 word" where
  "byte_reverse w =
     push_bit 24 (w AND 0xFF) OR push_bit 8 (w AND 0xFF00) OR drop_bit 8 (w AND 0xFF0000) OR drop_bit 24 w"

lemma byte_reverse_twice: "byte_reverse (byte_reverse w) = w"
proof (rule bit_word_eqI)
  fix n
  assume "n < LENGTH(32)"
  then have "n < 32" by simp
  have masks: "(0xFF :: 32 word) = mask 8" "(0xFF00 :: 32 word) = push_bit 8 (mask 8)" "(0xFF0000 :: 32 word) = push_bit 16 (mask 8)"
    by (simp_all add: mask_eq_exp_minus_1)
  consider "n < 8" | "8 \<le> n" "n < 16" | "16 \<le> n" "n < 24" | "24 \<le> n" by linarith
  then show "bit (byte_reverse (byte_reverse w)) n \<longleftrightarrow> bit w n"
    using \<open>n < 32\<close> unfolding byte_reverse_def masks
    by cases (auto simp: bit_or_iff bit_and_iff bit_push_bit_iff bit_drop_bit_eq bit_mask_iff dest: bit_imp_le_length)
qed

definition sample_blocks :: block_lib where
  "sample_blocks = \<lparr>header_digest = (\<lambda>h. timestamp h), header_hash = (\<lambda>h. timestamp h * 2 ^ 32), signee = (\<lambda>sig d. sig),
     endian_reverse = byte_reverse, merkle_digest = (\<lambda>t. length (trx_operations t)), hash_pair = (\<lambda>a b. a * 1000 + b), hash_root = id\<rparr>"

interpretation sample_block: block_laws sample_blocks
  by unfold_locales (simp add: sample_blocks_def byte_reverse_twice)

definition sample_witness :: witness_object where
  "sample_witness = \<lparr>witness_account = 6, witness_vote_id = 0, pay_vb = None, last_aslot = 0, signing_key = 60, total_missed = 0,
     last_confirmed_block_num = 97, total_produced = 0\<rparr>"

definition block_db :: database where
  "block_db = signed_db\<lparr>witnesses := \<lparr>next_id = 3, objs = fmupd 0 sample_witness
       (fmupd 1 (sample_witness\<lparr>last_confirmed_block_num := 98\<rparr>) (fmupd 2 (sample_witness\<lparr>last_confirmed_block_num := 99\<rparr>) fmempty))\<rparr>,
     active_witnesses := [0, 1, 2], witness_schedule := [2, 0, 1],
     dyn_props := sample_dyn_props\<lparr>head_block_id := 1677721600\<rparr>\<rparr>"

definition block_node :: node where
  "block_node = \<lparr>state = block_db, trx_index = empty_table, chain_id = 5\<rparr>"

definition sample_signed_block :: signed_block where
  "sample_signed_block = \<lparr>previous = 1677721600, timestamp = 1560000005, block_witness = 1, transaction_merkle_root = 0,
     witness_signature = 60, transactions = []\<rparr>"

lemmas block_eval =
  block_db_def signed_db_def sample_eval get_slot_at_time_def get_slot_time_def Let_def maintenance_flag_def
  checked_fc_def get_scheduled_witness_def

lemma sample_block_applied:
  "is_ok (do_apply_block sample_crypto sample_blocks checked_fc sample_strings [] 0 sample_signed_block block_node)"
proof -
  let ?b = sample_signed_block
  have slot: "get_slot_at_time checked_fc block_db 1560000005 = Inr 1" by (simp add: block_eval)
  have w: "get_scheduled_witness block_db 1 = Inr 1" by (simp add: block_eval)
  have hdr: "is_ok (validate_block_header sample_blocks checked_fc 0 ?b block_db)"
    using slot w by (simp add: validate_block_header_def sample_signed_block_def skips_def)
      (simp add: block_db_def sample_eval validate_signee_def sample_blocks_def sample_witness_def)
  have num: "block_num sample_blocks ?b = 101" "timestamp ?b = 1560000005" "block_witness ?b = 1" "transactions ?b = []" "transaction_merkle_root ?b = 0"
    by (simp_all add: block_num_def num_from_id_def sample_blocks_def byte_reverse_def hash_word_def sample_signed_block_def)
  have "is_ok (update_global_dynamic_data sample_blocks checked_fc [] 0 ?b block_db)"
    using slot num by (simp add: update_global_dynamic_data_def Let_def skips_def)
      (simp add: block_db_def sample_eval GRAPHENE_MAX_UNDO_HISTORY_def)
  then obtain d2 where d2: "update_global_dynamic_data sample_blocks checked_fc [] 0 ?b block_db = Inr d2" by (auto simp: is_ok_iff)
  have W: "witnesses d2 = witnesses block_db" "parameters d2 = sample_parameters" "active_witnesses d2 = [0, 1, 2]"
    "dgp_time (dyn_props d2) = 1560000005" "head_block_number (dyn_props d2) = 101" "witness_budget (dyn_props d2) = 0" "dynamic_flags (dyn_props d2) = 0"
    using d2 slot num by (auto simp: update_global_dynamic_data_def Let_def skips_def)
      (simp_all add: block_db_def signed_db_def sample_eval)
  have "is_ok (update_signing_witness sample_blocks checked_fc 1 ?b d2)"
    using W num by (simp add: update_signing_witness_def Let_def get_slot_at_time_def get_slot_time_def head_block_time_def maintenance_flag_def)
      (simp add: checked_fc_def sample_eval block_db_def deposit_witness_pay_def modify_witness_def safe_check_def in_int64_def)
  then obtain d3 where d3: "update_signing_witness sample_blocks checked_fc 1 ?b d2 = Inr d3" by (auto simp: is_ok_iff)
  have "active_witnesses d3 = [0, 1, 2] \<and> tbl_find (witnesses d3) 0 \<noteq> None \<and> tbl_find (witnesses d3) 1 \<noteq> None \<and> tbl_find (witnesses d3) 2 \<noteq> None"
    using d3 W num by (auto simp: update_signing_witness_def Let_def get_slot_at_time_def get_slot_time_def deposit_witness_pay_def
        modify_witness_def sample_eval block_db_def split: if_splits)
  then have "is_ok (update_last_irreversible_block d3)"
    by (auto simp: update_last_irreversible_block_def Let_def tbl_get_def GRAPHENE_IRREVERSIBLE_THRESHOLD_def GRAPHENE_100_PERCENT_def)
  moreover have "is_ok (check_bonuses a [] block_db)" for a
    by (simp add: check_bonuses_def witness_bonuses_def founder_bonuses_def)
  ultimately show ?thesis using hdr d2 d3 num
    by (auto simp: do_apply_block_def block_node_def calculate_merkle_root_def is_ok_iff)
qed

section \<open>Properties\<close>

text \<open>C2. The steps of \<^verbatim>\<open>_apply_block\<close> from the Merkle check to \<^verbatim>\<open>update_last_irreversible_block\<close>, those before the
  maintenance and the clearing of what has expired. If they succeed they continue the chain: the number is one more
  than that of the head, the time is later, the block's id becomes the head and carries its number; the slot counter advances
  by the slot of the block. Provided that the publisher fees of the listings in the block are in the core coin, and the
  number of the block fits 32 bits, the invariant of the chain holds after them, and the coins of every asset are
  accounted for: what the witness is paid leaves the budget for witnesses.\<close>

theorem block_continues_chain:
  assumes "fc_laws F" and "block_laws B" and "do_apply_block X B F S cps skip b n = Inr n'"
    and "chain_ok (state n)" and "head_ok B (state n)" and "head_block_number (dyn_props (state n)) + 1 < 2 ^ 32"
    and "list_all (\<lambda>t. list_all fees_in_core (trx_operations t)) (transactions b)"
  shows "chain_ok (state n') \<and> head_ok B (state n') \<and>
    head_block_number (dyn_props (state n')) = head_block_number (dyn_props (state n)) + 1 \<and>
    head_block_id (dyn_props (state n')) = block_id B b \<and>
    head_block_time (state n) < head_block_time (state n') \<and> head_block_time (state n') = timestamp b \<and>
    (\<exists>slot. get_slot_at_time F (state n) (timestamp b) = Inr slot \<and>
       current_aslot (dyn_props (state n')) = current_aslot (dyn_props (state n)) + ucast slot) \<and>
    (\<forall>a. asset_gap a (state n') - of_asset a (core_asset (witness_budget (dyn_props (state n')))) =
       asset_gap a (state n) - of_asset a (core_asset (witness_budget (dyn_props (state n)))))"
proof -
  from assms(3) obtain w n1 d2 d3 d4 where h: "validate_block_header B F skip b (state n) = Inr w"
    and ts: "efold (\<lambda>t n. emap snd (apply_transaction X F S skip (signed_transaction.truncate t) n)) (transactions b) n = Inr n1"
    and g: "update_global_dynamic_data B F cps skip b (state n1) = Inr d2"
    and sw: "update_signing_witness B F (block_witness b) b d2 = Inr d3"
    and li: "update_last_irreversible_block d3 = Inr d4" and n': "state n' = d4"
    by (auto simp: do_apply_block_def)
  note t = fc_laws.transactions_sound [OF assms(1) ts assms(4,7)]
  have clock: "get_slot_at_time F (state n1) x = get_slot_at_time F (state n) x" for x
    using t by (simp add: same_clock_def get_slot_at_time_def get_slot_time_def head_block_time_def Let_def)
  from update_global_dynamic_data_result [OF g] obtain v p slot where d2: "d2 = (state n1)\<lparr>witnesses := v, dyn_props := p\<rparr>"
    and slot: "get_slot_at_time F (state n1) (timestamp b) = Inr slot"
    and p: "head_block_number p = block_num B b" "head_block_id p = block_id B b" "dgp_time p = timestamp b"
      "witness_budget p = witness_budget (dyn_props (state n1))" "current_aslot p = current_aslot (dyn_props (state n1)) + ucast slot"
    by blast
  from fc_laws.update_signing_witness_result [OF assms(1) sw] obtain pay where
    d3: "dyn_props d3 = (dyn_props d2)\<lparr>witness_budget := witness_budget (dyn_props d2) - pay\<rparr>" "chain_ok d2 \<longrightarrow> chain_ok d3"
      "\<And>a. asset_gap a d3 = asset_gap a d2 - of_asset a (core_asset pay)" by blast
  from update_last_irreversible_result [OF li] obtain l where d4: "d4 = d3\<lparr>dyn_props := (dyn_props d3)\<lparr>last_irreversible_block_num := l\<rparr>\<rparr>" ..
  from h have prev: "previous b = head_block_id (dyn_props (state n))" and later: "head_block_time (state n) < timestamp b"
    by (auto simp: validate_block_header_def)
  have num: "block_num B b = head_block_number (dyn_props (state n)) + 1"
    using assms(5,6) by (simp add: block_num_def prev head_ok_def)
  have ok: "chain_ok d4" using t d2 d3(2) by (simp add: d4 witnesses_dyn_ok)
  have gap: "asset_gap a d4 = asset_gap a (state n) - of_asset a (core_asset pay)" for a
    using t d3(3) [of a] by (simp add: d4 d2 witnesses_dyn_gap)
  have budget: "witness_budget (dyn_props d4) = witness_budget (dyn_props (state n)) - pay"
    using t by (simp add: d4 d3(1) d2 p same_clock_def)
  show ?thesis unfolding n'
  proof (intro conjI allI exI)
    show "head_ok B d4" using block_laws.num_from_block_id [OF assms(2)] by (simp add: head_ok_def d4 d3(1) d2 p)
    show "get_slot_at_time F (state n) (timestamp b) = Inr slot" using slot clock by simp
    show "asset_gap a d4 - of_asset a (core_asset (witness_budget (dyn_props d4))) =
       asset_gap a (state n) - of_asset a (core_asset (witness_budget (dyn_props (state n))))" for a
      unfolding budget gap by (simp add: of_asset_def)
    show "current_aslot (dyn_props d4) = current_aslot (dyn_props (state n)) + ucast slot"
      using t by (simp add: d4 d3(1) d2 p same_clock_def)
  qed (use ok num later in \<open>simp_all add: d4 d3(1) d2 p head_block_time_def\<close>)
qed

theorem block_continues_chain_witness:
  "\<exists>n'. do_apply_block sample_crypto sample_blocks checked_fc sample_strings [] 0 sample_signed_block block_node = Inr n' \<and>
     head_block_number (dyn_props (state n')) = 101 \<and> chain_ok (state n')"
proof -
  from sample_block_applied obtain n' where r:
    "do_apply_block sample_crypto sample_blocks checked_fc sample_strings [] 0 sample_signed_block block_node = Inr n'"
    by (auto simp: is_ok_iff)
  have "assets block_db = assets sample_db" by (simp add: block_db_def signed_db_def)
  then have "assets_ok block_db" using sample_assets_ok by (rule assets_ok_cong [THEN iffD2])
  then have c: "chain_ok (state block_node)"
    by (simp add: chain_ok_def block_node_def core_escrows_def solvent_def block_db_def signed_db_def sample_eval)
  have h: "head_ok sample_blocks (state block_node)" "head_block_number (dyn_props (state block_node)) = 100"
    by (simp_all add: head_ok_def num_from_id_def hash_word_def sample_blocks_def byte_reverse_def block_node_def block_db_def sample_eval)
  have "list_all (\<lambda>t. list_all fees_in_core (trx_operations t)) (transactions sample_signed_block)"
    by (simp add: sample_signed_block_def)
  from block_continues_chain [OF checked.fc_laws_axioms sample_block.block_laws_axioms r c h(1) _ this] h(2) r show ?thesis by simp
qed

text \<open>C37. The schedule is fair: when a new round begins, the shuffled schedule is a permutation of the active
  witnesses, and in any window of as many slots as there are witnesses each of them is scheduled exactly
  once. Slot 0 is no exception: it too has one of the witnesses, where the comment at the declaration of
  \<^verbatim>\<open>get_scheduled_witness\<close> promises the null witness.\<close>

theorem schedule_is_fair:
  assumes "update_witness_schedule d = Inr d'" and "head_block_number (dyn_props d) mod length (active_witnesses d) = 0"
    and "distinct (active_witnesses d)"
    and "unat (current_aslot (dyn_props d)) + s + length (active_witnesses d) < 2 ^ 64" and "s + length (active_witnesses d) < 2 ^ 32"
  shows "mset (witness_schedule d') = mset (active_witnesses d) \<and>
    (\<forall>w\<in>set (active_witnesses d). \<exists>!k. k < length (active_witnesses d) \<and> get_scheduled_witness d' (of_nat (s + k)) = Inr w) \<and>
    (\<exists>w\<in>set (active_witnesses d). get_scheduled_witness d' 0 = Inr w)"
proof -
  let ?ws = "witness_schedule d'" and ?n = "length (active_witnesses d)" and ?a = "unat (current_aslot (dyn_props d)) + s"
  from assms(1,2) have ne: "active_witnesses d \<noteq> []"
    and d': "d' = d\<lparr>witness_schedule := shuffle_witnesses (head_block_time d) (active_witnesses d)\<rparr>"
    by (auto simp: update_witness_schedule_def split: if_splits)
  then have m: "mset ?ws = mset (active_witnesses d)" by (simp add: shuffle_mset)
  then have len: "length ?ws = ?n" and dist: "distinct ?ws" and set: "set ?ws = set (active_witnesses d)"
    using assms(3) by (auto dest: mset_eq_length mset_eq_imp_distinct_iff mset_eq_setD)
  have sched: "get_scheduled_witness d' (of_nat (s + k)) = Inr (?ws ! ((?a + k) mod ?n))" if "k < ?n" for k
  proof -
    have "unat (of_nat (s + k) :: 32 word) = s + k" using that assms(5) by (simp only: unat_of_nat) simp
    moreover have "unat (current_aslot (dyn_props d) + ucast (x :: 32 word)) = unat (current_aslot (dyn_props d)) + unat x"
      if "unat (current_aslot (dyn_props d)) + unat x < 2 ^ 64" for x
      using that by (simp add: unat_word_ariths unsigned_ucast_eq take_bit_nat_eq_self)
    ultimately have "unat (current_aslot (dyn_props d) + ucast (of_nat (s + k) :: 32 word)) = ?a + k"
      using that assms(4) by simp
    with len ne d' show ?thesis by (auto simp: get_scheduled_witness_def Let_def)
  qed
  have "\<exists>w\<in>set (active_witnesses d). get_scheduled_witness d' 0 = Inr w"
    using ne len set nth_mem [of "unat (current_aslot (dyn_props d)) mod ?n" ?ws] d'
    by (auto simp: get_scheduled_witness_def Let_def)
  moreover have "\<exists>!k. k < ?n \<and> get_scheduled_witness d' (of_nat (s + k)) = Inr w" if "w \<in> set (active_witnesses d)" for w
  proof -
    from that set obtain i where i: "i < ?n" "?ws ! i = w" using len by (metis in_set_conv_nth)
    have "?ws ! j = w \<longleftrightarrow> j = i" if "j < ?n" for j using that i dist len by (metis nth_eq_iff_index_eq)
    moreover have "(?a + k) mod ?n < ?n" for k using ne by simp
    ultimately have at: "?ws ! ((?a + k) mod ?n) = w \<longleftrightarrow> (?a + k) mod ?n = i" for k by blast
    have "k < ?n \<and> get_scheduled_witness d' (of_nat (s + k)) = Inr w \<longleftrightarrow> k < ?n \<and> (?a + k) mod ?n = i" for k
    proof (cases "k < ?n")
      case True
      show ?thesis unfolding sched [OF True] sum.inject at ..
    qed simp
    with mod_window [OF i(1), of ?a] show ?thesis by simp
  qed
  ultimately show ?thesis using m by blast
qed

theorem schedule_is_fair_witness:
  "\<exists>d'. update_witness_schedule (block_db\<lparr>dyn_props := sample_dyn_props\<lparr>head_block_number := 99\<rparr>\<rparr>) = Inr d' \<and>
     mset (witness_schedule d') = {#0, 1, 2#} \<and> (\<exists>!k. k < 3 \<and> get_scheduled_witness d' (of_nat (1 + k)) = Inr 2)"
proof -
  define d where "d = block_db\<lparr>dyn_props := sample_dyn_props\<lparr>head_block_number := 99\<rparr>\<rparr>"
  have a: "active_witnesses d = [0, 1, 2]" "current_aslot (dyn_props d) = 100" "head_block_number (dyn_props d) = 99"
    by (simp_all add: d_def block_db_def sample_eval)
  then have len: "length (active_witnesses d) = 3" by simp
  from a have "is_ok (update_witness_schedule d)" by (simp add: update_witness_schedule_def)
  then obtain d' where r: "update_witness_schedule d = Inr d'" by (auto simp: is_ok_iff)
  have w: "unat (100 :: 64 word) = 100" by simp
  have f: "mset (witness_schedule d') = mset (active_witnesses d) \<and>
    (\<forall>w\<in>set (active_witnesses d). \<exists>!k. k < length (active_witnesses d) \<and> get_scheduled_witness d' (of_nat (1 + k)) = Inr w) \<and>
    (\<exists>w\<in>set (active_witnesses d). get_scheduled_witness d' 0 = Inr w)"
  proof (rule schedule_is_fair [OF r])
    show "head_block_number (dyn_props d) mod length (active_witnesses d) = 0" unfolding len a(3) by simp
    show "distinct (active_witnesses d)" unfolding a(1) by simp
    show "unat (current_aslot (dyn_props d)) + 1 + length (active_witnesses d) < 2 ^ 64" unfolding len a(2) w by simp
    show "1 + length (active_witnesses d) < 2 ^ 32" unfolding len by simp
  qed
  have m: "mset (witness_schedule d') = mset [0, 1, 2]" unfolding f [THEN conjunct1] a(1) by (rule refl)
  have "2 \<in> set (active_witnesses d)" unfolding a(1) by simp
  from bspec [OF f [THEN conjunct2, THEN conjunct1] this]
  have u: "\<exists>!k. k < 3 \<and> get_scheduled_witness d' (of_nat (1 + k)) = Inr 2" unfolding len .
  show ?thesis unfolding d_def [symmetric]
  proof (intro exI conjI)
    show "update_witness_schedule d = Inr d'" by (fact r)
    show "mset (witness_schedule d') = {#0, 1, 2#}" using m by simp
  qed (fact u)
qed

text \<open>C38. Slots and times fit together: a slot that starts within 32 bits is the slot of its start, and of every
  moment until the next one starts.\<close>

theorem slot_of_slot_time:
  assumes "fc_laws F" and "0 < block_interval (parameters d)" and "0 < slot"
    and "slot_start d (unat slot) \<le> t" and "t < slot_start d (unat slot) + block_interval (parameters d)" and "t < 2 ^ 32"
  shows "get_slot_time F d slot = Inr (slot_start d (unat slot)) \<and> get_slot_at_time F d t = Inr slot"
proof -
  let ?i = "block_interval (parameters d)" and ?f = "slot_start d 1"
  obtain k where k: "unat slot = 1 + k" using assms(3) by (metis add.commute Suc_eq_plus1 gr0_conv_Suc unat_gt_0 word_gt_0)
  have s: "slot_start d (unat slot) = ?f + k * ?i" unfolding k by (rule slot_start_add)
  have "get_slot_time F d slot = Inr (slot_start d (unat slot))"
    by (rule fc_laws.get_slot_time_exact [OF assms(1,3,2)]) (use assms(4,6) in simp)
  moreover have "get_slot_at_time F d t = Inr (if t < ?f then 0 else of_nat ((t - ?f) div ?i + 1))"
    by (rule fc_laws.get_slot_at_time_exact [OF assms(1,2) _ assms(6)]) (use assms(4,6) s in simp)
  moreover have "(t - ?f) div ?i = k"
    using assms(2,4,5) unfolding s by (intro div_nat_eqI) (auto simp: algebra_simps)
  moreover have "of_nat (k + 1) = slot"
  proof -
    have "of_nat (unat slot) = slot" by simp
    then show ?thesis unfolding k by (simp add: add.commute)
  qed
  ultimately show ?thesis using assms(4) s by simp
qed

theorem slot_of_slot_time_witness:
  "get_slot_time checked_fc block_db 3 = Inr 1560000015 \<and> get_slot_at_time checked_fc block_db 1560000019 = Inr 3"
proof -
  have s: "slot_start block_db (unat (3 :: 32 word)) = 1560000015" "block_interval (parameters block_db) = 5"
    by (simp_all add: slot_start_def block_db_def signed_db_def sample_eval maintenance_flag_def)
  show ?thesis
    using slot_of_slot_time [OF checked.fc_laws_axioms, of block_db 3 1560000019] unfolding s by simp
qed

text \<open>C39. The last irreversible block never goes back, and a block becomes irreversible only when at least 70%
  of the active witnesses have confirmed it by a block of their own.\<close>

theorem irreversible_is_confirmed:
  assumes "update_last_irreversible_block d = Inr d'"
  shows "last_irreversible_block_num (dyn_props d) \<le> last_irreversible_block_num (dyn_props d') \<and>
    (last_irreversible_block_num (dyn_props d') \<noteq> last_irreversible_block_num (dyn_props d) \<longrightarrow>
      GRAPHENE_IRREVERSIBLE_THRESHOLD * length (active_witnesses d) \<le> GRAPHENE_100_PERCENT *
        length (filter (\<lambda>i. \<exists>w. tbl_find (witnesses d) i = Some w \<and>
          last_irreversible_block_num (dyn_props d') \<le> last_confirmed_block_num w) (active_witnesses d)))"
proof -
  let ?ws = "active_witnesses d" and ?g = "\<lambda>i. last_confirmed_block_num (the (tbl_find (witnesses d) i))"
  let ?nums = "map ?g ?ws"
  let ?off = "(GRAPHENE_100_PERCENT - GRAPHENE_IRREVERSIBLE_THRESHOLD) * length ?nums div GRAPHENE_100_PERCENT"
  from assms obtain nums where n: "efold (\<lambda>i nums. ebind (tbl_get (witnesses d) i) (\<lambda>w. Inr (nums @ [last_confirmed_block_num w]))) ?ws [] = Inr nums"
    by (auto simp: update_last_irreversible_block_def)
  from confirmed_numbers [OF n] have nums: "nums = ?nums" and found: "\<forall>i\<in>set ?ws. tbl_find (witnesses d) i \<noteq> None" by auto
  with assms n have off: "?off < length ?nums"
    and d': "d' = (if last_irreversible_block_num (dyn_props d) < sort ?nums ! ?off
       then d\<lparr>dyn_props := (dyn_props d)\<lparr>last_irreversible_block_num := sort ?nums ! ?off\<rparr>\<rparr> else d)"
    by (auto simp: update_last_irreversible_block_def Let_def split: if_splits)
  have "length ?ws - ?off \<le> length (filter (\<lambda>x. sort ?nums ! ?off \<le> x) ?nums)"
    using sorted_tail_count [OF off] by simp
  also have "\<dots> = length (filter (\<lambda>i. sort ?nums ! ?off \<le> ?g i) ?ws)" by (simp add: filter_map comp_def)
  also have "filter (\<lambda>i. sort ?nums ! ?off \<le> ?g i) ?ws =
      filter (\<lambda>i. \<exists>w. tbl_find (witnesses d) i = Some w \<and> sort ?nums ! ?off \<le> last_confirmed_block_num w) ?ws"
    using found by (intro filter_cong) auto
  finally have c: "length ?ws - ?off \<le> length (filter (\<lambda>i. \<exists>w. tbl_find (witnesses d) i = Some w \<and> sort ?nums ! ?off \<le> last_confirmed_block_num w) ?ws)" .
  have "GRAPHENE_IRREVERSIBLE_THRESHOLD * length ?ws \<le> GRAPHENE_100_PERCENT * (length ?ws - ?off)"
    by (simp add: GRAPHENE_IRREVERSIBLE_THRESHOLD_def GRAPHENE_100_PERCENT_def)
  also have "\<dots> \<le> GRAPHENE_100_PERCENT * length (filter (\<lambda>i. \<exists>w. tbl_find (witnesses d) i = Some w \<and> sort ?nums ! ?off \<le> last_confirmed_block_num w) ?ws)"
    using c by (rule mult_le_mono2)
  finally show ?thesis using d' by (simp split: if_splits)
qed

theorem irreversible_is_confirmed_witness:
  "\<exists>d'. update_last_irreversible_block block_db = Inr d' \<and> last_irreversible_block_num (dyn_props d') = 97"
proof -
  have s: "sort [97, 98, 99 :: nat] = [97, 98, 99]" by simp
  have "is_ok (update_last_irreversible_block block_db)"
    by (simp add: update_last_irreversible_block_def block_db_def sample_witness_def tbl_eval
        GRAPHENE_IRREVERSIBLE_THRESHOLD_def GRAPHENE_100_PERCENT_def)
  then obtain d' where r: "update_last_irreversible_block block_db = Inr d'" by (auto simp: is_ok_iff)
  then have "last_irreversible_block_num (dyn_props d') = 97"
    by (auto simp: update_last_irreversible_block_def block_db_def sample_witness_def tbl_eval sample_eval
        GRAPHENE_IRREVERSIBLE_THRESHOLD_def GRAPHENE_100_PERCENT_def)
  with irreversible_is_confirmed [OF r] r show ?thesis by blast
qed

text \<open>C40. The Merkle root binds the transactions: two lists of as many transactions with the same root have the
  same digests, or two different pairs that were hashed for the two roots collide, or the last hash does.\<close>

theorem merkle_root_binds:
  assumes "length ts = length us" and "calculate_merkle_root B ts = calculate_merkle_root B us"
  shows "map (merkle_digest B) ts = map (merkle_digest B) us \<or>
    collision B (merkle_pairs B (map (merkle_digest B) ts)) (merkle_pairs B (map (merkle_digest B) us)) \<or>
    (\<exists>x y. x \<noteq> y \<and> merkle_loop B (map (merkle_digest B) ts) = [x] \<and> merkle_loop B (map (merkle_digest B) us) = [y] \<and>
      hash_root B x = hash_root B y)"
proof (cases "ts = []")
  case False
  let ?t = "map (merkle_digest B) ts" and ?u = "map (merkle_digest B) us"
  have ne: "?t \<noteq> []" "?u \<noteq> []" using False assms(1) by auto
  obtain x where x: "merkle_loop B ?t = [x]" using merkle_loop_length [OF ne(1), of B] by (auto simp: length_Suc_conv)
  obtain y where y: "merkle_loop B ?u = [y]" using merkle_loop_length [OF ne(2), of B] by (auto simp: length_Suc_conv)
  have "hash_root B x = hash_root B y" using assms(2) ne x y by (simp add: calculate_merkle_root_def)
  then show ?thesis using merkle_loop_binding [of ?t ?u B] assms(1) x y by (cases "x = y") auto
qed (use assms in simp)

definition dated_trx :: "time_sec \<Rightarrow> processed_transaction" where
  "dated_trx e = \<lparr>ref_block_num = 0, ref_block_prefix = 0, trx_expiration = e, trx_operations = [], signatures = [], operation_results = []\<rparr>"

lemma sample_merkle:
  "merkle_digest sample_blocks (dated_trx e) = 0" "hash_pair sample_blocks 0 0 = 0"
  "merkle_loop sample_blocks [0] = [0]" "merkle_pairs sample_blocks [0] = {}"
  by (simp_all add: sample_blocks_def dated_trx_def merkle_loop.simps merkle_pairs.simps)

lemma sample_merkle_two: "merkle_loop sample_blocks [0, 0] = [0]" "merkle_pairs sample_blocks [0, 0] = {(0, 0)}"
  by (simp_all add: merkle_loop.simps [of _ "[0, 0]"] merkle_pairs.simps [of _ "[0, 0]"] sample_merkle)

theorem merkle_root_binds_witness:
  "calculate_merkle_root sample_blocks [dated_trx 1, dated_trx 2] = calculate_merkle_root sample_blocks [dated_trx 1, dated_trx 3] \<and>
   map (merkle_digest sample_blocks) [dated_trx 1, dated_trx 2] = map (merkle_digest sample_blocks) [dated_trx 1, dated_trx 3]"
proof -
  have r: "calculate_merkle_root sample_blocks [dated_trx 1, dated_trx 2] = calculate_merkle_root sample_blocks [dated_trx 1, dated_trx 3]"
    by (simp add: calculate_merkle_root_def sample_merkle)
  have l: "length [dated_trx 1, dated_trx 2] = length [dated_trx 1, dated_trx 3]" by simp
  have "\<not> collision sample_blocks (merkle_pairs sample_blocks (map (merkle_digest sample_blocks) [dated_trx 1, dated_trx 2]))
      (merkle_pairs sample_blocks (map (merkle_digest sample_blocks) [dated_trx 1, dated_trx 3]))"
    by (simp add: sample_merkle sample_merkle_two collision_def)
  moreover have "merkle_loop sample_blocks (map (merkle_digest sample_blocks) [dated_trx 1, dated_trx 2]) = [0]"
    "merkle_loop sample_blocks (map (merkle_digest sample_blocks) [dated_trx 1, dated_trx 3]) = [0]"
    by (simp_all add: sample_merkle sample_merkle_two)
  ultimately show ?thesis using merkle_root_binds [OF l r] r by (metis list.inject)
qed

end
