(* ===== verification/Fork_Database.thy ===== *)
theory Fork_Database
  imports Blocks
begin

text \<open>
  The tree of recent blocks, \<^verbatim>\<open>fork_database.cpp\<close>. The code links the blocks by shared and weak pointers,
  so the model has a store of the items that were ever allocated, by address: \<open>index\<close> is the container
  \<^verbatim>\<open>_index\<close>, from block ids to addresses, and \<open>fork_head\<close> is \<^verbatim>\<open>_head\<close>. A weak pointer yields its item while
  somebody owns it: one of the containers, the head, or a caller, who is represented by the set \<open>pinned\<close>
  of the addresses it holds. Nothing ever gets into \<^verbatim>\<open>_unlinked_index\<close>; the function that would read from it,
  \<^verbatim>\<open>_push_next\<close>, is not called and not modelled.
\<close>

record fork_item =
  item_prev :: "nat option"
  item_num :: nat
  item_id :: nat
  item_data :: signed_block

record fork_database =
  items :: "(nat, fork_item) fmap"
  next_address :: nat
  index :: "(nat, nat) fmap"
  unlinked_index :: "(nat, nat) fmap"
  fork_head :: "nat option"
  fork_max_size :: nat
  pinned :: "nat fset"

definition item_at :: "fork_database \<Rightarrow> nat \<Rightarrow> fork_item" where
  "item_at f a = the (fmlookup (items f) a)"

definition previous_id :: "fork_item \<Rightarrow> nat" where
  "previous_id x = previous (item_data x)"

text \<open>The owners of an item keep it alive.\<close>

definition alive :: "fork_database \<Rightarrow> nat \<Rightarrow> bool" where
  "alive f a \<longleftrightarrow> a |\<in>| fmran (index f) \<or> a |\<in>| fmran (unlinked_index f) \<or> fork_head f = Some a \<or> a |\<in>| pinned f"

definition lock_prev :: "fork_database \<Rightarrow> nat \<Rightarrow> nat option" where
  "lock_prev f a =
     (case item_prev (item_at f a) of
        None \<Rightarrow> None
      | Some p \<Rightarrow> if alive f p then Some p else None)"

subsection \<open>Changing the tree\<close>

definition reset :: "fork_database \<Rightarrow> fork_database" where
  "reset f = f\<lparr>fork_head := None, index := fmempty\<rparr>"

definition pop_head :: "fork_database \<Rightarrow> fork_database result" where
  "pop_head f =
     (case fork_head f of
        None \<Rightarrow> Inl (Assert_failed ''no blocks to pop'')
      | Some h \<Rightarrow>
          (case lock_prev f h of
             None \<Rightarrow> Inl (Assert_failed ''poping block would leave head block null'')
           | Some p \<Rightarrow> Inr (f\<lparr>fork_head := Some p\<rparr>)))"

definition new_item :: "block_lib \<Rightarrow> signed_block \<Rightarrow> fork_item" where
  "new_item B b = \<lparr>item_prev = None, item_num = block_num B b, item_id = block_id B b, item_data = b\<rparr>"

definition allocate :: "fork_item \<Rightarrow> fork_database \<Rightarrow> nat \<times> fork_database" where
  "allocate x f = (next_address f, f\<lparr>items := fmupd (next_address f) x (items f), next_address := Suc (next_address f)\<rparr>)"

text \<open>The first index of the container is unique: a second item with the same id is not inserted.\<close>

definition index_insert :: "nat \<Rightarrow> fork_database \<Rightarrow> fork_database" where
  "index_insert a f =
     (let i = item_id (item_at f a) in
      if i |\<in>| fmdom (index f) then f else f\<lparr>index := fmupd i a (index f)\<rparr>)"

definition start_block :: "block_lib \<Rightarrow> signed_block \<Rightarrow> fork_database \<Rightarrow> fork_database" where
  "start_block B b f = (let (a, f1) = allocate (new_item B b) f in (index_insert a f1)\<lparr>fork_head := Some a\<rparr>)"

text \<open>The view of a container in the order of the block numbers, and the loop that erases its front.\<close>

definition by_number :: "fork_database \<Rightarrow> (nat, nat) fmap \<Rightarrow> (nat \<times> nat) list" where
  "by_number f m = sort_key (\<lambda>(i, a). item_num (item_at f a)) (sorted_list_of_fmap m)"

definition erase_below :: "fork_database \<Rightarrow> nat \<Rightarrow> (nat, nat) fmap \<Rightarrow> (nat, nat) fmap" where
  "erase_below f n m = fold (\<lambda>(i, a). fmdrop i) (takeWhile (\<lambda>(i, a). item_num (item_at f a) < n) (by_number f m)) m"

definition erase_number :: "fork_database \<Rightarrow> nat \<Rightarrow> (nat, nat) fmap \<Rightarrow> (nat, nat) fmap" where
  "erase_number f n m = fold (\<lambda>(i, a). fmdrop i) (filter (\<lambda>(i, a). item_num (item_at f a) = n) (by_number f m)) m"

definition head_num :: "fork_database \<Rightarrow> nat \<Rightarrow> nat" where
  "head_num f h = item_num (item_at f h)"

text \<open>\<^verbatim>\<open>_push_block\<close>, for an item that has just been allocated at the address \<open>a\<close>.\<close>

definition link_item :: "nat \<Rightarrow> fork_database \<Rightarrow> fork_database result" where
  "link_item a f =
     (let x = item_at f a in
      if fork_head f \<noteq> None \<and> previous_id x \<noteq> 0 then
        (case fmlookup (index f) (previous_id x) of
           None \<Rightarrow> Inl (Thrown ''block does not link to known chain'')
         | Some p \<Rightarrow> Inr (f\<lparr>items := fmupd a (x\<lparr>item_prev := Some p\<rparr>) (items f)\<rparr>))
      else Inr f)"

definition new_head :: "nat \<Rightarrow> fork_database \<Rightarrow> fork_database" where
  "new_head a f =
     (case fork_head f of
        None \<Rightarrow> f\<lparr>fork_head := Some a\<rparr>
      | Some h \<Rightarrow>
          if head_num f h < item_num (item_at f a) then
            (let n = item_num (item_at f a); f1 = f\<lparr>fork_head := Some a\<rparr> in
             f1\<lparr>index := erase_below f1 (n - min (fork_max_size f) n) (index f1),
                unlinked_index := erase_number f1 (nat ((int n - int (fork_max_size f)) mod 2 ^ 32)) (unlinked_index f1)\<rparr>)
          else f)"

definition push_item :: "nat \<Rightarrow> fork_database \<Rightarrow> fork_database result" where
  "push_item a f =
     ebind (case fork_head f of
              None \<Rightarrow> Inr ()
            | Some h \<Rightarrow> fc_assert (max 0 (int (head_num f h) - int (fork_max_size f)) < int (item_num (item_at f a)))
                ''attempting to push a block that is too old'') (\<lambda>_.
     ebind (link_item a f) (\<lambda>f1.
     Inr (new_head a (index_insert a f1))))"

text \<open>
  \<^verbatim>\<open>push_block\<close> returns the new head or throws, and in both cases leaves a tree behind. Every exception goes on to the
  caller, that of a block that does not link after the messages of the catch clause, and before the insertion
  into \<^verbatim>\<open>_unlinked_index\<close>, which comes after the \<^verbatim>\<open>throw\<close>. The item dies with the exception: nothing points to it.
\<close>

definition push_block :: "block_lib \<Rightarrow> signed_block \<Rightarrow> fork_database \<Rightarrow> nat option result \<times> fork_database" where
  "push_block B b f =
     (let (a, f1) = allocate (new_item B b) f in
      case push_item a f1 of
        Inl e \<Rightarrow> (Inl e, f)
      | Inr f2 \<Rightarrow> (Inr (fork_head f2), f2))"

definition set_max_size :: "nat \<Rightarrow> fork_database \<Rightarrow> fork_database" where
  "set_max_size s f =
     (let f1 = f\<lparr>fork_max_size := s\<rparr> in
      case fork_head f1 of
        None \<Rightarrow> f1
      | Some h \<Rightarrow>
          (let n = nat (max 0 (int (head_num f1 h) - int s)) in
           f1\<lparr>index := erase_below f1 n (index f1), unlinked_index := erase_below f1 n (unlinked_index f1)\<rparr>))"

definition set_head :: "nat \<Rightarrow> fork_database \<Rightarrow> fork_database" where
  "set_head a f = f\<lparr>fork_head := Some a\<rparr>"

definition remove_block :: "nat \<Rightarrow> fork_database \<Rightarrow> fork_database" where
  "remove_block i f = f\<lparr>index := fmdrop i (index f)\<rparr>"

subsection \<open>Reading the tree\<close>

definition is_known_block :: "fork_database \<Rightarrow> nat \<Rightarrow> bool" where
  "is_known_block f i \<longleftrightarrow> i |\<in>| fmdom (index f) \<or> i |\<in>| fmdom (unlinked_index f)"

definition fetch_block :: "fork_database \<Rightarrow> nat \<Rightarrow> nat option" where
  "fetch_block f i =
     (case fmlookup (index f) i of
        Some a \<Rightarrow> Some a
      | None \<Rightarrow> fmlookup (unlinked_index f) i)"

definition fetch_block_by_number :: "fork_database \<Rightarrow> nat \<Rightarrow> nat list" where
  "fetch_block_by_number f n =
     map snd (takeWhile (\<lambda>(i, a). item_num (item_at f a) = n)
       (dropWhile (\<lambda>(i, a). item_num (item_at f a) < n) (by_number f (index f))))"

text \<open>The loops of \<^verbatim>\<open>fetch_branch_from\<close>: they may run into a weak pointer whose item is gone, and then throw.\<close>

partial_function (option) climb ::
  "fork_database \<Rightarrow> (fork_item \<Rightarrow> bool) \<Rightarrow> nat \<Rightarrow> nat list \<Rightarrow> (nat \<times> nat list) result option" where
  "climb f higher a branch =
     (if higher (item_at f a) then
        (case lock_prev f a of
           None \<Rightarrow> Some (Inl (Assert_failed ''first_branch''))
         | Some p \<Rightarrow> climb f higher p (branch @ [a]))
      else Some (Inr (a, branch)))"

partial_function (option) climb_both ::
  "fork_database \<Rightarrow> nat \<Rightarrow> nat \<Rightarrow> nat list \<Rightarrow> nat list \<Rightarrow> (nat list \<times> nat list) result option" where
  "climb_both f a b as bs =
     (if previous_id (item_at f a) \<noteq> previous_id (item_at f b) then
        (case lock_prev f a of
           None \<Rightarrow> Some (Inl (Assert_failed ''first_branch''))
         | Some p \<Rightarrow>
             (case lock_prev f b of
                None \<Rightarrow> Some (Inl (Assert_failed ''second_branch''))
              | Some q \<Rightarrow> climb_both f p q (as @ [a]) (bs @ [b])))
      else Some (Inr (as @ [a], bs @ [b])))"

declare climb.simps [code] and climb_both.simps [code]

definition fetch_branch_from ::
  "block_lib \<Rightarrow> fork_database \<Rightarrow> nat \<Rightarrow> nat \<Rightarrow> (nat list \<times> nat list) result option" where
  "fetch_branch_from B f first second =
     (case (fmlookup (index f) first, fmlookup (index f) second) of
        (Some a, Some b) \<Rightarrow>
          (case climb f (\<lambda>x. block_num B (item_data (item_at f b)) < block_num B (item_data x)) a [] of
             None \<Rightarrow> None
           | Some (Inl e) \<Rightarrow> Some (Inl e)
           | Some (Inr (a', as)) \<Rightarrow>
               (case climb f (\<lambda>x. block_num B (item_data (item_at f a')) < block_num B (item_data x)) b [] of
                  None \<Rightarrow> None
                | Some (Inl e) \<Rightarrow> Some (Inl e)
                | Some (Inr (b', bs)) \<Rightarrow> climb_both f a' b' as bs))
      | _ \<Rightarrow> Some (Inl (Assert_failed ''itr != _index.get<block_id>().end()'')))"

section \<open>Lemmas\<close>

subsection \<open>Well-formed trees\<close>

text \<open>
  The store is well-formed: the number and the id of an item are those of its block, an item points to
  an older item, that of the previous block, and then its number is positive; every address that is held
  somewhere is allocated.
\<close>

definition item_ok :: "block_lib \<Rightarrow> (nat, fork_item) fmap \<Rightarrow> nat \<Rightarrow> fork_item \<Rightarrow> bool" where
  "item_ok B its a x \<longleftrightarrow> item_num x = block_num B (item_data x) \<and> item_id x = block_id B (item_data x) \<and>
     (\<forall>p. item_prev x = Some p \<longrightarrow> p < a \<and> 0 < item_num x \<and> (\<exists>y. fmlookup its p = Some y \<and> item_id y = previous_id x))"

definition fork_ok :: "block_lib \<Rightarrow> fork_database \<Rightarrow> bool" where
  "fork_ok B f \<longleftrightarrow>
     (\<forall>a x. fmlookup (items f) a = Some x \<longrightarrow> a < next_address f \<and> item_ok B (items f) a x) \<and>
     (\<forall>i a. fmlookup (index f) i = Some a \<longrightarrow> (\<exists>x. fmlookup (items f) a = Some x \<and> item_id x = i)) \<and>
     (\<forall>h. fork_head f = Some h \<longrightarrow> h |\<in>| fmdom (items f)) \<and> unlinked_index f = fmempty"

text \<open>The head has the highest number of all blocks in the tree.\<close>

definition head_highest :: "fork_database \<Rightarrow> bool" where
  "head_highest f \<longleftrightarrow>
     (\<forall>i a. fmlookup (index f) i = Some a \<longrightarrow> (\<exists>h. fork_head f = Some h \<and> item_num (item_at f a) \<le> head_num f h))"

lemma fork_okD:
  assumes "fork_ok B f"
  shows "fmlookup (items f) a = Some x \<Longrightarrow> a < next_address f" and "fmlookup (items f) a = Some x \<Longrightarrow> item_ok B (items f) a x"
    and "fmlookup (index f) i = Some a \<Longrightarrow> \<exists>x. fmlookup (items f) a = Some x \<and> item_id x = i"
    and "fork_head f = Some h \<Longrightarrow> \<exists>x. fmlookup (items f) h = Some x" and "unlinked_index f = fmempty"
  using assms unfolding fork_ok_def by (auto simp: fmlookup_dom_iff)

lemma takeWhile_sorted:
  "sorted (map key xs) \<Longrightarrow> takeWhile (\<lambda>x. key x < n) xs = filter (\<lambda>x. key x < (n :: nat)) xs"
proof (induction xs)
  case (Cons x xs)
  then show ?case by (cases "key x < n") (auto simp: filter_empty_conv eq_commute [of "[]"])
qed simp

lemma set_by_number: "(i, a) \<in> set (by_number f m) \<longleftrightarrow> fmlookup m i = Some a"
  by (simp add: by_number_def set_sorted_list_of_fmap)

lemma fold_drop: "fmlookup (fold (\<lambda>(i, a). fmdrop i) ps m) j = (if j \<in> fst ` set ps then None else fmlookup m j)"
  by (induction ps arbitrary: m) (auto split: prod.splits)

text \<open>The loop that erases the front of the ordered index leaves exactly the blocks at or above the bound.\<close>

lemma erase_below_lookup:
  "fmlookup (erase_below f n m) i =
     (case fmlookup m i of None \<Rightarrow> None | Some a \<Rightarrow> if item_num (item_at f a) < n then None else Some a)"
proof -
  let ?key = "\<lambda>(i, a). item_num (item_at f a)"
  have "takeWhile (\<lambda>(i, a). item_num (item_at f a) < n) (by_number f m) = filter (\<lambda>p. ?key p < n) (by_number f m)"
    using takeWhile_sorted [of ?key "by_number f m" n] unfolding by_number_def by (simp add: split_def)
  then show ?thesis
    by (auto simp: erase_below_def fold_drop set_by_number image_iff split: option.splits)
qed

lemma erase_number_empty [simp]: "erase_number f n fmempty = fmempty" "erase_below f n fmempty = fmempty"
  by (auto intro!: fmap_ext simp: erase_number_def erase_below_def fold_drop)

lemma item_at_simps [simp]:
  "item_at (f\<lparr>index := x\<rparr>) a = item_at f a" "item_at (f\<lparr>unlinked_index := x\<rparr>) a = item_at f a"
  "item_at (f\<lparr>fork_head := h\<rparr>) a = item_at f a" "item_at (f\<lparr>fork_max_size := s\<rparr>) a = item_at f a"
  by (simp_all add: item_at_def)

lemma head_num_simps [simp]:
  "head_num (f\<lparr>index := x\<rparr>) a = head_num f a" "head_num (f\<lparr>unlinked_index := x\<rparr>) a = head_num f a"
  "head_num (f\<lparr>fork_head := h\<rparr>) a = head_num f a" "head_num (f\<lparr>fork_max_size := s\<rparr>) a = head_num f a"
  by (simp_all add: head_num_def)

text \<open>Dropping blocks from the index and moving the head to an allocated item keep the store well-formed.\<close>

lemma fork_ok_shrink:
  assumes "fork_ok B f" and "items f' = items f" and "next_address f' = next_address f" and "unlinked_index f' = fmempty"
    and "\<And>i a. fmlookup (index f') i = Some a \<Longrightarrow> fmlookup (index f) i = Some a"
    and "\<And>h. fork_head f' = Some h \<Longrightarrow> h |\<in>| fmdom (items f)"
  shows "fork_ok B f'"
  using assms unfolding fork_ok_def by metis

lemma lock_prev_prev: "lock_prev f a = Some p \<Longrightarrow> item_prev (item_at f a) = Some p \<and> alive f p"
  by (auto simp: lock_prev_def split: option.splits if_splits)

lemma num_from_id_less: "num_from_id B h < 2 ^ 32"
  unfolding num_from_id_def using unsigned_less [of "endian_reverse B (of_nat (hash_word 0 h))"] by simp

context block_laws
begin

lemma item_prev_older:
  assumes "fork_ok B f" and "a |\<in>| fmdom (items f)" and "item_prev (item_at f a) = Some p"
  shows "p < a" and "p |\<in>| fmdom (items f)" and "item_id (item_at f p) = previous_id (item_at f a)"
    and "item_num (item_at f a) = Suc (item_num (item_at f p))"
proof -
  from assms(2) obtain x where x: "fmlookup (items f) a = Some x" by (auto simp: fmlookup_dom_iff)
  then have i: "item_at f a = x" by (simp add: item_at_def)
  from fork_okD(2) [OF assms(1) x] assms(3) obtain y where p: "p < a" "0 < item_num x"
    and y: "fmlookup (items f) p = Some y" "item_id y = previous_id x" and num: "item_num x = block_num B (item_data x)"
    by (auto simp: item_ok_def i)
  from fork_okD(2) [OF assms(1) y(1)] have "item_id y = block_id B (item_data y)" "item_num y = block_num B (item_data y)"
    by (simp_all add: item_ok_def)
  then have "item_num y = num_from_id B (previous (item_data x))"
    using num_from_block_id [of "item_data y"] y(2) by (simp add: previous_id_def)
  moreover have "Suc (num_from_id B (previous (item_data x))) \<le> 2 ^ 32" using num_from_id_less by (simp add: Suc_le_eq)
  ultimately have "item_num x = Suc (item_num y)"
    using num p(2) by (cases "Suc (item_num y) = 2 ^ 32") (auto simp: block_num_def)
  with p y i show "p < a" "p |\<in>| fmdom (items f)" "item_id (item_at f p) = previous_id (item_at f a)"
    "item_num (item_at f a) = Suc (item_num (item_at f p))"
    by (simp_all add: item_at_def fmdomI)
qed

end

subsection \<open>The operations\<close>

lemma fmupd_twice: "fmupd a y (fmupd a x m) = fmupd a y m"
  by (rule fmap_ext) simp

lemma item_ok_mono:
  assumes "item_ok B its a x" and "\<And>p y. fmlookup its p = Some y \<Longrightarrow> \<exists>z. fmlookup its' p = Some z \<and> item_id z = item_id y"
  shows "item_ok B its' a x"
  unfolding item_ok_def
proof (intro conjI allI impI)
  fix p
  assume p: "item_prev x = Some p"
  with assms(1) obtain y where "fmlookup its p = Some y" "item_id y = previous_id x" by (auto simp: item_ok_def)
  with assms(2) [of p y] show "\<exists>z. fmlookup its' p = Some z \<and> item_id z = previous_id x" by auto
  show "p < a" "0 < item_num x" using assms(1) p by (simp_all add: item_ok_def)
qed (use assms(1) in \<open>simp_all add: item_ok_def\<close>)

lemma allocate_ok:
  assumes "fork_ok B f" and "allocate (new_item B b) f = (a, f')"
  shows "fork_ok B f'" and "a = next_address f" and "item_at f' a = new_item B b" and "a |\<notin>| fmdom (items f)"
    and "f' = f\<lparr>items := fmupd a (new_item B b) (items f), next_address := Suc a\<rparr>"
    and "\<And>c. c \<noteq> a \<Longrightarrow> item_at f' c = item_at f c"
proof -
  from assms(2) show a: "a = next_address f" and f': "f' = f\<lparr>items := fmupd a (new_item B b) (items f), next_address := Suc a\<rparr>"
    by (auto simp: allocate_def)
  show free: "a |\<notin>| fmdom (items f)"
  proof
    assume "a |\<in>| fmdom (items f)"
    then obtain x where "fmlookup (items f) a = Some x" by (auto simp: fmlookup_dom_iff)
    from fork_okD(1) [OF assms(1) this] show False by (simp add: a)
  qed
  show "item_at f' a = new_item B b" "\<And>c. c \<noteq> a \<Longrightarrow> item_at f' c = item_at f c" by (simp_all add: f' item_at_def)
  have new: "item_ok B its a (new_item B b)" for its by (simp add: item_ok_def new_item_def)
  have kept: "fmlookup (items f') c = Some x" if "fmlookup (items f) c = Some x" for c x
  proof -
    have "c \<noteq> a" using that free by (auto simp: fmlookup_dom_iff)
    with that show ?thesis by (simp add: f')
  qed
  have old: "item_ok B (items f') c x" if "fmlookup (items f) c = Some x" for c x
    by (rule item_ok_mono [OF fork_okD(2) [OF assms(1) that]]) (drule kept, simp)
  show "fork_ok B f'"
    unfolding fork_ok_def
  proof (intro conjI allI impI)
    fix c x
    assume x: "fmlookup (items f') c = Some x"
    show "c < next_address f'"
    proof (cases "c = a")
      case False
      with x have "fmlookup (items f) c = Some x" by (simp add: f')
      from fork_okD(1) [OF assms(1) this] show ?thesis by (simp add: f' a)
    qed (simp add: f')
    show "item_ok B (items f') c x"
    proof (cases "c = a")
      case True
      with x new show ?thesis by (simp add: f')
    next
      case False
      with x have "fmlookup (items f) c = Some x" by (simp add: f')
      then show ?thesis by (rule old)
    qed
  next
    fix i c
    assume "fmlookup (index f') i = Some c"
    then have "fmlookup (index f) i = Some c" by (simp add: f')
    from fork_okD(3) [OF assms(1) this] obtain x where x: "fmlookup (items f) c = Some x" "item_id x = i" by blast
    from kept [OF x(1)] x(2) show "\<exists>x. fmlookup (items f') c = Some x \<and> item_id x = i" by simp
  next
    fix h
    assume "fork_head f' = Some h"
    then have "fork_head f = Some h" by (simp add: f')
    from fork_okD(4) [OF assms(1) this] show "h |\<in>| fmdom (items f')" by (auto simp: f' fmlookup_dom_iff)
  qed (use fork_okD(5) [OF assms(1)] in \<open>simp add: f'\<close>)
qed

lemma index_insert_ok:
  assumes "fork_ok B f" and "a |\<in>| fmdom (items f)"
  shows "fork_ok B (index_insert a f)"
  using assms unfolding fork_ok_def index_insert_def Let_def by (auto simp: item_at_def fmlookup_dom_iff)

lemma index_insert_simps [simp]:
  "items (index_insert a f) = items f" "fork_head (index_insert a f) = fork_head f" "next_address (index_insert a f) = next_address f"
  "fork_max_size (index_insert a f) = fork_max_size f" "unlinked_index (index_insert a f) = unlinked_index f"
  "item_at (index_insert a f) c = item_at f c" "head_num (index_insert a f) h = head_num f h"
  "fmlookup (index (index_insert a f)) i = (case fmlookup (index f) i of Some c \<Rightarrow> Some c
     | None \<Rightarrow> if i = item_id (item_at f a) then Some a else None)"
  by (auto simp: index_insert_def Let_def head_num_def fmlookup_dom_iff split: option.splits)

lemma new_head_ok:
  assumes "fork_ok B f" and "a |\<in>| fmdom (items f)"
  shows "fork_ok B (new_head a f)"
proof (rule fork_ok_shrink [OF assms(1)])
  fix h
  show "fork_head (new_head a f) = Some h \<Longrightarrow> h |\<in>| fmdom (items f)"
    using assms fork_okD(4) [OF assms(1)]
    by (auto simp: new_head_def Let_def fmlookup_dom_iff split: option.splits if_splits)
  fix i c
  show "fmlookup (index (new_head a f)) i = Some c \<Longrightarrow> fmlookup (index f) i = Some c"
    by (auto simp: new_head_def Let_def erase_below_lookup split: option.splits if_splits)
qed (use fork_okD(5) [OF assms(1)] in \<open>simp_all add: new_head_def Let_def split: option.splits\<close>)

text \<open>Linking the newest item, which nothing points to yet.\<close>

lemma link_item_ok:
  assumes ok: "fork_ok B f" and link: "link_item a f = Inr f'" and x: "fmlookup (items f) a = Some x" "item_prev x = None"
    and new: "next_address f = Suc a" "\<And>i. fmlookup (index f) i \<noteq> Some a" and pos: "fork_head f \<noteq> None \<Longrightarrow> 0 < item_num x"
  shows "fork_ok B f'" and "\<exists>p. f' = f\<lparr>items := fmupd a (x\<lparr>item_prev := p\<rparr>) (items f)\<rparr> \<and>
    (fork_head f \<noteq> None \<and> previous_id x \<noteq> 0 \<longrightarrow> p \<noteq> None \<and> p = fmlookup (index f) (previous_id x))"
proof -
  have at: "item_at f a = x" using x by (simp add: item_at_def)
  have same: "fmupd a x (items f) = items f" using x by (intro fmap_ext) auto
  let ?link = "fork_head f \<noteq> None \<and> previous_id x \<noteq> 0"
  have "fork_ok B f' \<and> (\<exists>p. f' = f\<lparr>items := fmupd a (x\<lparr>item_prev := p\<rparr>) (items f)\<rparr> \<and>
      (?link \<longrightarrow> p \<noteq> None \<and> p = fmlookup (index f) (previous_id x)))"
  proof (cases ?link)
    case False
    with link at have "f' = f" by (simp add: link_item_def Let_def split: if_splits)
    moreover have "x\<lparr>item_prev := None\<rparr> = x" using x(2) by simp
    ultimately show ?thesis using False ok same by (intro conjI exI [of _ None]) simp_all
  next
    case True
    with link at obtain p where p: "fmlookup (index f) (previous_id x) = Some p"
      and f': "f' = f\<lparr>items := fmupd a (x\<lparr>item_prev := Some p\<rparr>) (items f)\<rparr>"
      by (auto simp: link_item_def Let_def split: option.splits)
    from fork_okD(3) [OF ok p] obtain y where y: "fmlookup (items f) p = Some y" "item_id y = previous_id x" by blast
    have pa: "p < a" using fork_okD(1) [OF ok y(1)] new p by (metis less_SucE)
    let ?x = "x\<lparr>item_prev := Some p\<rparr>"
    have kept: "\<exists>z'. fmlookup (items f') c = Some z' \<and> item_id z' = item_id z" if "fmlookup (items f) c = Some z" for c z
      using that x by (cases "c = a") (auto simp: f')
    have xok: "item_ok B (items f) a x" using fork_okD(2) [OF ok x(1)] .
    have "item_ok B (items f') a ?x"
      using xok pa pos True kept [OF y(1)] y(2) by (auto simp: item_ok_def previous_id_def)
    moreover have "item_ok B (items f') c z" if "fmlookup (items f) c = Some z" for c z
      by (rule item_ok_mono [OF fork_okD(2) [OF ok that]]) (rule kept)
    ultimately have its: "\<forall>c z. fmlookup (items f') c = Some z \<longrightarrow> c < next_address f' \<and> item_ok B (items f') c z"
      using fork_okD(1) [OF ok] new by (auto simp: f' split: if_splits)
    have "fork_ok B f'"
      unfolding fork_ok_def
    proof (intro conjI allI impI)
      fix i c
      assume "fmlookup (index f') i = Some c"
      then have "fmlookup (index f) i = Some c" by (simp add: f')
      from fork_okD(3) [OF ok this] kept show "\<exists>z. fmlookup (items f') c = Some z \<and> item_id z = i" by metis
    next
      fix h
      assume "fork_head f' = Some h"
      with fork_okD(4) [OF ok, of h] show "h |\<in>| fmdom (items f')" by (auto simp: f' fmdomI)
    qed (use its fork_okD(5) [OF ok] in \<open>simp_all add: f'\<close>)
    with f' p show ?thesis by auto
  qed
  then show "fork_ok B f'" and "\<exists>p. f' = f\<lparr>items := fmupd a (x\<lparr>item_prev := p\<rparr>) (items f)\<rparr> \<and>
    (?link \<longrightarrow> p \<noteq> None \<and> p = fmlookup (index f) (previous_id x))" by blast+
qed

text \<open>What a successful push did: the item was allocated, linked, inserted, and made the head if it is higher.\<close>

lemma push_block_cases:
  assumes ok: "fork_ok B f" and push: "push_block B b f = (Inr h, f')"
  obtains p f2 where "fork_ok B f2" and "f' = new_head (next_address f) (index_insert (next_address f) f2)" and "h = fork_head f'"
    and "f2 = f\<lparr>items := fmupd (next_address f) ((new_item B b)\<lparr>item_prev := p\<rparr>) (items f), next_address := Suc (next_address f)\<rparr>"
    and "fork_head f \<noteq> None \<and> previous b \<noteq> 0 \<longrightarrow> p \<noteq> None \<and> p = fmlookup (index f) (previous b)"
    and "\<And>h. fork_head f = Some h \<Longrightarrow> max 0 (int (head_num f h) - int (fork_max_size f)) < int (block_num B b)"
proof -
  let ?a = "next_address f"
  obtain a f1 where al: "allocate (new_item B b) f = (a, f1)" by (meson surj_pair)
  note A = allocate_ok [OF ok al]
  have a: "a = ?a" by (rule A(2))
  from push al obtain f2 where
    old: "case fork_head f1 of None \<Rightarrow> True | Some h \<Rightarrow> max 0 (int (head_num f1 h) - int (fork_max_size f1)) < int (item_num (item_at f1 a))"
    and l: "link_item a f1 = Inr f2" and f': "f' = new_head a (index_insert a f2)" and h: "h = fork_head f'"
    by (auto simp: push_block_def push_item_def split: option.splits sum.splits)
  have hn: "head_num f1 h = head_num f h" if "fork_head f = Some h" for h
  proof -
    from fork_okD(4) [OF ok that] A(4) have "h \<noteq> a" by (auto simp: fmlookup_dom_iff)
    then show ?thesis by (simp add: head_num_def A(6))
  qed
  have old': "max 0 (int (head_num f h) - int (fork_max_size f)) < int (block_num B b)" if "fork_head f = Some h" for h
    using old that hn [OF that] A(3,5) by (simp add: new_item_def)
  have "fmlookup (items f1) a = Some (new_item B b)" by (simp add: A(5))
  moreover have "item_prev (new_item B b) = None" by (simp add: new_item_def)
  moreover have "next_address f1 = Suc a" by (simp add: A(5))
  moreover have "fmlookup (index f1) i \<noteq> Some a" for i
    using fork_okD(3) [OF ok, of i a] A(4) by (auto simp: A(5) fmlookup_dom_iff)
  moreover have "0 < item_num (new_item B b)" if "fork_head f1 \<noteq> None"
    using old' that by (auto simp: A(5) new_item_def)
  ultimately have r: "fork_ok B f2" "\<exists>p. f2 = f1\<lparr>items := fmupd a ((new_item B b)\<lparr>item_prev := p\<rparr>) (items f1)\<rparr> \<and>
    (fork_head f1 \<noteq> None \<and> previous_id (new_item B b) \<noteq> 0 \<longrightarrow> p \<noteq> None \<and> p = fmlookup (index f1) (previous_id (new_item B b)))"
    using link_item_ok [OF A(1) l] by blast+
  then obtain p where p: "f2 = f1\<lparr>items := fmupd a ((new_item B b)\<lparr>item_prev := p\<rparr>) (items f1)\<rparr>"
    "fork_head f1 \<noteq> None \<and> previous_id (new_item B b) \<noteq> 0 \<longrightarrow> p \<noteq> None \<and> p = fmlookup (index f1) (previous_id (new_item B b))" by blast
  from p(1) have f2: "f2 = f\<lparr>items := fmupd a ((new_item B b)\<lparr>item_prev := p\<rparr>) (items f), next_address := Suc a\<rparr>" by (simp add: A(5) fmupd_twice)
  have pv: "fork_head f \<noteq> None \<and> previous b \<noteq> 0 \<longrightarrow> p \<noteq> None \<and> p = fmlookup (index f) (previous b)"
    using p(2) by (auto simp: A(5) previous_id_def new_item_def)
  show thesis using that [OF r(1) f' [unfolded a] h f2 [unfolded a] pv] old' by blast
qed

lemma push_block_fails: "push_block B b f = (Inl e, f') \<Longrightarrow> f' = f"
  by (auto simp: push_block_def split: prod.splits sum.splits)

text \<open>A block whose previous block is not known is refused.\<close>

lemma push_block_unlinked:
  assumes "fork_head f \<noteq> None" and "previous b \<noteq> 0" and "fmlookup (index f) (previous b) = None"
  shows "\<exists>e. push_block B b f = (Inl e, f)"
proof -
  obtain a f1 where al: "allocate (new_item B b) f = (a, f1)" by (meson surj_pair)
  then have "link_item a f1 = Inl (Thrown ''block does not link to known chain'')"
    using assms by (auto simp: allocate_def link_item_def item_at_def previous_id_def new_item_def)
  then show ?thesis
    by (cases "push_item a f1") (auto simp: push_block_def push_item_def al)
qed

lemma push_block_ok:
  assumes "fork_ok B f" and "push_block B b f = (Inr h, f')"
  shows "fork_ok B f'"
proof -
  from push_block_cases [OF assms] obtain p f2 where ok2: "fork_ok B f2"
    and f': "f' = new_head (next_address f) (index_insert (next_address f) f2)"
    and f2: "f2 = f\<lparr>items := fmupd (next_address f) ((new_item B b)\<lparr>item_prev := p\<rparr>) (items f), next_address := Suc (next_address f)\<rparr>"
    by metis
  have "next_address f |\<in>| fmdom (items f2)" by (simp add: f2)
  then show ?thesis unfolding f' by (intro new_head_ok index_insert_ok ok2) simp_all
qed

lemma start_block_ok:
  assumes "fork_ok B f"
  shows "fork_ok B (start_block B b f)"
proof -
  obtain a f1 where al: "allocate (new_item B b) f = (a, f1)" by (meson surj_pair)
  note A = allocate_ok [OF assms al]
  have a: "a |\<in>| fmdom (items f1)" by (simp add: A(5))
  have ok: "fork_ok B (index_insert a f1)" by (rule index_insert_ok [OF A(1) a])
  from al have eq: "start_block B b f = (index_insert a f1)\<lparr>fork_head := Some a\<rparr>" by (simp add: start_block_def)
  show ?thesis unfolding eq by (rule fork_ok_shrink [OF ok]) (use a fork_okD(5) [OF ok] in simp_all)
qed

text \<open>
  What the chain does with the tree: each operation, with any block, and the callers that come to hold
  items and drop them. A caller sets the head to an item that he got from the tree.
\<close>

inductive fork_step :: "block_lib \<Rightarrow> fork_database \<Rightarrow> fork_database \<Rightarrow> bool" for B where
  step_reset: "fork_step B f (reset f)"
| step_pop: "pop_head f = Inr f' \<Longrightarrow> fork_step B f f'"
| step_start: "fork_step B f (start_block B b f)"
| step_push: "push_block B b f = (r, f') \<Longrightarrow> fork_step B f f'"
| step_max_size: "fork_step B f (set_max_size s f)"
| step_set_head: "a |\<in>| fmdom (items f) \<Longrightarrow> fork_step B f (set_head a f)"
| step_remove: "fork_step B f (remove_block i f)"
| step_hold: "fork_step B f (f\<lparr>pinned := as\<rparr>)"

definition empty_fork_database :: fork_database where
  "empty_fork_database = \<lparr>items = fmempty, next_address = 0, index = fmempty, unlinked_index = fmempty,
     fork_head = None, fork_max_size = 1024, pinned = {||}\<rparr>"

definition fork_run :: "block_lib \<Rightarrow> fork_database \<Rightarrow> bool" where
  "fork_run B f \<longleftrightarrow> (fork_step B)\<^sup>*\<^sup>* empty_fork_database f"

lemma fork_step_ok:
  assumes "fork_step B f f'" and "fork_ok B f"
  shows "fork_ok B f'"
  using assms(1)
proof cases
  case step_pop
  then obtain h p where h: "fork_head f = Some h" and p: "lock_prev f h = Some p" and f': "f' = f\<lparr>fork_head := Some p\<rparr>"
    by (auto simp: pop_head_def split: option.splits)
  from fork_okD(4) [OF assms(2) h] obtain x where x: "fmlookup (items f) h = Some x" by blast
  from lock_prev_prev [OF p] fork_okD(2) [OF assms(2) x] x have "p |\<in>| fmdom (items f)"
    by (auto simp: item_ok_def item_at_def fmdomI)
  then show ?thesis unfolding f' by (intro fork_ok_shrink [OF assms(2)]) (use fork_okD(5) [OF assms(2)] in simp_all)
next
  case (step_max_size s)
  show ?thesis
  proof (rule fork_ok_shrink [OF assms(2)])
    fix i a
    show "fmlookup (index f') i = Some a \<Longrightarrow> fmlookup (index f) i = Some a"
      by (auto simp: step_max_size set_max_size_def Let_def erase_below_lookup split: option.splits if_splits)
    fix h
    show "fork_head f' = Some h \<Longrightarrow> h |\<in>| fmdom (items f)"
      using fork_okD(4) [OF assms(2), of h]
      by (auto simp: step_max_size set_max_size_def Let_def fmdomI split: option.splits)
  qed (use fork_okD(5) [OF assms(2)] in \<open>simp_all add: step_max_size set_max_size_def Let_def split: option.splits\<close>)
next
  case (step_push b r)
  show ?thesis
  proof (cases r)
    case (Inl e)
    then show ?thesis using push_block_fails [of B b f e f'] step_push assms(2) by simp
  next
    case (Inr h)
    then show ?thesis using push_block_ok [OF assms(2)] step_push by simp
  qed
qed (use assms(2) start_block_ok [OF assms(2)] in \<open>auto simp: fork_ok_def reset_def set_head_def remove_block_def fmlookup_dom_iff split: if_splits\<close>)

lemma fork_run_ok:
  assumes "fork_run B f"
  shows "fork_ok B f"
  using assms unfolding fork_run_def
proof induction
  case base
  show ?case by (simp add: fork_ok_def empty_fork_database_def)
qed (rule fork_step_ok)

text \<open>The tree after a push: what it holds, at which numbers, and which item is the head.\<close>

lemma push_block_effect:
  assumes ok: "fork_ok B f" and push: "push_block B b f = (Inr h, f')"
  shows "h = fork_head f'"
    and "item_num (item_at f' (next_address f)) = block_num B b" and "item_id (item_at f' (next_address f)) = block_id B b"
    and "\<And>c. c |\<in>| fmdom (items f) \<Longrightarrow> c \<noteq> next_address f \<and> item_at f' c = item_at f c"
    and "fork_head f' = (case fork_head f of None \<Rightarrow> Some (next_address f) | Some g \<Rightarrow> if head_num f g < block_num B b then Some (next_address f) else Some g)"
    and "\<And>i. fmlookup (index f') i =
      (case (case fmlookup (index f) i of Some c \<Rightarrow> Some c | None \<Rightarrow> if i = block_id B b then Some (next_address f) else None) of
         None \<Rightarrow> None
       | Some c \<Rightarrow>
           if (\<exists>g. fork_head f = Some g \<and> head_num f g < block_num B b) \<and>
              item_num (item_at f' c) < block_num B b - min (fork_max_size f) (block_num B b)
           then None else Some c)"
    and "fork_head f \<noteq> None \<and> previous b \<noteq> 0 \<longrightarrow> previous b |\<in>| fmdom (index f)"
proof -
  from push_block_cases [OF assms] obtain p f2 where
    f': "f' = new_head (next_address f) (index_insert (next_address f) f2)" and h: "h = fork_head f'"
    and f2: "f2 = f\<lparr>items := fmupd (next_address f) ((new_item B b)\<lparr>item_prev := p\<rparr>) (items f), next_address := Suc (next_address f)\<rparr>"
    and p: "fork_head f \<noteq> None \<and> previous b \<noteq> 0 \<longrightarrow> p \<noteq> None \<and> p = fmlookup (index f) (previous b)"
    by metis
  let ?a = "next_address f"
  have at: "item_at f' c = item_at f2 c" for c by (simp add: f' new_head_def Let_def split: option.splits)
  have new: "item_num (item_at f2 ?a) = block_num B b" "item_id (item_at f2 ?a) = block_id B b"
    by (simp_all add: f2 item_at_def new_item_def)
  have other: "c \<noteq> ?a \<and> item_at f2 c = item_at f c" if "c |\<in>| fmdom (items f)" for c
  proof -
    from that obtain x where "fmlookup (items f) c = Some x" by (auto simp: fmlookup_dom_iff)
    from fork_okD(1) [OF ok this] show ?thesis by (simp add: f2 item_at_def)
  qed
  have head: "head_num f2 g = head_num f g" if "fork_head f = Some g" for g
  proof -
    from fork_okD(4) [OF ok that] have "g |\<in>| fmdom (items f)" by (auto simp: fmlookup_dom_iff)
    from other [OF this] show ?thesis by (simp add: head_num_def)
  qed
  have f2s: "fork_head f2 = fork_head f" "index f2 = index f" "fork_max_size f2 = fork_max_size f" by (simp_all add: f2)
  show "fork_head f' = (case fork_head f of None \<Rightarrow> Some ?a | Some g \<Rightarrow> if head_num f g < block_num B b then Some ?a else Some g)"
    by (simp add: f' new_head_def Let_def f2s head new split: option.splits)
  show "fmlookup (index f') i =
    (case (case fmlookup (index f) i of Some c \<Rightarrow> Some c | None \<Rightarrow> if i = block_id B b then Some ?a else None) of
       None \<Rightarrow> None
     | Some c \<Rightarrow>
         if (\<exists>g. fork_head f = Some g \<and> head_num f g < block_num B b) \<and>
            item_num (item_at f' c) < block_num B b - min (fork_max_size f) (block_num B b)
         then None else Some c)" for i
  proof (cases "fork_head f")
    case None
    then have "index f' = index (index_insert ?a f2)" by (simp add: f' new_head_def f2s)
    then show ?thesis by (simp add: None f2s new split: option.split)
  next
    case (Some g)
    show ?thesis
    proof (cases "head_num f g < block_num B b")
      case False
      then have "index f' = index (index_insert ?a f2)" by (simp add: f' new_head_def f2s Some head new)
      then show ?thesis by (simp add: Some False f2s new split: option.split)
    next
      case True
      let ?f3 = "(index_insert ?a f2)\<lparr>fork_head := Some ?a\<rparr>"
      have "index f' = erase_below ?f3 (block_num B b - min (fork_max_size f) (block_num B b)) (index (index_insert ?a f2))"
        by (simp add: f' new_head_def f2s Some head new True Let_def)
      then show ?thesis unfolding at by (simp add: Some True erase_below_lookup f2s new split: option.split)
    qed
  qed
  show "fork_head f \<noteq> None \<and> previous b \<noteq> 0 \<longrightarrow> previous b |\<in>| fmdom (index f)"
    using p by (auto simp: fmlookup_dom_iff)
  show "h = fork_head f'" "item_num (item_at f' ?a) = block_num B b" "item_id (item_at f' ?a) = block_id B b"
    "\<And>c. c |\<in>| fmdom (items f) \<Longrightarrow> c \<noteq> ?a \<and> item_at f' c = item_at f c"
    using h new other at by simp_all
qed

lemma index_item:
  assumes "fork_ok B f" and "fmlookup (index f) i = Some c"
  shows "c |\<in>| fmdom (items f)" and "item_id (item_at f c) = i" and "item_num (item_at f c) = block_num B (item_data (item_at f c))"
    and "block_id B (item_data (item_at f c)) = i"
proof -
  from fork_okD(3) [OF assms] obtain x where x: "fmlookup (items f) c = Some x" "item_id x = i" by blast
  from fork_okD(2) [OF assms(1) x(1)] x show "c |\<in>| fmdom (items f)" "item_id (item_at f c) = i"
    "item_num (item_at f c) = block_num B (item_data (item_at f c))" "block_id B (item_data (item_at f c)) = i"
    by (auto simp: item_ok_def item_at_def fmdomI)
qed

lemma index_item_num:
  assumes "block_laws B" and "fork_ok B f" and "fmlookup (index f) (block_id B (b :: signed_block)) = Some c"
  shows "item_num (item_at f c) = block_num B b"
proof -
  note I = index_item [OF assms(2,3)]
  have "num_from_id B (block_id B (item_data (item_at f c))) = block_num B (item_data (item_at f c))"
    by (rule block_laws.num_from_block_id [OF assms(1)])
  with I(3,4) block_laws.num_from_block_id [OF assms(1), of b] show ?thesis by simp
qed

lemma push_block_head:
  assumes "block_laws B" and ok: "fork_ok B f" and "head_highest f" and push: "push_block B b f = (Inr h, f')"
  shows "\<exists>g. h = Some g \<and> fork_head f' = Some g \<and>
      head_num f' g = max (block_num B b) (case fork_head f of None \<Rightarrow> 0 | Some g \<Rightarrow> head_num f g)"
    and "head_highest f'" and "block_id B b |\<in>| fmdom (index f')"
    and "\<And>i. i |\<in>| fmdom (index f) \<Longrightarrow> block_num B b \<le> item_num (item_at f (the (fmlookup (index f) i))) + fork_max_size f \<Longrightarrow>
      i |\<in>| fmdom (index f')"
proof -
  let ?a = "next_address f"
  note push = push_block_effect [OF ok push]
  note a = push(1-3) and old = push(4) and head = push(5) and index = push(6)
  have window: "\<not> block_num B b < block_num B b - min (fork_max_size f) (block_num B b)" by simp
  have g: "head_num f' g = head_num f g" if "fork_head f = Some g" for g
  proof -
    from fork_okD(4) [OF ok that] have "g |\<in>| fmdom (items f)" by (auto simp: fmlookup_dom_iff)
    from old [OF this] show ?thesis by (simp add: head_num_def)
  qed
  show top: "\<exists>g. h = Some g \<and> fork_head f' = Some g \<and>
      head_num f' g = max (block_num B b) (case fork_head f of None \<Rightarrow> 0 | Some g \<Rightarrow> head_num f g)"
    using head a g by (cases "fork_head f") (auto simp: head_num_def)
  have item: "item_at f' c = item_at f c" if "fmlookup (index f) i = Some c" for c i
    using old [OF index_item(1) [OF ok that]] by simp
  show "head_highest f'"
    unfolding head_highest_def
  proof (intro allI impI)
    fix i c
    assume "fmlookup (index f') i = Some c"
    then consider "c = ?a" | "fmlookup (index f) i = Some c" by (auto simp: index split: option.splits if_splits)
    then have "item_num (item_at f' c) \<le> max (block_num B b) (case fork_head f of None \<Rightarrow> 0 | Some g \<Rightarrow> head_num f g)"
    proof cases
      case 2
      with assms(3) obtain g where "fork_head f = Some g" "item_num (item_at f c) \<le> head_num f g" by (auto simp: head_highest_def)
      with item [OF 2] show ?thesis by simp
    qed (simp add: a)
    with top show "\<exists>h. fork_head f' = Some h \<and> item_num (item_at f' c) \<le> head_num f' h" by auto
  qed
  show "block_id B b |\<in>| fmdom (index f')"
  proof (cases "fmlookup (index f) (block_id B b)")
    case (Some c)
    have "item_num (item_at f' c) = block_num B b" using index_item_num [OF assms(1) ok Some] item [OF Some] by simp
    then show ?thesis using window by (simp add: fmlookup_dom_iff index Some)
  qed (use window in \<open>simp add: fmlookup_dom_iff index a\<close>)
  fix i
  assume "i |\<in>| fmdom (index f)" and w: "block_num B b \<le> item_num (item_at f (the (fmlookup (index f) i))) + fork_max_size f"
  then obtain c where c: "fmlookup (index f) i = Some c" by (auto simp: fmlookup_dom_iff)
  have "\<not> item_num (item_at f' c) < block_num B b - min (fork_max_size f) (block_num B b)" using w c item [OF c] by auto
  then show "i |\<in>| fmdom (index f')" by (simp add: fmlookup_dom_iff index c)
qed

subsection \<open>Branches\<close>

text \<open>The items \<open>l\<close> lead from the item \<open>a\<close> back to the item \<open>c\<close>, each by its weak pointer.\<close>

fun path :: "fork_database \<Rightarrow> nat \<Rightarrow> nat list \<Rightarrow> nat \<Rightarrow> bool" where
  "path f a [] c \<longleftrightarrow> a = c"
| "path f a (x # l) c \<longleftrightarrow> x = a \<and> (case lock_prev f a of None \<Rightarrow> False | Some p \<Rightarrow> path f p l c)"

lemma path_append: "path f a (l @ m) c \<longleftrightarrow> (\<exists>d. path f a l d \<and> path f d m c)"
  by (induction l arbitrary: a) (auto split: option.splits)

context block_laws
begin

lemma lock_prev_older:
  assumes "fork_ok B f" and "a |\<in>| fmdom (items f)" and "lock_prev f a = Some p"
  shows "p < a" and "p |\<in>| fmdom (items f)" and "item_num (item_at f a) = Suc (item_num (item_at f p))"
  using item_prev_older [OF assms(1,2)] lock_prev_prev [OF assms(3)] by blast+

lemma path_level:
  assumes "fork_ok B f" and "a |\<in>| fmdom (items f)" and "path f a l c"
  shows "c |\<in>| fmdom (items f) \<and> item_num (item_at f a) = length l + item_num (item_at f c) \<and>
    (\<forall>i < length l. item_num (item_at f (l ! i)) + i = item_num (item_at f a))"
  using assms(2,3)
proof (induction l arbitrary: a)
  case (Cons x l)
  then obtain p where x: "x = a" and p: "lock_prev f a = Some p" and l: "path f p l c" by (auto split: option.splits)
  note P = lock_prev_older [OF assms(1) Cons.prems(1) p]
  from Cons.IH [OF P(2) l] P(3) show ?case by (auto simp: x nth_Cons split: nat.split)
qed simp

text \<open>Climbing down to a number: the loop ends, and it passes the weak pointers down to a common ancestor.\<close>

lemma climb_spec:
  assumes "fork_ok B f" and "a |\<in>| fmdom (items f)"
    and higher: "\<And>a. a |\<in>| fmdom (items f) \<Longrightarrow> higher (item_at f a) \<longleftrightarrow> n < item_num (item_at f a)"
  shows "\<exists>r. climb f higher a br = Some r \<and>
    (\<forall>d br'. r = Inr (d, br') \<longrightarrow>
      (\<exists>l. br' = br @ l \<and> path f a l d \<and> item_num (item_at f d) \<le> n \<and> (\<forall>x \<in> set l. n < item_num (item_at f x)))) \<and>
    (\<forall>m c. path f a m c \<and> item_num (item_at f c) \<le> n \<longrightarrow> (\<exists>d br' m'. r = Inr (d, br') \<and> path f d m' c))"
  using assms(2)
proof (induction a arbitrary: br rule: less_induct)
  case (less a)
  show ?case
  proof (cases "n < item_num (item_at f a)")
    case False
    then have "climb f higher a br = Some (Inr (a, br))" using higher [OF less.prems] by (simp add: climb.simps)
    with False show ?thesis by auto
  next
    case True
    have start: "\<exists>p. lock_prev f a = Some p \<and> (\<exists>m'. path f p m' c)" if "path f a m c" "item_num (item_at f c) \<le> n" for m c
      using that True by (cases m) (auto split: option.splits)
    show ?thesis
    proof (cases "lock_prev f a")
      case None
      then have "climb f higher a br = Some (Inl (Assert_failed ''first_branch''))" using True higher [OF less.prems] by (simp add: climb.simps)
      with start None show ?thesis by fastforce
    next
      case (Some p)
      note P = lock_prev_older [OF assms(1) less.prems Some]
      from less.IH [OF P(1,2), of "br @ [a]"] obtain r where
        r: "climb f higher p (br @ [a]) = Some r"
        and down: "\<forall>d br'. r = Inr (d, br') \<longrightarrow>
          (\<exists>l. br' = (br @ [a]) @ l \<and> path f p l d \<and> item_num (item_at f d) \<le> n \<and> (\<forall>x \<in> set l. n < item_num (item_at f x)))"
        and reach: "\<forall>m c. path f p m c \<and> item_num (item_at f c) \<le> n \<longrightarrow> (\<exists>d br' m'. r = Inr (d, br') \<and> path f d m' c)"
        by (elim exE conjE) (rule that)
      show ?thesis
      proof (intro exI [of _ r] conjI allI impI)
        show "climb f higher a br = Some r" using r True higher [OF less.prems] Some by (simp add: climb.simps [of f _ a])
      next
        fix d br'
        assume "r = Inr (d, br')"
        from down [rule_format, OF this] obtain l where l: "br' = (br @ [a]) @ l" "path f p l d" "item_num (item_at f d) \<le> n"
          "\<forall>x \<in> set l. n < item_num (item_at f x)" by blast
        then show "\<exists>l. br' = br @ l \<and> path f a l d \<and> item_num (item_at f d) \<le> n \<and> (\<forall>x \<in> set l. n < item_num (item_at f x))"
          using True Some by (intro exI [of _ "a # l"]) simp
      next
        fix m c
        assume c: "path f a m c \<and> item_num (item_at f c) \<le> n"
        with start [of m c] Some obtain m' where "path f p m' c" by auto
        with c reach [rule_format, of m' c] show "\<exists>d br' m'. r = Inr (d, br') \<and> path f d m' c" by blast
      qed
    qed
  qed
qed

end

context block_laws
begin

text \<open>Climbing down from two blocks of one number: the loop ends at two blocks with the same previous block.\<close>

lemma climb_both_spec:
  assumes "fork_ok B f" and "a |\<in>| fmdom (items f)" and "b |\<in>| fmdom (items f)" and "item_num (item_at f a) = item_num (item_at f b)"
  shows "\<exists>r. climb_both f a b as bs = Some r \<and>
    (\<forall>as' bs'. r = Inr (as', bs') \<longrightarrow>
      (\<exists>l m c d. as' = as @ l @ [c] \<and> bs' = bs @ m @ [d] \<and> path f a l c \<and> path f b m d \<and> length l = length m \<and>
        previous_id (item_at f c) = previous_id (item_at f d) \<and> (\<forall>i < length l. l ! i \<noteq> m ! i))) \<and>
    (\<forall>k m c. path f a k c \<and> path f b m c \<longrightarrow> (\<exists>x. r = Inr x))"
  using assms(2-)
proof (induction a arbitrary: b as bs rule: less_induct)
  case (less a)
  show ?case
  proof (cases "previous_id (item_at f a) = previous_id (item_at f b)")
    case True
    then have "climb_both f a b as bs = Some (Inr (as @ [a], bs @ [b]))" by (simp add: climb_both.simps)
    moreover have "\<exists>l m c d. as @ [a] = as @ l @ [c] \<and> bs @ [b] = bs @ m @ [d] \<and> path f a l c \<and> path f b m d \<and> length l = length m \<and>
        previous_id (item_at f c) = previous_id (item_at f d) \<and> (\<forall>i < length l. l ! i \<noteq> m ! i)"
      using True by (intro exI [of _ "[]"] exI [of _ a] exI [of _ b]) simp
    ultimately show ?thesis by simp
  next
    case False
    have start: "\<exists>p q k' m'. lock_prev f a = Some p \<and> lock_prev f b = Some q \<and> path f p k' c \<and> path f q m' c"
      if "path f a k c" "path f b m c" for k m c
    proof -
      have "length k = length m"
        using path_level [OF assms(1) less.prems(1) that(1)] path_level [OF assms(1) less.prems(2) that(2)] less.prems(3) by simp
      with that False show ?thesis by (cases k; cases m) (auto split: option.splits)
    qed
    show ?thesis
    proof (cases "lock_prev f a = None \<or> lock_prev f b = None")
      case True
      then obtain e where "climb_both f a b as bs = Some (Inl e)" using False
        by (cases "lock_prev f a") (auto simp: climb_both.simps)
      moreover have "\<not> (path f a k c \<and> path f b m c)" for k m c using start [of k c m] True by auto
      ultimately show ?thesis by simp
    next
      case more: False
      then obtain p q where p: "lock_prev f a = Some p" and q: "lock_prev f b = Some q" by auto
      note P = lock_prev_older [OF assms(1) less.prems(1) p] and Q = lock_prev_older [OF assms(1) less.prems(2) q]
      have num: "item_num (item_at f p) = item_num (item_at f q)" using less.prems(3) P(3) Q(3) by simp
      from less.IH [OF P(1,2) Q(2) num, of "as @ [a]" "bs @ [b]"] obtain r where
        r: "climb_both f p q (as @ [a]) (bs @ [b]) = Some r"
        and down: "\<forall>as' bs'. r = Inr (as', bs') \<longrightarrow>
          (\<exists>l m c d. as' = (as @ [a]) @ l @ [c] \<and> bs' = (bs @ [b]) @ m @ [d] \<and> path f p l c \<and> path f q m d \<and> length l = length m \<and>
            previous_id (item_at f c) = previous_id (item_at f d) \<and> (\<forall>i < length l. l ! i \<noteq> m ! i))"
        and reach: "\<forall>k m c. path f p k c \<and> path f q m c \<longrightarrow> (\<exists>x. r = Inr x)"
        by (elim exE conjE) (rule that)
      show ?thesis
      proof (intro exI [of _ r] conjI allI impI)
        show "climb_both f a b as bs = Some r" using r False p q by (simp add: climb_both.simps [of f a])
      next
        fix as' bs'
        assume "r = Inr (as', bs')"
        from down [rule_format, OF this] obtain l m c d where
          l: "as' = (as @ [a]) @ l @ [c]" "bs' = (bs @ [b]) @ m @ [d]" "path f p l c" "path f q m d" "length l = length m"
            "previous_id (item_at f c) = previous_id (item_at f d)" "\<forall>i < length l. l ! i \<noteq> m ! i"
          by (elim exE conjE) (rule that)
        have "a \<noteq> b" using False by auto
        then have "\<forall>i < length (a # l). (a # l) ! i \<noteq> (b # m) ! i" using l(5,7) by (auto simp: nth_Cons split: nat.split)
        then show "\<exists>l m c d. as' = as @ l @ [c] \<and> bs' = bs @ m @ [d] \<and> path f a l c \<and> path f b m d \<and> length l = length m \<and>
            previous_id (item_at f c) = previous_id (item_at f d) \<and> (\<forall>i < length l. l ! i \<noteq> m ! i)"
          using l(1-6) p q by (intro exI [of _ "a # l"] exI [of _ "b # m"] exI [of _ c] exI [of _ d]) simp
      next
        fix k m c
        assume "path f a k c \<and> path f b m c"
        with start [of k c m] p q obtain k' m' where "path f p k' c" "path f q m' c" by auto
        with reach show "\<exists>x. r = Inr x" by blast
      qed
    qed
  qed
qed

end

context block_laws
begin

lemma climb_level:
  assumes "fork_ok B f" and "a |\<in>| fmdom (items f)" and "path f a l d" and "item_num (item_at f d) \<le> n"
    and "\<forall>x \<in> set l. n < item_num (item_at f x)"
  shows "item_num (item_at f d) = min n (item_num (item_at f a))"
proof (cases l rule: rev_cases)
  case (snoc l' x)
  note L = path_level [OF assms(1-3)]
  from L snoc have "item_num (item_at f x) + length l' = item_num (item_at f a)" by (auto dest: spec [of _ "length l'"])
  with L snoc assms(4,5) show ?thesis by auto
qed (use assms in auto)

lemma path_above: "fork_ok B f \<Longrightarrow> a |\<in>| fmdom (items f) \<Longrightarrow> path f a l c \<Longrightarrow> x \<in> set l \<Longrightarrow>
    item_num (item_at f c) < item_num (item_at f x) \<and> item_num (item_at f x) \<le> item_num (item_at f a)"
  using path_level [of f a l c] by (fastforce simp: in_set_conv_nth)

text \<open>Two paths that climb to one number and go on side by side over different items share no item.\<close>

lemma paths_disjoint:
  assumes ok: "fork_ok B f" "a |\<in>| fmdom (items f)" "b |\<in>| fmdom (items f)"
    and first: "path f a l1 a'" "path f b m1 b'" and num: "item_num (item_at f a') = min (item_num (item_at f a)) (item_num (item_at f b))"
      "item_num (item_at f b') = item_num (item_at f a')"
    and second: "path f a' l2 c" "path f b' m2 d" "length l2 = length m2" "\<forall>i < length l2. l2 ! i \<noteq> m2 ! i"
  shows "set (l1 @ l2) \<inter> set (m1 @ m2) = {}" and "d \<notin> set (l1 @ l2)" and "c \<notin> set (m1 @ m2)"
    and "item_num (item_at f c) = item_num (item_at f d)"
proof -
  have dom: "a' |\<in>| fmdom (items f)" "b' |\<in>| fmdom (items f)"
    using path_level [OF ok(1,2) first(1)] path_level [OF ok(1,3) first(2)] by simp_all
  note A = path_level [OF ok(1) dom(1) second(1)] and B = path_level [OF ok(1) dom(2) second(2)]
  show cd: "item_num (item_at f c) = item_num (item_at f d)" using A B num(2) second(3) by simp
  have whole: "path f a (l1 @ l2) c" "path f b (m1 @ m2) d" using first second by (auto simp: path_append)
  show "d \<notin> set (l1 @ l2)" "c \<notin> set (m1 @ m2)"
    using path_above [OF ok(1,2) whole(1)] path_above [OF ok(1,3) whole(2)] cd by fastforce+
  have "item_num (item_at f a) = length l1 + item_num (item_at f a')" "item_num (item_at f b) = length m1 + item_num (item_at f b')"
    using path_level [OF ok(1,2) first(1)] path_level [OF ok(1,3) first(2)] by simp_all
  with num have "length l1 = 0 \<or> length m1 = 0" by linarith
  then have "l1 = [] \<or> m1 = []" by simp
  moreover have "x \<notin> set l2 \<inter> set m2" for x
  proof
    assume "x \<in> set l2 \<inter> set m2"
    then obtain i j where i: "i < length l2" "l2 ! i = x" and j: "j < length m2" "m2 ! j = x" by (auto simp: in_set_conv_nth)
    with A B num(2) have "i = j" by (metis add_left_cancel)
    with i j second(4) show False by auto
  qed
  moreover have "x \<notin> set l1 \<inter> set m2" "x \<notin> set l2 \<inter> set m1" for x
    using path_above [OF ok(1,2) first(1), of x] path_above [OF ok(1,3) first(2), of x]
      path_above [OF ok(1) dom(1) second(1), of x] path_above [OF ok(1) dom(2) second(2), of x] num(2) by auto
  ultimately show "set (l1 @ l2) \<inter> set (m1 @ m2) = {}" by auto
qed

end

context block_laws
begin

lemma climb_to:
  assumes ok: "fork_ok B f" and a: "a |\<in>| fmdom (items f)" and b: "b |\<in>| fmdom (items f)"
  obtains r where "climb f (\<lambda>x. block_num B (item_data (item_at f b)) < block_num B (item_data x)) a [] = Some r"
    and "\<forall>d l. r = Inr (d, l) \<longrightarrow> path f a l d \<and> item_num (item_at f d) = min (item_num (item_at f a)) (item_num (item_at f b))"
    and "\<forall>k m c. path f a k c \<and> path f b m c \<longrightarrow> (\<exists>d l k'. r = Inr (d, l) \<and> path f d k' c)"
proof -
  let ?h = "\<lambda>x. block_num B (item_data (item_at f b)) < block_num B (item_data x)"
  have num: "item_num (item_at f c) = block_num B (item_data (item_at f c))" if "c |\<in>| fmdom (items f)" for c
    using that fork_okD(2) [OF ok, of c] by (auto simp: fmlookup_dom_iff item_ok_def item_at_def)
  have h: "?h (item_at f c) \<longleftrightarrow> item_num (item_at f b) < item_num (item_at f c)" if "c |\<in>| fmdom (items f)" for c
    using that b by (simp add: num)
  from climb_spec [OF ok a h, of "[]"] obtain r where r: "climb f ?h a [] = Some r"
    and down: "\<forall>d br'. r = Inr (d, br') \<longrightarrow>
      (\<exists>l. br' = [] @ l \<and> path f a l d \<and> item_num (item_at f d) \<le> item_num (item_at f b) \<and> (\<forall>x \<in> set l. item_num (item_at f b) < item_num (item_at f x)))"
    and reach: "\<forall>m c. path f a m c \<and> item_num (item_at f c) \<le> item_num (item_at f b) \<longrightarrow> (\<exists>d br' m'. r = Inr (d, br') \<and> path f d m' c)"
    by (elim meta_impE exE conjE) (simp, rule that)
  show thesis
  proof (rule that [OF r]; intro allI impI)
    fix d l
    assume "r = Inr (d, l)"
    from down [rule_format, OF this] have l: "path f a l d" "item_num (item_at f d) \<le> item_num (item_at f b)"
      "\<forall>x \<in> set l. item_num (item_at f b) < item_num (item_at f x)" by auto
    from climb_level [OF ok a l] l(1)
    show "path f a l d \<and> item_num (item_at f d) = min (item_num (item_at f a)) (item_num (item_at f b))" by (simp add: min.commute)
  next
    fix k m c
    assume c: "path f a k c \<and> path f b m c"
    then have "item_num (item_at f c) \<le> item_num (item_at f b)" using path_level [OF ok b, of m c] by simp
    with c reach [rule_format, of k c] show "\<exists>d l k'. r = Inr (d, l) \<and> path f d k' c" by blast
  qed
qed

lemma fetch_branch_spec:
  assumes ok: "fork_ok B f" and a: "fmlookup (index f) first = Some a" and b: "fmlookup (index f) second = Some b"
  shows "\<exists>r. fetch_branch_from B f first second = Some r \<and>
    (\<forall>as bs. r = Inr (as, bs) \<longrightarrow>
      as \<noteq> [] \<and> bs \<noteq> [] \<and> path f a (butlast as) (last as) \<and> path f b (butlast bs) (last bs) \<and>
      previous_id (item_at f (last as)) = previous_id (item_at f (last bs)) \<and>
      item_num (item_at f (last as)) = item_num (item_at f (last bs)) \<and>
      set (butlast as) \<inter> set bs = {} \<and> set as \<inter> set (butlast bs) = {}) \<and>
    (\<forall>k m c. path f a k c \<and> path f b m c \<longrightarrow> (\<exists>x. r = Inr x))"
proof -
  let ?h = "\<lambda>b x. block_num B (item_data (item_at f b)) < block_num B (item_data x)"
  note ia = index_item(1) [OF ok a] and ib = index_item(1) [OF ok b]
  obtain r1 where r1: "climb f (?h b) a [] = Some r1"
    and d1: "\<forall>d l. r1 = Inr (d, l) \<longrightarrow> path f a l d \<and> item_num (item_at f d) = min (item_num (item_at f a)) (item_num (item_at f b))"
    and c1: "\<forall>k m c. path f a k c \<and> path f b m c \<longrightarrow> (\<exists>d l k'. r1 = Inr (d, l) \<and> path f d k' c)"
    by (rule climb_to [OF ok ia ib])
  show ?thesis
  proof (cases r1)
    case (Inl e)
    then have "fetch_branch_from B f first second = Some (Inl e)" using r1 a b by (simp add: fetch_branch_from_def)
    with c1 Inl show ?thesis by simp
  next
    case (Inr s1)
    then obtain a' l1 where s1: "r1 = Inr (a', l1)" by (cases s1) auto
    from d1 [rule_format, OF this] have l1: "path f a l1 a'"
      and na: "item_num (item_at f a') = min (item_num (item_at f a)) (item_num (item_at f b))" by simp_all
    have ia': "a' |\<in>| fmdom (items f)" using path_level [OF ok ia l1] by simp
    obtain r2 where r2: "climb f (?h a') b [] = Some r2"
      and d2: "\<forall>d l. r2 = Inr (d, l) \<longrightarrow> path f b l d \<and> item_num (item_at f d) = min (item_num (item_at f b)) (item_num (item_at f a'))"
      and c2: "\<forall>k m c. path f b k c \<and> path f a' m c \<longrightarrow> (\<exists>d l k'. r2 = Inr (d, l) \<and> path f d k' c)"
      by (rule climb_to [OF ok ib ia'])
    have reach1: "\<exists>k'. path f a' k' c" if "path f a k c" "path f b m c" for k m c using c1 that s1 by auto
    show ?thesis
    proof (cases r2)
      case (Inl e)
      then have "fetch_branch_from B f first second = Some (Inl e)" using r1 r2 s1 a b by (simp add: fetch_branch_from_def)
      moreover have "\<not> (path f a k c \<and> path f b m c)" for k m c using c2 reach1 [of k c m] Inl by auto
      ultimately show ?thesis by simp
    next
      case (Inr s2)
      then obtain b' m1 where s2: "r2 = Inr (b', m1)" by (cases s2) auto
      from d2 [rule_format, OF this] na have m1: "path f b m1 b'" and nb: "item_num (item_at f b') = item_num (item_at f a')" by simp_all
      have ib': "b' |\<in>| fmdom (items f)" using path_level [OF ok ib m1] by simp
      have eq: "fetch_branch_from B f first second = climb_both f a' b' l1 m1"
        using r1 r2 s1 s2 a b by (simp add: fetch_branch_from_def)
      have reach2: "\<exists>k' m'. path f a' k' c \<and> path f b' m' c" if "path f a k c" "path f b m c" for k m c
        using c2 reach1 [OF that] that s2 by auto
      obtain r where r: "climb_both f a' b' l1 m1 = Some r"
        and d: "\<forall>as' bs'. r = Inr (as', bs') \<longrightarrow>
          (\<exists>l m c d. as' = l1 @ l @ [c] \<and> bs' = m1 @ m @ [d] \<and> path f a' l c \<and> path f b' m d \<and> length l = length m \<and>
            previous_id (item_at f c) = previous_id (item_at f d) \<and> (\<forall>i < length l. l ! i \<noteq> m ! i))"
        and c: "\<forall>k m c. path f a' k c \<and> path f b' m c \<longrightarrow> (\<exists>x. r = Inr x)"
        using climb_both_spec [OF ok ia' ib' nb [symmetric], of l1 m1] by (elim exE conjE) (rule that)
      have meet: "as \<noteq> [] \<and> bs \<noteq> [] \<and> path f a (butlast as) (last as) \<and> path f b (butlast bs) (last bs) \<and>
          previous_id (item_at f (last as)) = previous_id (item_at f (last bs)) \<and>
          item_num (item_at f (last as)) = item_num (item_at f (last bs)) \<and>
          set (butlast as) \<inter> set bs = {} \<and> set as \<inter> set (butlast bs) = {}" if "r = Inr (as, bs)" for as bs
      proof -
        from d [rule_format, OF that] obtain l m x y where l: "as = l1 @ l @ [x]" "bs = m1 @ m @ [y]" "path f a' l x" "path f b' m y"
          "length l = length m" "previous_id (item_at f x) = previous_id (item_at f y)" "\<forall>i < length l. l ! i \<noteq> m ! i"
          by (elim exE conjE) (rule that)
        note D = paths_disjoint [OF ok ia ib l1 m1 na nb l(3-5,7)]
        have e: "as = (l1 @ l) @ [x]" "bs = (m1 @ m) @ [y]" by (simp_all add: l)
        have "path f a (l1 @ l) x" "path f b (m1 @ m) y" using l1 m1 l(3,4) by (auto simp: path_append)
        moreover have "set (l1 @ l) \<inter> set ((m1 @ m) @ [y]) = {}" "set ((l1 @ l) @ [x]) \<inter> set (m1 @ m) = {}" using D(1-3) by auto
        ultimately show ?thesis unfolding e butlast_snoc last_snoc using D(4) l(6) by blast
      qed
      moreover have "\<exists>x. r = Inr x" if "path f a k c \<and> path f b m c" for k m c using reach2 [of k c m] that c by blast
      ultimately show ?thesis using r eq by auto
    qed
  qed
qed

end

section \<open>A small tree\<close>

text \<open>Two blocks on the first one, and a third on one of them.\<close>

definition fork_block :: "nat \<Rightarrow> nat \<Rightarrow> signed_block" where
  "fork_block prev t = \<lparr>previous = prev, timestamp = t, block_witness = 1, transaction_merkle_root = 0, witness_signature = 60, transactions = []\<rparr>"

definition first_tree :: fork_database where
  "first_tree = start_block sample_blocks (fork_block 0 5) empty_fork_database"

definition second_tree :: fork_database where
  "second_tree = snd (push_block sample_blocks (fork_block 21491613696 10) first_tree)"

definition third_tree :: fork_database where
  "third_tree = snd (push_block sample_blocks (fork_block 21491613696 11) second_tree)"

definition sample_tree :: fork_database where
  "sample_tree = snd (push_block sample_blocks (fork_block 42983227392 15) third_tree)"

lemma fork_block_previous: "previous (fork_block p t) = p"
  by (simp add: fork_block_def)

lemma fork_block_numbers:
  "block_num sample_blocks (fork_block 0 t) = 1" "block_num sample_blocks (fork_block 21491613696 t) = 2"
  "block_num sample_blocks (fork_block 42983227392 t) = 3"
  by (simp_all add: block_num_def num_from_id_def sample_blocks_def byte_reverse_def hash_word_def fork_block_def)

lemma fork_block_ids:
  "block_id sample_blocks (fork_block 0 5) = 21491613696" "block_id sample_blocks (fork_block 21491613696 10) = 42983227392"
  "block_id sample_blocks (fork_block 21491613696 11) = 47278194688" "block_id sample_blocks (fork_block 42983227392 15) = 64474841088"
  unfolding block_id_def fork_block_numbers
  by (simp_all add: sample_blocks_def byte_reverse_def fork_block_def signed_block_header.truncate_def)

lemma erase_below_0 [simp]: "erase_below f 0 m = m"
  by (rule fmap_ext) (simp add: erase_below_lookup split: option.split)

lemmas tree_eval = push_block_def push_item_def link_item_def new_head_def index_insert_def allocate_def new_item_def
  item_at_def previous_id_def head_num_def Let_def fork_block_previous fmupd_twice fork_block_numbers fork_block_ids

lemma first_tree_eq:
  "first_tree = \<lparr>items = fmupd 0 (new_item sample_blocks (fork_block 0 5)) fmempty, next_address = 1,
     index = fmupd 21491613696 0 fmempty, unlinked_index = fmempty, fork_head = Some 0, fork_max_size = 1024, pinned = {||}\<rparr>"
  by (simp add: first_tree_def start_block_def empty_fork_database_def tree_eval)

lemma second_tree_push:
  "push_block sample_blocks (fork_block 21491613696 10) first_tree = (Inr (Some 1), second_tree)"
  "second_tree = first_tree\<lparr>items := fmupd 1 ((new_item sample_blocks (fork_block 21491613696 10))\<lparr>item_prev := Some 0\<rparr>) (items first_tree),
     next_address := 2, index := fmupd 42983227392 1 (index first_tree), fork_head := Some 1\<rparr>"
  by (simp_all add: second_tree_def first_tree_eq tree_eval)

lemma third_tree_push:
  "push_block sample_blocks (fork_block 21491613696 11) second_tree = (Inr (Some 1), third_tree)"
  "third_tree = second_tree\<lparr>items := fmupd 2 ((new_item sample_blocks (fork_block 21491613696 11))\<lparr>item_prev := Some 0\<rparr>) (items second_tree),
     next_address := 3, index := fmupd 47278194688 2 (index second_tree)\<rparr>"
  by (simp_all add: third_tree_def second_tree_push(2) first_tree_eq tree_eval)

lemma sample_tree_push:
  "push_block sample_blocks (fork_block 42983227392 15) third_tree = (Inr (Some 3), sample_tree)"
  "sample_tree = third_tree\<lparr>items := fmupd 3 ((new_item sample_blocks (fork_block 42983227392 15))\<lparr>item_prev := Some 1\<rparr>) (items third_tree),
     next_address := 4, index := fmupd 64474841088 3 (index third_tree), fork_head := Some 3\<rparr>"
  by (simp_all add: sample_tree_def third_tree_push(2) second_tree_push(2) first_tree_eq tree_eval)

lemmas sample_trees = sample_tree_push(2) third_tree_push(2) second_tree_push(2) first_tree_eq

lemma sample_tree_run: "fork_run sample_blocks first_tree" "fork_run sample_blocks sample_tree"
proof -
  show first: "fork_run sample_blocks first_tree"
    unfolding fork_run_def first_tree_def by (intro r_into_rtranclp step_start)
  have "fork_step sample_blocks first_tree second_tree" "fork_step sample_blocks second_tree third_tree"
    "fork_step sample_blocks third_tree sample_tree"
    by (rule step_push, rule second_tree_push third_tree_push sample_tree_push)+
  with first show "fork_run sample_blocks sample_tree" unfolding fork_run_def by (meson rtranclp.rtrancl_into_rtrancl)
qed

section \<open>Properties\<close>

text \<open>C9. Whatever blocks arrive, whether they are accepted or refused, and whatever the callers do, the tree of blocks is
  well-formed: every id in the index leads to an allocated item with the block of that id, so does the head, and a
  link leads to an older item, which holds the previous block, whose number is one less. Nothing is ever cached as
  unlinked, other than the comment at \<^verbatim>\<open>push_block\<close> says: a block whose previous block is not known is refused with
  an exception, and the tree it leaves behind is the one before.\<close>

theorem fork_tree_typed:
  assumes "block_laws B" and "fork_run B f"
  shows "(\<forall>i a. fmlookup (index f) i = Some a \<longrightarrow> a |\<in>| fmdom (items f) \<and> block_id B (item_data (item_at f a)) = i) \<and>
    (\<forall>h. fork_head f = Some h \<longrightarrow> h |\<in>| fmdom (items f)) \<and>
    (\<forall>a p. a |\<in>| fmdom (items f) \<and> item_prev (item_at f a) = Some p \<longrightarrow>
       p < a \<and> p |\<in>| fmdom (items f) \<and> item_id (item_at f p) = previous (item_data (item_at f a)) \<and>
       item_num (item_at f a) = Suc (item_num (item_at f p))) \<and>
    unlinked_index f = fmempty \<and>
    (\<forall>b. fork_head f \<noteq> None \<and> previous b \<noteq> 0 \<and> \<not> is_known_block f (previous b) \<longrightarrow>
       (\<exists>e. push_block B b f = (Inl e, f)))"
proof -
  note ok = fork_run_ok [OF assms(2)]
  have "\<exists>e. push_block B b f = (Inl e, f)"
    if "fork_head f \<noteq> None \<and> previous b \<noteq> 0 \<and> \<not> is_known_block f (previous b)" for b
    using push_block_unlinked [of f b B] that fork_okD(5) [OF ok] by (auto simp: is_known_block_def fmlookup_dom_iff)
  note refused = this
  have "h |\<in>| fmdom (items f)" if "fork_head f = Some h" for h
    using fork_okD(4) [OF ok that] by (auto simp: fmlookup_dom_iff)
  moreover have "p < a \<and> p |\<in>| fmdom (items f) \<and> item_id (item_at f p) = previous (item_data (item_at f a)) \<and>
      item_num (item_at f a) = Suc (item_num (item_at f p))"
    if "a |\<in>| fmdom (items f) \<and> item_prev (item_at f a) = Some p" for a p
    using block_laws.item_prev_older [OF assms(1) ok, of a p] that by (simp add: previous_id_def)
  ultimately show ?thesis using index_item(1,4) [OF ok] fork_okD(5) [OF ok] refused by simp
qed

theorem fork_tree_typed_witness:
  "item_id (item_at sample_tree 1) = previous (item_data (item_at sample_tree 3)) \<and>
   item_num (item_at sample_tree 3) = Suc (item_num (item_at sample_tree 1))"
proof -
  have "3 |\<in>| fmdom (items sample_tree) \<and> item_prev (item_at sample_tree 3) = Some 1" by (simp add: sample_trees item_at_def)
  with fork_tree_typed [OF sample_block.block_laws_axioms sample_tree_run(2)] show ?thesis by blast
qed

text \<open>C7. Pushing a block that links: it is known from then on; the head is the new block if it is higher than the head
  before, and stays otherwise, so that the head still has the highest number; and the only blocks that are forgotten
  are those more than the window below the new block. Such a block had a known previous block.\<close>

theorem fork_push_extends:
  assumes "block_laws B" and "fork_run B f" and "head_highest f" and "push_block B b f = (Inr h, f')"
  shows "is_known_block f' (block_id B b) \<and> head_highest f' \<and>
    h = fork_head f' \<and> fork_head f' = (case fork_head f of None \<Rightarrow> Some (next_address f)
      | Some g \<Rightarrow> if head_num f g < block_num B b then Some (next_address f) else Some g) \<and>
    item_id (item_at f' (next_address f)) = block_id B b \<and>
    (\<forall>i a. fmlookup (index f) i = Some a \<and> block_num B b \<le> item_num (item_at f a) + fork_max_size f \<longrightarrow> is_known_block f' i) \<and>
    (fork_head f \<noteq> None \<and> previous b \<noteq> 0 \<longrightarrow> is_known_block f (previous b))"
proof -
  note ok = fork_run_ok [OF assms(2)]
  note P = push_block_head [OF assms(1) ok assms(3,4)] and E = push_block_effect [OF ok assms(4)]
  have "is_known_block f' i" if "fmlookup (index f) i = Some a" "block_num B b \<le> item_num (item_at f a) + fork_max_size f" for i a
    using P(4) [of i] that by (simp add: is_known_block_def fmdomI)
  with P(2,3) E(1,3,5,7) show ?thesis by (simp add: is_known_block_def)
qed

theorem fork_push_extends_witness:
  "push_block sample_blocks (fork_block 21491613696 10) first_tree = (Inr (Some 1), second_tree) \<and>
   is_known_block second_tree 42983227392 \<and> head_highest second_tree"
proof -
  have "head_highest first_tree" by (auto simp: head_highest_def first_tree_eq head_num_def split: if_splits)
  from fork_push_extends [OF sample_block.block_laws_axioms sample_tree_run(1) this second_tree_push(1)] second_tree_push(1)
  show ?thesis by (simp add: fork_block_ids)
qed

text \<open>C8. The branches of two known blocks: the loops always end. When they succeed, each branch leads from its block
  back along the links, the last blocks of both have the same number and the same previous block, the most recent
  common ancestor, and the branches share no block before their last ones. They succeed whenever the blocks have a
  common ancestor that can still be reached.\<close>

theorem fetch_branch_meets:
  assumes "block_laws B" and "fork_run B f"
    and "fmlookup (index f) first = Some a" and "fmlookup (index f) second = Some b"
  shows "\<exists>r. fetch_branch_from B f first second = Some r \<and>
    (\<forall>as bs. r = Inr (as, bs) \<longrightarrow>
      as \<noteq> [] \<and> bs \<noteq> [] \<and> path f a (butlast as) (last as) \<and> path f b (butlast bs) (last bs) \<and>
      previous_id (item_at f (last as)) = previous_id (item_at f (last bs)) \<and>
      item_num (item_at f (last as)) = item_num (item_at f (last bs)) \<and>
      set (butlast as) \<inter> set bs = {} \<and> set as \<inter> set (butlast bs) = {}) \<and>
    (\<forall>k m c. path f a k c \<and> path f b m c \<longrightarrow> (\<exists>x. r = Inr x))"
  by (rule block_laws.fetch_branch_spec [OF assms(1) fork_run_ok [OF assms(2)] assms(3,4)])

theorem fetch_branch_meets_witness:
  "\<exists>as bs. fetch_branch_from sample_blocks sample_tree 64474841088 47278194688 = Some (Inr (as, bs)) \<and>
     path sample_tree 3 (butlast as) (last as) \<and> path sample_tree 2 (butlast bs) (last bs)"
proof -
  have a: "fmlookup (index sample_tree) 64474841088 = Some 3" "fmlookup (index sample_tree) 47278194688 = Some 2"
    by (simp_all add: sample_trees)
  have "alive sample_tree 0" unfolding alive_def by (rule disjI1, rule fmranI [of _ 21491613696]) (simp add: sample_trees)
  moreover have "alive sample_tree 1" unfolding alive_def by (rule disjI1, rule fmranI [of _ 42983227392]) (simp add: sample_trees)
  ultimately have "path sample_tree 3 [3, 1] 0" "path sample_tree 2 [2] 0" by (simp_all add: lock_prev_def sample_trees item_at_def)
  then have c: "\<exists>k m c. path sample_tree 3 k c \<and> path sample_tree 2 m c" by blast
  from fetch_branch_meets [OF sample_block.block_laws_axioms sample_tree_run(2) a] obtain r where
    r: "fetch_branch_from sample_blocks sample_tree 64474841088 47278194688 = Some r"
    and d: "\<And>as bs. r = Inr (as, bs) \<Longrightarrow> path sample_tree 3 (butlast as) (last as) \<and> path sample_tree 2 (butlast bs) (last bs)"
    and i: "(\<exists>k m c. path sample_tree 3 k c \<and> path sample_tree 2 m c) \<longrightarrow> (\<exists>x. r = Inr x)"
    by (elim exE conjE) (rule that, simp_all)
  from i c obtain as bs where "r = Inr (as, bs)" by auto
  with r d [OF this] show ?thesis by auto
qed

end
