(* ===== verification/Block_Database.thy ===== *)
theory Block_Database
  imports Blocks
begin

text \<open>
  The blocks on disk, \<^verbatim>\<open>block_database.cpp\<close>: a file with the packed blocks, to which blocks are only ever appended,
  and a file of index entries of a fixed size, the one of block \<open>n\<close> at position \<open>n\<close>. The model has the first as
  a list of bytes and the second as a list of entries, because entries are only read and written as a whole.
  A crash may leave a part of an entry at the end of the index: \<open>index_tail\<close> is that part, as the entry it becomes
  when the file is filled up with zeros, which is what writing beyond the end of the file does.
  Both streams throw when they fail. Reading beyond the end of a file is such a failure, and a stream that has
  failed throws at every later access, as nothing clears it; the loop of \<^verbatim>\<open>last_index_entry\<close>, which goes on after a
  failure, is modelled with the state of the stream. Every other operation returns or throws after its first failure;
  it is modelled from a stream that has not failed, and as long as the files are well-formed none does
  (\<open>blocks_ok_reads\<close>). Packing and unpacking are functions of the \<^verbatim>\<open>fc\<close> library, hence parameters.
\<close>

record pack_lib =
  pack :: "signed_block \<Rightarrow> 8 word list"
  unpack :: "8 word list \<Rightarrow> signed_block option"

record index_entry =
  block_pos :: nat
  block_size :: nat
  entry_id :: nat

record block_database =
  index_file :: "index_entry list"
  index_tail :: "index_entry option"
  block_file :: "8 word list"

definition zero_entry :: index_entry where
  "zero_entry = \<lparr>block_pos = 0, block_size = 0, entry_id = 0\<rparr>"

definition write_entry :: "nat \<Rightarrow> index_entry \<Rightarrow> block_database \<Rightarrow> block_database" where
  "write_entry n e bd =
     (let es = index_file bd; gap = n - length es in
      if n < length es then bd\<lparr>index_file := es[n := e]\<rparr>
      else bd\<lparr>index_file := es @ take gap (case_option zero_entry (\<lambda>t. t) (index_tail bd) # replicate gap zero_entry) @ [e],
              index_tail := None\<rparr>)"

text \<open>Seeking a position and reading from there. No bytes are read without an error even beyond the end of the file,
  but a position above the range of \<^verbatim>\<open>int64_t\<close> cannot be sought.\<close>

definition read_file :: "nat \<Rightarrow> nat \<Rightarrow> 8 word list \<Rightarrow> 8 word list option" where
  "read_file pos len bytes =
     (if pos + len \<le> length bytes \<or> len = 0 \<and> pos < 2 ^ 63 then Some (take len (drop pos bytes)) else None)"

definition store :: "pack_lib \<Rightarrow> block_lib \<Rightarrow> nat \<Rightarrow> signed_block \<Rightarrow> block_database \<Rightarrow> block_database" where
  "store P B i b bd =
     (let i' = (if i = 0 then block_id B b else i);
          vec = pack P b;
          e = \<lparr>block_pos = length (block_file bd), block_size = length vec mod 2 ^ 32, entry_id = i'\<rparr> in
      write_entry (num_from_id B i') e (bd\<lparr>block_file := block_file bd @ vec\<rparr>))"

text \<open>The test of \<^verbatim>\<open>tellg() <= index_pos\<close>: a part of an entry at the end makes the index longer, but cannot be read.\<close>

definition index_ends :: "block_database \<Rightarrow> nat \<Rightarrow> bool" where
  "index_ends bd n =
     (length (index_file bd) < n \<or> length (index_file bd) = n \<and> index_tail bd = None)"

definition remove_stored :: "block_lib \<Rightarrow> nat \<Rightarrow> block_database \<Rightarrow> block_database result" where
  "remove_stored B i bd =
     (let n = num_from_id B i in
      if index_ends bd n then Inl (Thrown ''Block not contained in block database'')
      else if length (index_file bd) \<le> n then Inl (Thrown ''ios_base::failure'')
      else if entry_id (index_file bd ! n) = i
        then Inr (write_entry n ((index_file bd ! n)\<lparr>block_size := 0\<rparr>) bd)
      else Inr bd)"

definition contains :: "block_lib \<Rightarrow> nat \<Rightarrow> block_database \<Rightarrow> bool" where
  "contains B i bd =
     (let n = num_from_id B i in
      if i = 0 then False
      else if length (index_file bd) < n + 1 then False
      else entry_id (index_file bd ! n) = i \<and> 0 < block_size (index_file bd ! n))"

definition fetch_block_id :: "nat \<Rightarrow> block_database \<Rightarrow> nat result" where
  "fetch_block_id n bd =
     (if index_ends bd n then Inl (Thrown ''Block number not contained in block database'')
      else if length (index_file bd) \<le> n then Inl (Thrown ''ios_base::failure'')
      else ebind (fc_assert (entry_id (index_file bd ! n) \<noteq> 0) ''Empty block_id in block_database'') (\<lambda>_.
           Inr (entry_id (index_file bd ! n))))"

text \<open>Reading the block of an entry and comparing its id; what fails is caught by the callers.\<close>

definition read_entry :: "pack_lib \<Rightarrow> block_lib \<Rightarrow> index_entry \<Rightarrow> block_database \<Rightarrow> signed_block option" where
  "read_entry P B e bd =
     (case read_file (block_pos e) (block_size e) (block_file bd) of
        None \<Rightarrow> None
      | Some data \<Rightarrow>
          (case unpack P data of
             None \<Rightarrow> None
           | Some b \<Rightarrow> if block_id B b = entry_id e then Some b else None))"

definition fetch_optional :: "pack_lib \<Rightarrow> block_lib \<Rightarrow> nat \<Rightarrow> block_database \<Rightarrow> signed_block option" where
  "fetch_optional P B i bd =
     (let n = num_from_id B i in
      if length (index_file bd) \<le> n then None
      else if entry_id (index_file bd ! n) \<noteq> i then None
      else read_entry P B (index_file bd ! n) bd)"

definition fetch_by_number :: "pack_lib \<Rightarrow> block_lib \<Rightarrow> nat \<Rightarrow> block_database \<Rightarrow> signed_block option" where
  "fetch_by_number P B n bd =
     (if length (index_file bd) \<le> n then None else read_entry P B (index_file bd ! n) bd)"

text \<open>
  Looking for the last intact entry, from the end of the index, which is cut off behind it. The sum of the position
  and the size is an \<^verbatim>\<open>uint64_t\<close> that the test converts to \<^verbatim>\<open>int64_t\<close>. The argument \<open>good\<close> says that the
  stream of the blocks has not failed; the exceptions of one entry are caught and the loop goes on.
\<close>

definition in_blocks_size :: "index_entry \<Rightarrow> block_database \<Rightarrow> bool" where
  "in_blocks_size e bd = (wrap64 (int (block_pos e + block_size e)) \<le> int (length (block_file bd)))"

fun last_intact ::
  "pack_lib \<Rightarrow> block_lib \<Rightarrow> block_database \<Rightarrow> bool \<Rightarrow> index_entry list \<Rightarrow> index_entry option \<times> index_entry list" where
  "last_intact P B bd good [] = (None, [])"
| "last_intact P B bd good (e # es) =
     (if good \<and> 0 < block_size e \<and> in_blocks_size e bd then
        (case read_file (block_pos e) (block_size e) (block_file bd) of
           None \<Rightarrow> last_intact P B bd False es
         | Some data \<Rightarrow>
             (case unpack P data of
                None \<Rightarrow> last_intact P B bd good es
              | Some b \<Rightarrow> if block_id B b = entry_id e then (Some e, e # es) else last_intact P B bd good es))
      else last_intact P B bd good es)"

definition last_index_entry :: "pack_lib \<Rightarrow> block_lib \<Rightarrow> block_database \<Rightarrow> index_entry option \<times> block_database" where
  "last_index_entry P B bd =
     (let (e, es) = last_intact P B bd True (rev (index_file bd)) in
      (e, bd\<lparr>index_file := rev es, index_tail := (if length es = length (index_file bd) then index_tail bd else None)\<rparr>))"

definition last_block :: "pack_lib \<Rightarrow> block_lib \<Rightarrow> block_database \<Rightarrow> signed_block option \<times> block_database" where
  "last_block P B bd =
     (case last_index_entry P B bd of
        (None, bd') \<Rightarrow> (None, bd')
      | (Some e, bd') \<Rightarrow> (fetch_by_number P B (num_from_id B (entry_id e)) bd', bd'))"

definition last_id :: "pack_lib \<Rightarrow> block_lib \<Rightarrow> block_database \<Rightarrow> nat option \<times> block_database" where
  "last_id P B bd =
     (case last_index_entry P B bd of
        (None, bd') \<Rightarrow> (None, bd')
      | (Some e, bd') \<Rightarrow> (Some (entry_id e), bd'))"

section \<open>Lemmas\<close>

text \<open>Well-formed files: no part of an entry at the end, every entry points into the file of blocks, and stands at the
  number of its id, unless it was never written.\<close>

definition entry_ok :: "block_lib \<Rightarrow> block_database \<Rightarrow> nat \<Rightarrow> index_entry \<Rightarrow> bool" where
  "entry_ok B bd n e \<longleftrightarrow>
     block_pos e + block_size e \<le> length (block_file bd) \<and> (e = zero_entry \<or> num_from_id B (entry_id e) = n)"

definition blocks_ok :: "block_lib \<Rightarrow> block_database \<Rightarrow> bool" where
  "blocks_ok B bd \<longleftrightarrow> index_tail bd = None \<and> (\<forall>n < length (index_file bd). entry_ok B bd n (index_file bd ! n))"

lemma write_entry_files [simp]:
  "block_file (write_entry n e bd) = block_file bd"
  "length (index_file (write_entry n e bd)) = max (length (index_file bd)) (Suc n)"
  "index_tail bd = None \<Longrightarrow> index_tail (write_entry n e bd) = None"
  by (auto simp: write_entry_def Let_def)

lemma write_entry_nth:
  assumes "index_tail bd = None" and "m < length (index_file (write_entry n e bd))"
  shows "index_file (write_entry n e bd) ! m =
    (if m = n then e else if m < length (index_file bd) then index_file bd ! m else zero_entry)"
proof (cases "n < length (index_file bd)")
  case True
  with assms show ?thesis by (auto simp: write_entry_def Let_def nth_list_update)
next
  case False
  let ?gap = "n - length (index_file bd)"
  have "take ?gap (zero_entry # replicate ?gap zero_entry) = replicate ?gap zero_entry"
    by (simp add: replicate_Suc [symmetric] del: replicate_Suc)
  with False have "index_file (write_entry n e bd) = index_file bd @ replicate ?gap zero_entry @ [e]"
    using assms(1) by (simp add: write_entry_def Let_def)
  with False assms(2) show ?thesis by (auto simp: nth_append)
qed

lemma write_entry_ok:
  assumes "index_tail bd = None"
    and "\<And>m. m < length (index_file bd) \<Longrightarrow> m \<noteq> n \<Longrightarrow> entry_ok B bd m (index_file bd ! m)" and "entry_ok B bd n e"
  shows "blocks_ok B (write_entry n e bd)"
  unfolding blocks_ok_def
proof (intro conjI allI impI)
  fix m
  assume "m < length (index_file (write_entry n e bd))"
  note m = write_entry_nth [OF assms(1) this]
  have same: "entry_ok B (write_entry n e bd) = entry_ok B bd" by (simp add: entry_ok_def fun_eq_iff)
  have "entry_ok B bd m zero_entry" by (simp add: entry_ok_def zero_entry_def)
  then show "entry_ok B (write_entry n e bd) m (index_file (write_entry n e bd) ! m)"
    unfolding m same using assms(2,3) by auto
qed (simp add: assms(1))

lemma read_file_append: "pos + len \<le> length bytes \<Longrightarrow> read_file pos len (bytes @ new) = read_file pos len bytes"
  by (simp add: read_file_def)

lemma read_file_end: "read_file (length bytes) (length new) (bytes @ new) = Some new"
  by (simp add: read_file_def)

text \<open>While the files are well-formed no read fails, so that neither do the streams.\<close>

lemma blocks_ok_reads:
  assumes "blocks_ok B bd" and "n < length (index_file bd)"
  shows "read_file (block_pos (index_file bd ! n)) (block_size (index_file bd ! n)) (block_file bd) \<noteq> None"
  using assms by (simp add: blocks_ok_def entry_ok_def read_file_def)

lemma store_ok:
  assumes "blocks_ok B bd" and "length (pack P b) < 2 ^ 32"
  shows "blocks_ok B (store P B i b bd)"
  unfolding store_def Let_def
  by (rule write_entry_ok) (use assms in \<open>auto simp: blocks_ok_def entry_ok_def\<close>)

lemma remove_stored_ok:
  assumes "blocks_ok B bd" and "remove_stored B i bd = Inr bd'"
  shows "blocks_ok B bd'"
proof (cases "bd' = bd")
  case True
  then show ?thesis using assms(1) by simp
next
  case False
  let ?n = "num_from_id B i"
  let ?e = "(index_file bd ! ?n)\<lparr>block_size := 0\<rparr>"
  from False assms(2) have w: "bd' = write_entry ?n ?e bd" "?n < length (index_file bd)"
    by (auto simp: remove_stored_def Let_def split: if_splits)
  from w(2) assms(1) have "entry_ok B bd ?n (index_file bd ! ?n)" by (simp add: blocks_ok_def)
  then have "entry_ok B bd ?n ?e" by (auto simp: entry_ok_def zero_entry_def)
  with assms(1) show ?thesis unfolding w(1) by (intro write_entry_ok) (simp_all add: blocks_ok_def)
qed

lemma store_files:
  assumes "length (pack P b) < 2 ^ 32"
  shows "store P B (block_id B b) b bd = write_entry (num_from_id B (block_id B b))
      \<lparr>block_pos = length (block_file bd), block_size = length (pack P b), entry_id = block_id B b\<rparr>
      (bd\<lparr>block_file := block_file bd @ pack P b\<rparr>)"
  using assms by (simp add: store_def Let_def)

text \<open>An entry of another number reads what it read before.\<close>

lemma store_other:
  assumes "blocks_ok B bd" and "length (pack P b) < 2 ^ 32" and "n \<noteq> num_from_id B (block_id B b)" and "n < length (index_file bd)"
  shows "index_file (store P B (block_id B b) b bd) ! n = index_file bd ! n"
    and "read_entry P B (index_file bd ! n) (store P B (block_id B b) b bd) = read_entry P B (index_file bd ! n) bd"
proof -
  note S = store_files [OF assms(2), of B bd]
  have tail: "index_tail (bd\<lparr>block_file := block_file bd @ pack P b\<rparr>) = None" using assms(1) by (simp add: blocks_ok_def)
  show "index_file (store P B (block_id B b) b bd) ! n = index_file bd ! n"
    unfolding S using assms(3,4) by (subst write_entry_nth [OF tail]) auto
  have "block_pos (index_file bd ! n) + block_size (index_file bd ! n) \<le> length (block_file bd)"
    using assms(1,4) by (simp add: blocks_ok_def entry_ok_def)
  then show "read_entry P B (index_file bd ! n) (store P B (block_id B b) b bd) = read_entry P B (index_file bd ! n) bd"
    by (simp add: read_entry_def S read_file_append)
qed

text \<open>A hole between the entries reads as no block: its id is zero, or nothing unpacks from no bytes.\<close>

lemma store_hole:
  assumes "blocks_ok B bd" and "length (pack P b) < 2 ^ 32" and "n \<noteq> num_from_id B (block_id B b)"
    and "\<not> n < length (index_file bd)" and "n < length (index_file (store P B (block_id B b) b bd))"
  shows "index_file (store P B (block_id B b) b bd) ! n = zero_entry"
proof -
  have "index_tail (bd\<lparr>block_file := block_file bd @ pack P b\<rparr>) = None" using assms(1) by (simp add: blocks_ok_def)
  from write_entry_nth [OF this] assms(3-5) show ?thesis unfolding store_files [OF assms(2)] by simp
qed

lemma read_hole: "unpack P [] = None \<Longrightarrow> read_entry P B zero_entry bd = None"
  by (simp add: read_entry_def zero_entry_def read_file_def)

text \<open>
  What the search is for, stated on the bytes alone: an entry is intact if it has a size, lies within the file of
  blocks, and its bytes unpack to a block with the entry's id. An entry is wild if it passes the comparison with
  the size of the file although it does not lie within it, which takes a sum beyond the range of \<^verbatim>\<open>int64_t\<close>.
\<close>

definition intact_block :: "pack_lib \<Rightarrow> block_lib \<Rightarrow> 8 word list \<Rightarrow> index_entry \<Rightarrow> signed_block option" where
  "intact_block P B bytes e =
     (if block_size e = 0 \<or> length bytes < block_pos e + block_size e then None
      else case unpack P (take (block_size e) (drop (block_pos e) bytes)) of
             None \<Rightarrow> None
           | Some b \<Rightarrow> if block_id B b = entry_id e then Some b else None)"

definition wild :: "8 word list \<Rightarrow> index_entry \<Rightarrow> bool" where
  "wild bytes e \<longleftrightarrow> 0 < block_size e \<and> length bytes < block_pos e + block_size e \<and>
     wrap64 (int (block_pos e + block_size e)) \<le> int (length bytes)"

definition skipped :: "pack_lib \<Rightarrow> block_lib \<Rightarrow> 8 word list \<Rightarrow> index_entry \<Rightarrow> bool" where
  "skipped P B bytes e \<longleftrightarrow> intact_block P B bytes e = None \<and> \<not> wild bytes e"

lemma wrap64_small: "n < 2 ^ 63 \<Longrightarrow> wrap64 (int n) = int n"
  by (rule wrap64_id) (simp add: in_int64_def)

lemma wild_range: "wild bytes e \<Longrightarrow> 2 ^ 63 \<le> block_pos e + block_size e"
  using wrap64_small [of "block_pos e + block_size e"] by (auto simp: wild_def intro: ccontr)

lemma last_intact_failed: "last_intact P B bd False es = (None, [])"
  by (induction es) simp_all

lemma last_intact_Cons:
  assumes "length (block_file bd) < 2 ^ 63"
  shows "last_intact P B bd True (e # es) =
    (if intact_block P B (block_file bd) e \<noteq> None then (Some e, e # es)
     else if wild (block_file bd) e then (None, []) else last_intact P B bd True es)"
proof -
  have "in_blocks_size e bd" if "block_pos e + block_size e \<le> length (block_file bd)"
    using that assms wrap64_small [of "block_pos e + block_size e"] by (simp add: in_blocks_size_def)
  then show ?thesis
    by (auto simp: intact_block_def wild_def read_file_def last_intact_failed in_blocks_size_def split: option.split)
qed

lemma last_intact_spec:
  assumes "length (block_file bd) < 2 ^ 63"
  shows "last_intact P B bd True es =
     (let rest = dropWhile (skipped P B (block_file bd)) es in
      if rest = [] \<or> intact_block P B (block_file bd) (hd rest) = None then (None, []) else (Some (hd rest), rest))"
  using assms by (induction es) (auto simp: last_intact_Cons skipped_def Let_def simp del: last_intact.simps(2))

lemma last_index_entry_cases:
  fixes bd :: block_database
  defines "bytes \<equiv> block_file bd"
  assumes "length (block_file bd) < 2 ^ 63"
  obtains "last_index_entry P B bd = (None, bd\<lparr>index_file := [], index_tail := if index_file bd = [] then index_tail bd else None\<rparr>)"
      and "\<forall>e \<in> set (index_file bd). intact_block P B bytes e = None"
  | n where "last_index_entry P B bd = (None, bd\<lparr>index_file := [], index_tail := None\<rparr>)"
      and "n < length (index_file bd)" and "wild bytes (index_file bd ! n)"
      and "\<forall>m. n < m \<and> m < length (index_file bd) \<longrightarrow> skipped P B bytes (index_file bd ! m)"
  | n where "last_index_entry P B bd = (Some (index_file bd ! n), bd\<lparr>index_file := take (Suc n) (index_file bd),
        index_tail := if Suc n = length (index_file bd) then index_tail bd else None\<rparr>)"
      and "n < length (index_file bd)" and "intact_block P B bytes (index_file bd ! n) \<noteq> None"
      and "\<forall>m. n < m \<and> m < length (index_file bd) \<longrightarrow> skipped P B bytes (index_file bd ! m)"
proof (cases "\<forall>e \<in> set (index_file bd). skipped P B bytes e")
  case True
  then have "dropWhile (skipped P B bytes) (rev (index_file bd)) = []" by simp
  then have "last_index_entry P B bd = (None, bd\<lparr>index_file := [], index_tail := if index_file bd = [] then index_tail bd else None\<rparr>)"
    using last_intact_spec [OF assms(2), of P B] by (simp add: last_index_entry_def bytes_def)
  with True show thesis using that(1) by (simp add: skipped_def)
next
  case False
  then obtain xs e ys where d: "index_file bd = xs @ e # ys" and e: "\<not> skipped P B bytes e" and ys: "\<forall>y \<in> set ys. skipped P B bytes y"
    using split_list_last_prop [of "index_file bd" "\<lambda>e. \<not> skipped P B bytes e"] by blast
  have "dropWhile (skipped P B bytes) (rev ys @ e # rev xs) = dropWhile (skipped P B bytes) (e # rev xs)"
    by (rule dropWhile_append2) (use ys in simp)
  then have drop: "dropWhile (skipped P B bytes) (rev (index_file bd)) = e # rev xs" using e by (simp add: d)
  note L = last_intact_spec [OF assms(2), of P B "rev (index_file bd)", folded bytes_def, unfolded drop]
  have nth: "index_file bd ! length xs = e" "take (Suc (length xs)) (index_file bd) = xs @ [e]" "length xs < length (index_file bd)"
    by (simp_all add: d)
  have top: "\<forall>m. length xs < m \<and> m < length (index_file bd) \<longrightarrow> skipped P B bytes (index_file bd ! m)"
    using ys by (auto simp: d nth_append nth_Cons split: nat.split)
  show thesis
  proof (cases "intact_block P B bytes e = None")
    case True
    with L have "last_index_entry P B bd = (None, bd\<lparr>index_file := [], index_tail := None\<rparr>)" by (simp add: last_index_entry_def d)
    moreover have "wild bytes e" using True e by (simp add: skipped_def)
    ultimately show thesis using that(2) [of "length xs"] nth top by simp
  next
    case False
    with L have "last_index_entry P B bd = (Some e, bd\<lparr>index_file := xs @ [e],
        index_tail := if Suc (length xs) = length (index_file bd) then index_tail bd else None\<rparr>)"
      by (simp add: last_index_entry_def d)
    then show thesis using that(3) [of "length xs"] nth top False by simp
  qed
qed

definition no_blocks :: block_database where
  "no_blocks = \<lparr>index_file = [], index_tail = None, block_file = []\<rparr>"

definition sample_pack :: pack_lib where
  "sample_pack = \<lparr>pack = (\<lambda>b. [1]), unpack = (\<lambda>bytes. if bytes = [1] then Some (sample_signed_block\<lparr>previous := 0\<rparr>) else None)\<rparr>"

text \<open>The first block is intact, the entry of the second points beyond the end of the file, and a part of the third
  entry follows.\<close>

definition torn_blocks :: block_database where
  "torn_blocks = \<lparr>index_file = [zero_entry, \<lparr>block_pos = 0, block_size = 1, entry_id = 6700149003251613696\<rparr>,
     \<lparr>block_pos = 1, block_size = 1, entry_id = 33554432\<rparr>], index_tail = Some \<lparr>block_pos = 2, block_size = 0, entry_id = 0\<rparr>,
     block_file = [1]\<rparr>"

lemma first_block_id:
  "block_num sample_blocks (sample_signed_block\<lparr>previous := 0\<rparr>) = 1"
  "block_id sample_blocks (sample_signed_block\<lparr>previous := 0\<rparr>) = 6700149003251613696"
  by (simp_all add: block_id_def block_num_def num_from_id_def hash_word_def byte_reverse_def sample_blocks_def sample_signed_block_def
    signed_block_header.truncate_def)

section \<open>Properties\<close>

text \<open>C12. A block that was stored is found again by its id and by its number, and storing it changes nothing that is
  found at another number. The files stay well-formed.\<close>

theorem stored_block_found:
  assumes "block_laws B" and "blocks_ok B bd" and "unpack P (pack P b) = Some b" and "unpack P [] = None"
    and "length (pack P b) < 2 ^ 32" and "block_id B b \<noteq> 0"
  shows "fetch_optional P B (block_id B b) (store P B (block_id B b) b bd) = Some b \<and>
    fetch_by_number P B (block_num B b) (store P B (block_id B b) b bd) = Some b \<and>
    fetch_block_id (block_num B b) (store P B (block_id B b) b bd) = Inr (block_id B b) \<and>
    contains B (block_id B b) (store P B (block_id B b) b bd) \<and>
    (\<forall>n. n \<noteq> block_num B b \<longrightarrow> fetch_by_number P B n (store P B (block_id B b) b bd) = fetch_by_number P B n bd) \<and>
    (\<forall>i. num_from_id B i \<noteq> block_num B b \<longrightarrow> fetch_optional P B i (store P B (block_id B b) b bd) = fetch_optional P B i bd) \<and>
    blocks_ok B (store P B (block_id B b) b bd)"
proof -
  let ?bd = "store P B (block_id B b) b bd" and ?n = "num_from_id B (block_id B b)"
  have num: "?n = block_num B b" by (rule block_laws.num_from_block_id [OF assms(1)])
  note S = store_files [OF assms(5), of B bd]
  have longer: "length (index_file ?bd) = max (length (index_file bd)) (Suc ?n)" by (simp add: S)
  have len: "?n < length (index_file ?bd)" by (simp add: longer)
  have e: "index_file ?bd ! ?n = \<lparr>block_pos = length (block_file bd), block_size = length (pack P b), entry_id = block_id B b\<rparr>"
    using len assms(2) unfolding S by (subst write_entry_nth) (simp_all add: blocks_ok_def)
  have read: "read_entry P B (index_file ?bd ! ?n) ?bd = Some b"
    unfolding e using assms(3) by (simp add: read_entry_def S read_file_end)
  have pos: "0 < length (pack P b)" using assms(3,4) by (cases "pack P b") auto
  have other: "(n < length (index_file ?bd) \<longrightarrow> read_entry P B (index_file ?bd ! n) ?bd =
      (if n < length (index_file bd) then read_entry P B (index_file bd ! n) bd else None)) \<and>
      (n < length (index_file bd) \<longrightarrow> n < length (index_file ?bd) \<and> entry_id (index_file ?bd ! n) = entry_id (index_file bd ! n))"
    if "n \<noteq> ?n" for n
    using store_other [OF assms(2,5) that] store_hole [OF assms(2,5) that] read_hole [OF assms(4), of B ?bd]
    by (cases "n < length (index_file bd)") (auto simp: longer)
  have "fetch_by_number P B n ?bd = fetch_by_number P B n bd" if "n \<noteq> ?n" for n
    using other [OF that] by (auto simp: fetch_by_number_def)
  moreover have "fetch_optional P B i ?bd = fetch_optional P B i bd" if "num_from_id B i \<noteq> ?n" for i
    using other [OF that] by (auto simp: fetch_optional_def Let_def)
  moreover have "fetch_optional P B (block_id B b) ?bd = Some b" using len e read by (simp add: fetch_optional_def)
  moreover have "fetch_by_number P B ?n ?bd = Some b" using len read by (simp add: fetch_by_number_def)
  moreover have "fetch_block_id ?n ?bd = Inr (block_id B b)" using len e assms(6) by (simp add: fetch_block_id_def index_ends_def)
  moreover have "contains B (block_id B b) ?bd" using len e assms(6) pos by (simp add: contains_def Let_def)
  ultimately show ?thesis using store_ok [OF assms(2,5)] by (simp add: num)
qed

theorem stored_block_found_witness:
  "fetch_optional sample_pack sample_blocks 6700149003251613696 (store sample_pack sample_blocks 6700149003251613696 (sample_signed_block\<lparr>previous := 0\<rparr>) no_blocks) =
     Some (sample_signed_block\<lparr>previous := 0\<rparr>)"
  using stored_block_found [OF sample_block.block_laws_axioms, of no_blocks sample_pack "sample_signed_block\<lparr>previous := 0\<rparr>"]
  unfolding first_block_id by (simp add: sample_pack_def no_blocks_def blocks_ok_def)

text \<open>C13. After a crash the blocks are read up to the last one that is intact. An entry is intact if it has a size, lies
  within the file of blocks and its bytes unpack to a block with its id; the entries may be torn in any way, as long
  as an intact one stands at the number of its block. If the index has an intact entry, and no wild one behind it, then
  \<^verbatim>\<open>last\<close> returns the block of the last intact entry, and the index is cut off behind that entry, a part of an entry at
  its end included. Otherwise nothing is returned and the index is emptied: no entry is intact, or a wild entry, whose
  position and size add up beyond the range of \<^verbatim>\<open>int64_t\<close> and pass the comparison with the size of the file, stands behind
  all intact ones and makes the stream fail for good.\<close>

theorem last_block_recovers:
  assumes "length (block_file bd) < 2 ^ 63"
    and "\<forall>n < length (index_file bd). intact_block P B (block_file bd) (index_file bd ! n) \<noteq> None \<longrightarrow>
      num_from_id B (entry_id (index_file bd ! n)) = n"
  shows "case last_block P B bd of
      (Some b, bd') \<Rightarrow> (\<exists>n < length (index_file bd). intact_block P B (block_file bd) (index_file bd ! n) = Some b \<and>
        (\<forall>m. n < m \<and> m < length (index_file bd) \<longrightarrow>
          intact_block P B (block_file bd) (index_file bd ! m) = None \<and> \<not> wild (block_file bd) (index_file bd ! m)) \<and>
        bd' = bd\<lparr>index_file := take (Suc n) (index_file bd),
          index_tail := if Suc n = length (index_file bd) then index_tail bd else None\<rparr>)
    | (None, bd') \<Rightarrow> index_file bd' = [] \<and> block_file bd' = block_file bd \<and>
        ((\<forall>e \<in> set (index_file bd). intact_block P B (block_file bd) e = None) \<or>
         (\<exists>n < length (index_file bd). wild (block_file bd) (index_file bd ! n) \<and>
           2 ^ 63 \<le> block_pos (index_file bd ! n) + block_size (index_file bd ! n) \<and>
           (\<forall>m. n < m \<and> m < length (index_file bd) \<longrightarrow> intact_block P B (block_file bd) (index_file bd ! m) = None)))"
proof (rule last_index_entry_cases [OF assms(1), of P B])
  fix n
  let ?e = "index_file bd ! n"
  let ?bd = "bd\<lparr>index_file := take (Suc n) (index_file bd), index_tail := if Suc n = length (index_file bd) then index_tail bd else None\<rparr>"
  assume l: "last_index_entry P B bd = (Some ?e, ?bd)" and n: "n < length (index_file bd)"
    and e: "intact_block P B (block_file bd) ?e \<noteq> None"
    and top: "\<forall>m. n < m \<and> m < length (index_file bd) \<longrightarrow> skipped P B (block_file bd) (index_file bd ! m)"
  from e obtain b where b: "intact_block P B (block_file bd) ?e = Some b" by blast
  have "num_from_id B (entry_id ?e) = n" using assms(2) n e by blast
  moreover have "read_entry P B ?e ?bd = Some b"
    using b by (simp add: read_entry_def intact_block_def read_file_def split: if_splits option.splits)
  ultimately have "last_block P B bd = (Some b, ?bd)" using l n by (simp add: last_block_def fetch_by_number_def)
  with n b top show ?thesis by (auto simp: skipped_def)
next
  fix n
  assume l: "last_index_entry P B bd = (None, bd\<lparr>index_file := [], index_tail := None\<rparr>)" and n: "n < length (index_file bd)"
    and w: "wild (block_file bd) (index_file bd ! n)"
    and top: "\<forall>m. n < m \<and> m < length (index_file bd) \<longrightarrow> skipped P B (block_file bd) (index_file bd ! m)"
  from l have "last_block P B bd = (None, bd\<lparr>index_file := [], index_tail := None\<rparr>)" by (simp add: last_block_def)
  moreover note n w wild_range [OF w] top
  ultimately show ?thesis by (auto simp: skipped_def)
qed (simp add: last_block_def)

theorem last_block_recovers_witness:
  "last_block sample_pack sample_blocks torn_blocks = (Some (sample_signed_block\<lparr>previous := 0\<rparr>),
     torn_blocks\<lparr>index_file := take 2 (index_file torn_blocks), index_tail := None\<rparr>)"
proof -
  have num: "num_from_id sample_blocks 6700149003251613696 = 1"
    by (simp add: num_from_id_def hash_word_def byte_reverse_def sample_blocks_def)
  have read: "intact_block sample_pack sample_blocks (block_file torn_blocks) (index_file torn_blocks ! n) =
      (if n = 1 then Some (sample_signed_block\<lparr>previous := 0\<rparr>) else None)"
    "block_pos (index_file torn_blocks ! n) + block_size (index_file torn_blocks ! n) < 3" if "n < 3" for n
    using that
    by (auto simp: torn_blocks_def intact_block_def sample_pack_def first_block_id zero_entry_def less_Suc_eq numeral_3_eq_3 numeral_2_eq_2)
  have calm: "\<not> wild (block_file torn_blocks) (index_file torn_blocks ! n)" if "n < 3" for n
  proof
    assume "wild (block_file torn_blocks) (index_file torn_blocks ! n)"
    from wild_range [OF this] read(2) [OF that] show False by simp
  qed
  have len: "length (index_file torn_blocks) = 3" "length (block_file torn_blocks) < 2 ^ 63" by (simp_all add: torn_blocks_def)
  have ids: "\<forall>n < length (index_file torn_blocks).
      intact_block sample_pack sample_blocks (block_file torn_blocks) (index_file torn_blocks ! n) \<noteq> None \<longrightarrow>
      num_from_id sample_blocks (entry_id (index_file torn_blocks ! n)) = n"
    using read(1) num by (auto simp: len(1)) (simp add: torn_blocks_def split: if_splits)
  obtain r bd where l: "last_block sample_pack sample_blocks torn_blocks = (r, bd)" by (meson surj_pair)
  have some: "\<not> (\<forall>e \<in> set (index_file torn_blocks). intact_block sample_pack sample_blocks (block_file torn_blocks) e = None)"
    using read(1) [of 1] nth_mem [of 1 "index_file torn_blocks"] by (auto simp: len(1))
  note R = last_block_recovers [OF len(2) ids, unfolded l, simplified]
  from R some calm obtain b n where r: "r = Some b" and n: "n < 3"
    "intact_block sample_pack sample_blocks (block_file torn_blocks) (index_file torn_blocks ! n) = Some b"
    and bd: "bd = torn_blocks\<lparr>index_file := take (Suc n) (index_file torn_blocks),
      index_tail := if Suc n = length (index_file torn_blocks) then index_tail torn_blocks else None\<rparr>"
    by (cases r) (auto simp: len(1))
  from n(2) read(1) [OF n(1)] have "n = 1" "b = sample_signed_block\<lparr>previous := 0\<rparr>" by (simp_all split: if_splits)
  with l r bd show ?thesis by (simp add: len(1) numeral_2_eq_2)
qed

end
