(* ===== verification/Push_Block.thy ===== *)
theory Push_Block
  imports Fork_Database Block_Database
begin

unbundle bit_operations_syntax

text \<open>
  How the node takes in blocks and transactions, \<^verbatim>\<open>db_block.cpp\<close>: \<^verbatim>\<open>_push_block\<close> with the switch to a longer fork and
  the return from a fork that fails, \<^verbatim>\<open>pop_block\<close>, and the pending transactions, which are taken out of the state
  before a block is pushed and put back afterwards (\<^verbatim>\<open>db_with.hpp\<close>). What a block and a transaction do to the state is an
  argument, \<open>chain_ops\<close>; \<open>model_ops\<close> are the ones of this development. The undo database is the stack of copies that it
  implements, newest first, where \<open>active\<close> counts the open sessions. The functions return the exception or the
  result together with the state, because an exception does not undo what was done before it.
\<close>

record 'w chain_ops =
  do_block :: "signed_block \<Rightarrow> 'w \<Rightarrow> nat option \<times> 'w result"
  head_id :: "'w \<Rightarrow> nat"
  head_number :: "'w \<Rightarrow> nat"
  do_trx :: "signed_transaction \<Rightarrow> 'w \<Rightarrow> (processed_transaction \<times> 'w) result"
  known_trx :: "'w \<Rightarrow> signed_transaction \<Rightarrow> bool"

record 'w control =
  world :: 'w
  undo_copies :: "'w list"
  active :: nat
  undo_max :: nat
  pending_session :: bool
  fork_db :: fork_database
  block_store :: block_database
  pending_tx :: "processed_transaction list"
  popped_tx :: "signed_transaction list"

section \<open>Sessions\<close>

definition start_session :: "'w control \<Rightarrow> 'w control" where
  "start_session c = c\<lparr>undo_copies := world c # take (undo_max c) (undo_copies c), active := Suc (active c)\<rparr>"

definition undo_session :: "'w control \<Rightarrow> 'w control" where
  "undo_session c = c\<lparr>world := hd (undo_copies c), undo_copies := tl (undo_copies c), active := active c - 1\<rparr>"

definition commit_session :: "'w control \<Rightarrow> 'w control" where
  "commit_session c = c\<lparr>active := active c - 1\<rparr>"

definition merge_session :: "'w control \<Rightarrow> 'w control" where
  "merge_session c = c\<lparr>undo_copies := tl (undo_copies c), active := active c - 1\<rparr>"

definition pop_undo :: "'w control \<Rightarrow> unit result \<times> 'w control" where
  "pop_undo c =
     (if active c \<noteq> 0 then (Inl (Assert_failed ''_active_sessions == 0''), c)
      else case undo_copies c of
        [] \<Rightarrow> (Inl (Assert_failed ''!_stack.empty()''), c)
      | w # ws \<Rightarrow> (Inr (), c\<lparr>world := w, undo_copies := ws\<rparr>))"

definition reset_pending :: "'w control \<Rightarrow> 'w control" where
  "reset_pending c = (if pending_session c then (undo_session c)\<lparr>pending_session := False\<rparr> else c)"

section \<open>Blocks\<close>

text \<open>
  Applying a block in a session and storing it. While it is applied, the sizes of the undo history and of the fork
  database are set to the number of reversible blocks; that is not undone if the block fails later.
\<close>

definition set_window :: "nat option \<Rightarrow> 'w control \<Rightarrow> 'w control" where
  "set_window win c =
     (case win of None \<Rightarrow> c | Some n \<Rightarrow> c\<lparr>undo_max := n, fork_db := set_max_size n (fork_db c)\<rparr>)"

definition apply_stored ::
  "'w chain_ops \<Rightarrow> pack_lib \<Rightarrow> block_lib \<Rightarrow> nat \<Rightarrow> signed_block \<Rightarrow> 'w control \<Rightarrow> unit result \<times> 'w control" where
  "apply_stored Op P B i b c =
     (let c1 = start_session c; (win, r) = do_block Op b (world c1); c2 = set_window win c1 in
      case r of
        Inl e \<Rightarrow> (Inl e, undo_session c2)
      | Inr w \<Rightarrow> (Inr (), commit_session (c2\<lparr>world := w, block_store := store P B i b (block_store c2)\<rparr>)))"

definition fetch_block_by_id :: "pack_lib \<Rightarrow> block_lib \<Rightarrow> nat \<Rightarrow> 'w control \<Rightarrow> signed_block option" where
  "fetch_block_by_id P B i c =
     (case fetch_block (fork_db c) i of
        None \<Rightarrow> fetch_optional P B i (block_store c)
      | Some a \<Rightarrow> Some (item_data (item_at (fork_db c) a)))"

definition pop_block :: "'w chain_ops \<Rightarrow> pack_lib \<Rightarrow> block_lib \<Rightarrow> 'w control \<Rightarrow> unit result \<times> 'w control" where
  "pop_block Op P B c =
     (let c1 = reset_pending c in
      case fetch_block_by_id P B (head_id Op (world c1)) c1 of
        None \<Rightarrow> (Inl (Thrown ''there are no blocks to pop''), c1)
      | Some head_block \<Rightarrow>
          (case pop_head (fork_db c1) of
             Inl e \<Rightarrow> (Inl e, c1)
           | Inr f \<Rightarrow>
               (case pop_undo (c1\<lparr>fork_db := f\<rparr>) of
                  (Inl e, c2) \<Rightarrow> (Inl e, c2)
                | (Inr _, c2) \<Rightarrow> (Inr (), c2\<lparr>popped_tx := map signed_transaction.truncate (transactions head_block) @ popped_tx c2\<rparr>))))"

lemma pop_block_shrinks: "pop_block Op P B c = (Inr u, c') \<Longrightarrow> length (undo_copies c') < length (undo_copies c)"
  by (cases "undo_copies c") (auto simp: pop_block_def pop_undo_def reset_pending_def undo_session_def Let_def
    split: option.splits sum.splits if_splits list.splits)

text \<open>The loop \<^verbatim>\<open>while( head_block_id() != target ) pop_block()\<close>.\<close>

function pop_until :: "'w chain_ops \<Rightarrow> pack_lib \<Rightarrow> block_lib \<Rightarrow> nat \<Rightarrow> 'w control \<Rightarrow> unit result \<times> 'w control" where
  "pop_until Op P B target c =
     (if head_id Op (world c) = target then (Inr (), c)
      else case pop_block Op P B c of
        (Inl e, c') \<Rightarrow> (Inl e, c')
      | (Inr u, c') \<Rightarrow> pop_until Op P B target c')"
  by pat_completeness auto
termination
  by (relation "measure (\<lambda>(_, _, _, _, c). length (undo_copies c))") (auto dest: pop_block_shrinks [OF sym])

declare pop_until.simps [simp del]

definition on_fork :: "(fork_database \<Rightarrow> fork_database) \<Rightarrow> 'w control \<Rightarrow> 'w control" where
  "on_fork g c = c\<lparr>fork_db := g (fork_db c)\<rparr>"

definition data_at :: "'w control \<Rightarrow> nat \<Rightarrow> signed_block" where
  "data_at c a = item_data (item_at (fork_db c) a)"

text \<open>
  The blocks of the old fork are applied again. They are stored under the id of the block that was to be pushed,
  as in the code.
\<close>

fun restore :: "'w chain_ops \<Rightarrow> pack_lib \<Rightarrow> block_lib \<Rightarrow> nat \<Rightarrow> nat list \<Rightarrow> 'w control \<Rightarrow> unit result \<times> 'w control" where
  "restore Op P B i [] c = (Inr (), c)"
| "restore Op P B i (a # as) c =
     (case apply_stored Op P B i (data_at c a) c of
        (Inl e, c') \<Rightarrow> (Inl e, c')
      | (Inr _, c') \<Rightarrow> restore Op P B i as c')"

text \<open>A block of the new fork failed with the exception \<open>e\<close>; \<open>bad\<close> are this block and the ones after it.\<close>

definition recover ::
  "'w chain_ops \<Rightarrow> pack_lib \<Rightarrow> block_lib \<Rightarrow> nat \<Rightarrow> error \<Rightarrow> nat list \<Rightarrow> nat list \<Rightarrow> 'w control \<Rightarrow> bool result \<times> 'w control" where
  "recover Op P B i e bad second c =
     (let c1 = fold (\<lambda>a c. on_fork (remove_block (block_id B (data_at c a))) c) bad c;
          c2 = on_fork (set_head (hd second)) c1 in
      case pop_until Op P B (previous (data_at c2 (last second))) c2 of
        (Inl e', c3) \<Rightarrow> (Inl e', c3)
      | (Inr _, c3) \<Rightarrow>
          (case restore Op P B i (rev second) c3 of
             (Inl e', c4) \<Rightarrow> (Inl e', c4)
           | (Inr _, c4) \<Rightarrow> (Inl e, c4)))"

fun push_fork ::
  "'w chain_ops \<Rightarrow> pack_lib \<Rightarrow> block_lib \<Rightarrow> nat \<Rightarrow> nat list \<Rightarrow> nat list \<Rightarrow> 'w control \<Rightarrow> bool result \<times> 'w control" where
  "push_fork Op P B i [] second c = (Inr True, c)"
| "push_fork Op P B i (a # as) second c =
     (case apply_stored Op P B (item_id (item_at (fork_db c) a)) (data_at c a) c of
        (Inl e, c') \<Rightarrow> recover Op P B i e (a # as) second c'
      | (Inr _, c') \<Rightarrow> push_fork Op P B i as second c')"

text \<open>The switch to the branch of the item \<open>h\<close>. The local variables keep the items of both branches alive.\<close>

definition hold :: "nat list \<Rightarrow> 'w control \<Rightarrow> 'w control" where
  "hold as = on_fork (\<lambda>f. f\<lparr>pinned := fset_of_list as\<rparr>)"

definition switch_fork ::
  "'w chain_ops \<Rightarrow> pack_lib \<Rightarrow> block_lib \<Rightarrow> nat \<Rightarrow> nat \<Rightarrow> 'w control \<Rightarrow> (bool result \<times> 'w control) option" where
  "switch_fork Op P B i h c =
     (case fetch_branch_from B (fork_db c) (block_id B (data_at c h)) (head_id Op (world c)) of
        None \<Rightarrow> None
      | Some (Inl e) \<Rightarrow> Some (Inl e, c)
      | Some (Inr (first, second)) \<Rightarrow>
          (case pop_until Op P B (previous (data_at c (last second))) (hold (h # first @ second) c) of
             (Inl e, c') \<Rightarrow> Some (Inl e, c')
           | (Inr _, c') \<Rightarrow> Some (push_fork Op P B i (rev first) second c')))"

definition extend_chain :: "'w chain_ops \<Rightarrow> pack_lib \<Rightarrow> block_lib \<Rightarrow> signed_block \<Rightarrow> 'w control \<Rightarrow> bool result \<times> 'w control" where
  "extend_chain Op P B b c =
     (case apply_stored Op P B (block_id B b) b c of
        (Inl e, c') \<Rightarrow> (Inl e, on_fork (remove_block (block_id B b)) c')
      | (Inr _, c') \<Rightarrow> (Inr False, c'))"

definition skip_fork_db :: "32 word" where
  "skip_fork_db = 8"

text \<open>\<^verbatim>\<open>_push_block\<close>; it returns whether the fork was switched. \<open>None\<close> would be a loop that does not end.\<close>

definition do_push_block ::
  "'w chain_ops \<Rightarrow> pack_lib \<Rightarrow> block_lib \<Rightarrow> 32 word \<Rightarrow> signed_block \<Rightarrow> 'w control \<Rightarrow> (bool result \<times> 'w control) option" where
  "do_push_block Op P B skip b c =
     (if skips skip skip_fork_db then Some (extend_chain Op P B b c)
      else case push_block B b (fork_db c) of
        (Inl e, f) \<Rightarrow> Some (Inl e, c\<lparr>fork_db := f\<rparr>)
      | (Inr nh, f) \<Rightarrow>
          (let c1 = hold (case nh of None \<Rightarrow> [] | Some h \<Rightarrow> [h]) (c\<lparr>fork_db := f\<rparr>) in
           map_option (\<lambda>(r, c). (r, hold [] c))
             (case nh of
                None \<Rightarrow> Some (Inl Undefined, c1)
              | Some h \<Rightarrow>
                  if previous (data_at c1 h) \<noteq> head_id Op (world c1) then
                    if head_number Op (world c1) < block_num B (data_at c1 h)
                    then switch_fork Op P B (block_id B b) h c1
                    else Some (Inr False, c1)
                  else Some (extend_chain Op P B b c1))))"

section \<open>Transactions\<close>

definition push_trx :: "'w chain_ops \<Rightarrow> signed_transaction \<Rightarrow> bool \<Rightarrow> 'w control \<Rightarrow> processed_transaction result \<times> 'w control" where
  "push_trx Op t push_to_back c =
     (let c1 = (if pending_session c then c else (start_session c)\<lparr>pending_session := True\<rparr>);
          c2 = start_session c1 in
      case do_trx Op t (world c2) of
        Inl e \<Rightarrow> (Inl e, undo_session c2)
      | Inr (pt, w) \<Rightarrow>
          (Inr pt, merge_session (c2\<lparr>world := w,
             pending_tx := (if push_to_back then pending_tx c2 @ [pt] else pt # pending_tx c2)\<rparr>)))"

definition validate_transaction :: "'w chain_ops \<Rightarrow> signed_transaction \<Rightarrow> 'w control \<Rightarrow> processed_transaction result \<times> 'w control" where
  "validate_transaction Op t c =
     (let c1 = start_session c in
      case do_trx Op t (world c1) of
        Inl e \<Rightarrow> (Inl e, undo_session c1)
      | Inr (pt, w) \<Rightarrow> (Inr pt, undo_session (c1\<lparr>world := w\<rparr>)))"

definition clear_pending :: "'w control \<Rightarrow> 'w control" where
  "clear_pending c = reset_pending (c\<lparr>pending_tx := []\<rparr>)"

text \<open>The destructor of \<^verbatim>\<open>pending_transactions_restorer\<close>: what fails is dropped.\<close>

definition repush :: "'w chain_ops \<Rightarrow> signed_transaction \<Rightarrow> 'w control \<Rightarrow> 'w control" where
  "repush Op t c = (if known_trx Op (world c) t then c else snd (push_trx Op t True c))"

definition restore_pending :: "'w chain_ops \<Rightarrow> processed_transaction list \<Rightarrow> 'w control \<Rightarrow> 'w control" where
  "restore_pending Op pending c =
     fold (\<lambda>pt. repush Op (signed_transaction.truncate pt)) pending ((fold (repush Op) (popped_tx c) c)\<lparr>popped_tx := []\<rparr>)"

definition push_block_db ::
  "'w chain_ops \<Rightarrow> pack_lib \<Rightarrow> block_lib \<Rightarrow> 32 word \<Rightarrow> signed_block \<Rightarrow> 'w control \<Rightarrow> (bool result \<times> 'w control) option" where
  "push_block_db Op P B skip b c =
     map_option (\<lambda>(r, c'). (r, restore_pending Op (pending_tx c) c')) (do_push_block Op P B skip b (clear_pending c))"

section \<open>The operations of this development\<close>

text \<open>The number of reversible blocks is set at the end of \<^verbatim>\<open>update_global_dynamic_data\<close>, if the block gets that far.\<close>

definition block_window ::
  "crypto_lib \<Rightarrow> block_lib \<Rightarrow> fc_lib \<Rightarrow> string_lib \<Rightarrow> (nat \<times> nat) list \<Rightarrow> 32 word \<Rightarrow> signed_block \<Rightarrow> node \<Rightarrow> nat option" where
  "block_window X B F S cps skip b n =
     (let num = block_num B b; used = cps \<noteq> [] \<and> snd (last cps) \<noteq> 0;
          flags = (if used \<and> num \<le> fst (last cps) then NOT 0 else skip) in
      case ebind (fc_assert (used \<longrightarrow> (case map_of cps num of None \<Rightarrow> True | Some h \<Rightarrow> block_id B b = h)) ''Block did not match checkpoint'') (\<lambda>_.
           ebind (fc_assert (skips flags skip_merkle_check \<or> transaction_merkle_root b = calculate_merkle_root B (transactions b)) ''merkle root'') (\<lambda>_.
           ebind (validate_block_header B F flags b (state n)) (\<lambda>w.
           ebind (efold (\<lambda>t n. emap snd (apply_transaction X F S flags (signed_transaction.truncate t) n)) (transactions b) n) (\<lambda>n1.
           ebind (check_bonuses (witness_account w) (transactions b) (state n1)) (\<lambda>_.
           update_global_dynamic_data B F cps flags b (state n1)))))) of
        Inl e \<Rightarrow> None
      | Inr d \<Rightarrow> Some (nat ((int (head_block_number (dyn_props d)) - int (last_irreversible_block_num (dyn_props d)) + 1) mod 2 ^ 32)))"

definition is_known_transaction :: "crypto_lib \<Rightarrow> node \<Rightarrow> signed_transaction \<Rightarrow> bool" where
  "is_known_transaction X n t \<longleftrightarrow> \<not> fmpred (\<lambda>_ x. to_id x \<noteq> transaction_id X t) (objs (trx_index n))"

definition model_ops ::
  "crypto_lib \<Rightarrow> block_lib \<Rightarrow> fc_lib \<Rightarrow> string_lib \<Rightarrow> (nat \<times> nat) list \<Rightarrow> 32 word \<Rightarrow> node chain_ops" where
  "model_ops X B F S cps skip =
     \<lparr>do_block = (\<lambda>b n. (block_window X B F S cps skip b n, apply_block X B F S cps skip b n)),
      head_id = (\<lambda>n. head_block_id (dyn_props (state n))),
      head_number = (\<lambda>n. head_block_number (dyn_props (state n))),
      do_trx = (\<lambda>t n. emap (\<lambda>(rs, n'). (signed_transaction.extend t \<lparr>operation_results = rs\<rparr>, n')) (apply_transaction X F S skip t n)),
      known_trx = is_known_transaction X\<rparr>"

section \<open>Lemmas\<close>

subsection \<open>Chains of states\<close>

text \<open>The blocks \<open>bs\<close>, newest first, lead from each of the copies \<open>ws\<close> to the next and to the state \<open>w\<close>.\<close>

fun grown :: "'w chain_ops \<Rightarrow> signed_block list \<Rightarrow> 'w \<Rightarrow> 'w list \<Rightarrow> bool" where
  "grown Op [] w [] \<longleftrightarrow> True"
| "grown Op (b # bs) w (v # ws) \<longleftrightarrow> snd (do_block Op b v) = Inr w \<and> grown Op bs v ws"
| "grown Op _ w _ \<longleftrightarrow> False"

lemma grown_length: "grown Op bs w ws \<Longrightarrow> length bs = length ws"
  by (induction Op bs w ws rule: grown.induct) auto

lemma grown_take: "grown Op bs w ws \<Longrightarrow> grown Op (take n bs) w (take n ws)"
  by (induction Op bs w ws arbitrary: n rule: grown.induct) (auto simp: take_Cons' split: nat.splits)

lemma grown_drop: "grown Op bs w ws \<Longrightarrow> n \<le> length ws \<Longrightarrow> grown Op (drop n bs) ((w # ws) ! n) (drop n ws)"
proof (induction Op bs w ws arbitrary: n rule: grown.induct)
  case (2 Op b bs w v ws)
  then show ?case by (cases n) auto
qed auto

text \<open>Applying the blocks again, oldest first, gives the state again.\<close>

lemma grown_replay:
  "grown Op bs w ws \<Longrightarrow> n \<le> length ws \<Longrightarrow> efold (\<lambda>b w. snd (do_block Op b w)) (rev (take n bs)) ((w # ws) ! n) = Inr w"
proof (induction Op bs w ws arbitrary: n rule: grown.induct)
  case (2 Op b bs w v ws)
  show ?case
  proof (cases n)
    case (Suc m)
    with 2 have "efold (\<lambda>b w. snd (do_block Op b w)) (rev (take m bs)) ((v # ws) ! m) = Inr v" by simp
    with 2(2) Suc show ?thesis by (simp add: efold_append)
  qed simp
qed auto

subsection \<open>What stays\<close>

text \<open>No session is open; and the operations leave the stored items as they are and the tree well-formed.\<close>

definition settled :: "'w control \<Rightarrow> bool" where
  "settled c \<longleftrightarrow> active c = 0 \<and> \<not> pending_session c"

definition keeps_items :: "block_lib \<Rightarrow> 'w control \<Rightarrow> 'w control \<Rightarrow> bool" where
  "keeps_items B c c' \<longleftrightarrow> items (fork_db c') = items (fork_db c) \<and> (fork_ok B (fork_db c) \<longrightarrow> fork_ok B (fork_db c'))"

lemma keeps_items_refl [simp]: "keeps_items B c c"
  by (simp add: keeps_items_def)

lemma keeps_items_trans: "keeps_items B c c' \<Longrightarrow> keeps_items B c' c'' \<Longrightarrow> keeps_items B c c''"
  by (simp add: keeps_items_def)

lemma keeps_items_data: "keeps_items B c c' \<Longrightarrow> data_at c' = data_at c" "keeps_items B c c' \<Longrightarrow> item_at (fork_db c') = item_at (fork_db c)"
  by (simp_all add: fun_eq_iff keeps_items_def data_at_def item_at_def)

text \<open>A step of the fork database that keeps the items.\<close>

lemma keeps_items_step:
  "fork_step B (fork_db c) (fork_db c') \<Longrightarrow> items (fork_db c') = items (fork_db c) \<Longrightarrow> keeps_items B c c'"
  by (auto simp: keeps_items_def intro: fork_step_ok)

lemma set_max_size_items [simp]: "items (set_max_size n f) = items f"
  by (simp add: set_max_size_def Let_def split: option.split)

lemma set_window_simps [simp]:
  "world (set_window win c) = world c" "undo_copies (set_window win c) = undo_copies c" "active (set_window win c) = active c"
  "pending_session (set_window win c) = pending_session c" "popped_tx (set_window win c) = popped_tx c"
  "pending_tx (set_window win c) = pending_tx c"
  by (simp_all add: set_window_def split: option.split)

lemma set_window_keeps: "keeps_items B c (set_window win c)"
proof (cases win)
  case (Some n)
  have "fork_step B (fork_db c) (set_max_size n (fork_db c))" by (rule step_max_size)
  then show ?thesis by (intro keeps_items_step) (simp_all add: set_window_def Some)
qed (simp add: set_window_def)

lemma set_window_fork: "fork_db c = fork_db c' \<Longrightarrow> fork_db (set_window win c) = fork_db (set_window win c')"
  by (cases win) (simp_all add: set_window_def)

lemma apply_stored_cases:
  assumes "settled c" and "apply_stored Op P B i b c = (r, c')"
  shows "settled c'" and "keeps_items B c c'"
    and "\<forall>e. r = Inl e \<longrightarrow> snd (do_block Op b (world c)) = Inl e \<and> world c' = world c \<and> undo_copies c' = take (undo_max c) (undo_copies c)"
    and "\<forall>u. r = Inr u \<longrightarrow> snd (do_block Op b (world c)) = Inr (world c') \<and> undo_copies c' = world c # take (undo_max c) (undo_copies c)"
proof -
  obtain win q where q: "do_block Op b (world c) = (win, q)" by (meson surj_pair)
  let ?c = "set_window win (start_session c)"
  have k: "keeps_items B c ?c"
    using set_window_keeps [of B c win] set_window_fork [of c "start_session c" win] by (simp add: keeps_items_def start_session_def)
  have "settled c' \<and> keeps_items B c c' \<and>
      (\<forall>e. r = Inl e \<longrightarrow> q = Inl e \<and> world c' = world c \<and> undo_copies c' = take (undo_max c) (undo_copies c)) \<and>
      (\<forall>u. r = Inr u \<longrightarrow> q = Inr (world c') \<and> undo_copies c' = world c # take (undo_max c) (undo_copies c))"
    using assms q k by (cases q)
      (auto simp: apply_stored_def Let_def start_session_def undo_session_def commit_session_def settled_def keeps_items_def)
  then show "settled c'" and "keeps_items B c c'"
    and "\<forall>e. r = Inl e \<longrightarrow> snd (do_block Op b (world c)) = Inl e \<and> world c' = world c \<and> undo_copies c' = take (undo_max c) (undo_copies c)"
    and "\<forall>u. r = Inr u \<longrightarrow> snd (do_block Op b (world c)) = Inr (world c') \<and> undo_copies c' = world c # take (undo_max c) (undo_copies c)"
    by (simp_all add: q)
qed

subsection \<open>Popping blocks\<close>

text \<open>The exceptions of \<^verbatim>\<open>pop_block\<close>: the block, its predecessor or the undo state is gone.\<close>

definition pop_error :: "error \<Rightarrow> bool" where
  "pop_error e \<longleftrightarrow> e \<in> {Thrown ''there are no blocks to pop'', Assert_failed ''no blocks to pop'',
     Assert_failed ''poping block would leave head block null'', Assert_failed ''_active_sessions == 0'', Assert_failed ''!_stack.empty()''}"

lemma pop_block_cases:
  assumes "settled c" and "pop_block Op P B c = (r, c')"
  shows "settled c' \<and> keeps_items B c c' \<and>
    (\<forall>e. r = Inl e \<longrightarrow> pop_error e \<and> world c' = world c \<and> undo_copies c' = undo_copies c) \<and>
    (\<forall>u. r = Inr u \<longrightarrow> undo_copies c = world c' # undo_copies c')"
proof -
  have rc: "reset_pending c = c" using assms(1) by (simp add: settled_def reset_pending_def)
  show ?thesis
  proof (cases "fetch_block_by_id P B (head_id Op (world c)) c")
    case None
    with assms rc show ?thesis by (auto simp: pop_block_def pop_error_def)
  next
    case (Some b)
    show ?thesis
    proof (cases "pop_head (fork_db c)")
      case (Inl e)
      then have "pop_error e" by (auto simp: pop_head_def pop_error_def split: option.splits)
      with Some Inl assms rc show ?thesis by (auto simp: pop_block_def)
    next
      case (Inr f)
      have "items f = items (fork_db c)" using Inr by (auto simp: pop_head_def split: option.splits)
      then have k: "keeps_items B c (c\<lparr>fork_db := f\<rparr>)" by (intro keeps_items_step) (auto intro: step_pop Inr)
      have "active c = 0" using assms(1) by (simp add: settled_def)
      then show ?thesis
        using Some Inr assms rc k
        by (cases "undo_copies c") (auto simp: pop_block_def pop_undo_def pop_error_def settled_def keeps_items_def)
    qed
  qed
qed

lemma pop_until_cases:
  assumes "settled c" and "pop_until Op P B target c = (r, c')"
  shows "settled c' \<and> keeps_items B c c' \<and>
    (\<exists>n \<le> length (undo_copies c). world c' = (world c # undo_copies c) ! n \<and> undo_copies c' = drop n (undo_copies c) \<and>
      (\<forall>i < n. head_id Op ((world c # undo_copies c) ! i) \<noteq> target)) \<and>
    (\<forall>e. r = Inl e \<longrightarrow> pop_error e) \<and> (\<forall>u. r = Inr u \<longrightarrow> head_id Op (world c') = target)"
  using assms
proof (induction Op P B target c rule: pop_until.induct)
  case (1 Op P B target c)
  show ?case
  proof (cases "head_id Op (world c) = target")
    case True
    with 1(3) show ?thesis using 1(2) by (auto simp: pop_until.simps [of Op P B target c] intro!: exI [of _ 0])
  next
    case False
    obtain q d where q: "pop_block Op P B c = (q, d)" by (meson surj_pair)
    note K = pop_block_cases [OF 1(2) q]
    show ?thesis
    proof (cases q)
      case (Inl e)
      with 1(3) False q have "r = Inl e" "c' = d" by (auto simp: pop_until.simps [of Op P B target c])
      with K Inl show ?thesis by (auto intro!: exI [of _ 0])
    next
      case (Inr u)
      with 1(3) False q have r: "pop_until Op P B target d = (r, c')" by (simp add: pop_until.simps [of Op P B target c])
      from K have d: "settled d" by simp
      from 1(1) [OF False q [symmetric] Inr d r] obtain n where
        n: "n \<le> length (undo_copies d)" "world c' = (world d # undo_copies d) ! n" "undo_copies c' = drop n (undo_copies d)"
          "\<forall>i < n. head_id Op ((world d # undo_copies d) ! i) \<noteq> target"
        and rest: "settled c'" "keeps_items B d c'" "\<forall>e. r = Inl e \<longrightarrow> pop_error e" "\<forall>u. r = Inr u \<longrightarrow> head_id Op (world c') = target"
        by auto
      have e: "undo_copies c = world d # undo_copies d" using K Inr by simp
      have "\<forall>i < Suc n. head_id Op ((world c # undo_copies c) ! i) \<noteq> target"
        using n(4) False by (simp add: e nth_Cons split: nat.split)
      then have "\<exists>n \<le> length (undo_copies c). world c' = (world c # undo_copies c) ! n \<and> undo_copies c' = drop n (undo_copies c) \<and>
          (\<forall>i < n. head_id Op ((world c # undo_copies c) ! i) \<noteq> target)"
        using n(1-3) by (intro exI [of _ "Suc n"]) (simp add: e)
      moreover have "keeps_items B c c'" using K rest(2) by (blast intro: keeps_items_trans)
      ultimately show ?thesis using rest by blast
    qed
  qed
qed

subsection \<open>The chain and the tree\<close>

text \<open>What the code relies on: a block is only applied to the state of its previous block, and becomes its head.\<close>

locale chain_laws = block_laws +
  fixes Op :: "'w chain_ops"
  assumes block_linked: "snd (do_block Op b w) = Inr w' \<Longrightarrow>
    previous b = head_id Op w \<and> head_id Op w' = block_id B b \<and> head_number Op w' = block_num B b"

text \<open>The blocks in play: no two of them have the same id, and none is so high that its number wraps around.\<close>

definition distinct_blocks :: "block_lib \<Rightarrow> signed_block set \<Rightarrow> bool" where
  "distinct_blocks B S \<longleftrightarrow> inj_on (block_id B) S \<and> (\<forall>b \<in> S. 0 < block_num B b)"

text \<open>
  Between two calls: no session is open, the tree is well-formed, and the chain grew block by block, as far as it
  can be undone.
\<close>

definition history_ok :: "'w chain_ops \<Rightarrow> signed_block set \<Rightarrow> 'w control \<Rightarrow> bool" where
  "history_ok Op S c \<longleftrightarrow> (\<exists>bs. grown Op bs (world c) (undo_copies c) \<and> set bs \<subseteq> S)"

definition control_ok :: "'w chain_ops \<Rightarrow> block_lib \<Rightarrow> signed_block set \<Rightarrow> 'w control \<Rightarrow> bool" where
  "control_ok Op B S c \<longleftrightarrow> settled c \<and> history_ok Op S c \<and> fork_ok B (fork_db c) \<and>
     (\<forall>a. a |\<in>| fmdom (items (fork_db c)) \<longrightarrow> data_at c a \<in> S)"

lemma control_ok_keeps:
  "control_ok Op B S c \<Longrightarrow> keeps_items B c c' \<Longrightarrow> settled c' \<Longrightarrow> history_ok Op S c' \<Longrightarrow> control_ok Op B S c'"
  using keeps_items_data(1) [of B c c'] by (auto simp: control_ok_def keeps_items_def)

lemma history_ok_apply:
  assumes "history_ok Op S c" and "settled c" and "b \<in> S" and "apply_stored Op P B i b c = (r, c')"
  shows "history_ok Op S c'"
proof -
  from assms(1) obtain bs where bs: "grown Op bs (world c) (undo_copies c)" "set bs \<subseteq> S" by (auto simp: history_ok_def)
  note K = apply_stored_cases [OF assms(2,4)] and t = grown_take [OF bs(1), of "undo_max c"]
  have "set (take (undo_max c) bs) \<subseteq> S" using bs(2) set_take_subset by fast
  then show ?thesis
  proof (cases r)
    case (Inr u)
    with K(4) t have "grown Op (b # take (undo_max c) bs) (world c') (undo_copies c')" by simp
    with \<open>set (take (undo_max c) bs) \<subseteq> S\<close> assms(3) show ?thesis unfolding history_ok_def by (intro exI [of _ "b # take (undo_max c) bs"]) simp
  qed (use K(3) t in \<open>auto simp: history_ok_def\<close>)
qed

lemma history_ok_pop:
  assumes "history_ok Op S c" and "settled c" and "pop_until Op P B target c = (r, c')"
  shows "history_ok Op S c'"
proof -
  from assms(1) obtain bs where bs: "grown Op bs (world c) (undo_copies c)" "set bs \<subseteq> S" by (auto simp: history_ok_def)
  from pop_until_cases [OF assms(2,3)] obtain n where "n \<le> length (undo_copies c)" "world c' = (world c # undo_copies c) ! n"
    "undo_copies c' = drop n (undo_copies c)" by blast
  with grown_drop [OF bs(1)] have "grown Op (drop n bs) (world c') (undo_copies c')" by simp
  moreover have "set (drop n bs) \<subseteq> S" using bs(2) set_drop_subset by fast
  ultimately show ?thesis by (auto simp: history_ok_def)
qed

lemma item_fields:
  assumes "fork_ok B f" and "a |\<in>| fmdom (items f)"
  shows "item_id (item_at f a) = block_id B (item_data (item_at f a))" and "item_num (item_at f a) = block_num B (item_data (item_at f a))"
  using assms(2) fork_okD(2) [OF assms(1), of a] by (auto simp: fmlookup_dom_iff item_ok_def item_at_def)

context chain_laws
begin

text \<open>The branch that ends in the head of the chain holds the blocks that were applied last.\<close>

lemma branch_blocks:
  assumes ok: "fork_ok B f" and S: "distinct_blocks B S" "\<And>a. a |\<in>| fmdom (items f) \<Longrightarrow> item_data (item_at f a) \<in> S"
    and "path f a l d" and "a |\<in>| fmdom (items f)" and "grown Op bs w ws" and "set bs \<subseteq> S" and "item_id (item_at f a) = head_id Op w"
  shows "(\<forall>i < length bs. i \<le> length l \<longrightarrow> bs ! i = item_data (item_at f ((l @ [d]) ! i))) \<and>
    (\<forall>i \<le> length ws. i \<le> length l \<longrightarrow> head_id Op ((w # ws) ! i) = item_id (item_at f ((l @ [d]) ! i))) \<and>
    (Suc (length l) \<le> length ws \<longrightarrow> head_id Op ((w # ws) ! Suc (length l)) = previous_id (item_at f d))"
  using assms(4-)
proof (induction l arbitrary: a bs w ws)
  case Nil
  then show ?case
  proof (cases bs)
    case (Cons b bs')
    with Nil obtain v ws' where ws: "ws = v # ws'" and b: "snd (do_block Op b v) = Inr w" by (cases ws) auto
    from block_linked [OF b] Nil item_fields(1) [OF ok Nil(2)] have id: "block_id B b = block_id B (item_data (item_at f a))" by simp
    then have "b = item_data (item_at f a)"
      using S(1) S(2) [OF Nil(2)] Nil(4) Cons by (auto simp: distinct_blocks_def dest: inj_onD)
    with Nil ws Cons block_linked [OF b] show ?thesis by (auto simp: previous_id_def)
  qed (use grown_length in fastforce)
next
  case (Cons x l)
  then obtain p where x: "x = a" and p: "lock_prev f a = Some p" and l: "path f p l d" by (auto split: option.splits)
  note P = item_prev_older [OF ok Cons.prems(2) lock_prev_prev [OF p, THEN conjunct1]]
  show ?case
  proof (cases bs)
    case Nil
    with Cons.prems have "ws = []" using grown_length by fastforce
    with Nil Cons.prems x show ?thesis by simp
  next
    case (Cons b bs')
    with Cons.prems obtain v ws' where ws: "ws = v # ws'" and b: "snd (do_block Op b v) = Inr w" and g: "grown Op bs' v ws'"
      by (cases ws) auto
    from block_linked [OF b] Cons.prems(5) item_fields(1) [OF ok Cons.prems(2)]
    have id: "block_id B b = block_id B (item_data (item_at f a))" by simp
    then have ba: "b = item_data (item_at f a)"
      using S(1) S(2) [OF Cons.prems(2)] Cons.prems(4) Cons by (auto simp: distinct_blocks_def dest: inj_onD)
    have "item_id (item_at f p) = head_id Op v" using P(3) block_linked [OF b] ba by (simp add: previous_id_def)
    from Cons.IH [OF l P(2) g _ this] Cons.prems(4) Cons have IH:
      "(\<forall>i < length bs'. i \<le> length l \<longrightarrow> bs' ! i = item_data (item_at f ((l @ [d]) ! i))) \<and>
       (\<forall>i \<le> length ws'. i \<le> length l \<longrightarrow> head_id Op ((v # ws') ! i) = item_id (item_at f ((l @ [d]) ! i))) \<and>
       (Suc (length l) \<le> length ws' \<longrightarrow> head_id Op ((v # ws') ! Suc (length l)) = previous_id (item_at f d))" by simp
    then show ?thesis using Cons ws ba x Cons.prems(5) by (auto simp: nth_Cons split: nat.splits)
  qed
qed

text \<open>A block at or above the number of another one is not its previous block.\<close>

lemma not_previous:
  assumes "fork_ok B f" and "distinct_blocks B S" "item_data (item_at f d) \<in> S"
    and "x |\<in>| fmdom (items f)" and "d |\<in>| fmdom (items f)" and "item_num (item_at f d) \<le> item_num (item_at f x)"
  shows "item_id (item_at f x) \<noteq> previous_id (item_at f d)"
proof
  assume eq: "item_id (item_at f x) = previous_id (item_at f d)"
  let ?m = "num_from_id B (previous_id (item_at f d))"
  have "item_num (item_at f x) = ?m"
    using item_fields [OF assms(1,4)] num_from_block_id [of "item_data (item_at f x)"] eq by simp
  moreover have "item_num (item_at f d) = (?m + 1) mod 2 ^ 32"
    using item_fields [OF assms(1,5)] by (simp add: block_num_def previous_id_def)
  moreover have "0 < item_num (item_at f d)" using item_fields [OF assms(1,5)] assms(2,3) by (simp add: distinct_blocks_def)
  moreover have "?m + 1 < 2 ^ 32 \<or> ?m + 1 = 2 ^ 32" using num_from_id_less [of B "previous_id (item_at f d)"] by linarith
  ultimately show False using assms(6) by auto
qed

end

subsection \<open>Switching forks\<close>

text \<open>The state stands \<open>j\<close> blocks above the state \<open>wa\<close>, with the head \<open>target\<close>, as far as the undo history reaches.\<close>

definition stands_on :: "'w chain_ops \<Rightarrow> 'w \<Rightarrow> nat \<Rightarrow> nat \<Rightarrow> 'w control \<Rightarrow> bool" where
  "stands_on Op wa target j c \<longleftrightarrow>
     (\<forall>i \<le> length (undo_copies c). (i < j \<longrightarrow> head_id Op ((world c # undo_copies c) ! i) \<noteq> target) \<and>
        (i = j \<longrightarrow> (world c # undo_copies c) ! i = wa))"

lemma stands_on_pop:
  assumes "stands_on Op wa target j c" and "head_id Op wa = target" and "settled c" and "pop_until Op P B target c = (Inr u, c')"
  shows "world c' = wa"
proof -
  from pop_until_cases [OF assms(3,4)] obtain n where n: "n \<le> length (undo_copies c)" "world c' = (world c # undo_copies c) ! n"
    "\<forall>i < n. head_id Op ((world c # undo_copies c) ! i) \<noteq> target" and h: "head_id Op (world c') = target" by blast
  have "\<not> n < j" using assms(1) n(1,2) h unfolding stands_on_def by metis
  moreover have "\<not> j < n"
  proof
    assume j: "j < n"
    then have "(world c # undo_copies c) ! j = wa" using assms(1) n(1) unfolding stands_on_def by (metis less_imp_le order_trans)
    with n(3) j assms(2) show False by metis
  qed
  ultimately have "n = j" by simp
  with assms(1) n(1,2) show ?thesis unfolding stands_on_def by metis
qed

lemma restore_cases:
  assumes "settled c" and "history_ok Op S c" and "\<forall>a \<in> set as. data_at c a \<in> S"
    and "efold (\<lambda>b w. snd (do_block Op b w)) (map (data_at c) as) (world c) = Inr w"
  shows "\<exists>c'. restore Op P B i as c = (Inr (), c') \<and> settled c' \<and> keeps_items B c c' \<and> history_ok Op S c' \<and> world c' = w"
  using assms
proof (induction as arbitrary: c)
  case (Cons a as)
  obtain r d where r: "apply_stored Op P B i (data_at c a) c = (r, d)" by (meson surj_pair)
  note K = apply_stored_cases [OF Cons.prems(1) r]
  from Cons.prems(4) obtain w1 where w1: "snd (do_block Op (data_at c a) (world c)) = Inr w1"
    and rest: "efold (\<lambda>b w. snd (do_block Op b w)) (map (data_at c) as) w1 = Inr w" by auto
  from K(3) w1 obtain u where u: "r = Inr u" by (cases r) auto
  have d: "world d = w1" using K(4) u w1 by simp
  have data: "data_at d = data_at c" using keeps_items_data(1) [OF K(2)] .
  have "history_ok Op S d" using history_ok_apply [OF Cons.prems(2,1) _ r] Cons.prems(3) by simp
  from Cons.IH [OF K(1) this] Cons.prems(3) rest obtain c' where c': "restore Op P B i as d = (Inr (), c')" "settled c'" "keeps_items B d c'"
    "history_ok Op S c'" "world c' = w" unfolding data d by auto
  with keeps_items_trans [OF K(2)] r u show ?case by auto
qed auto

lemma on_fork_simps [simp]:
  "world (on_fork g c) = world c" "undo_copies (on_fork g c) = undo_copies c" "active (on_fork g c) = active c"
  "pending_session (on_fork g c) = pending_session c" "fork_db (on_fork g c) = g (fork_db c)"
  "popped_tx (on_fork g c) = popped_tx c" "pending_tx (on_fork g c) = pending_tx c" "settled (on_fork g c) = settled c"
  "history_ok Op S (on_fork g c) = history_ok Op S c" "stands_on Op wa target j (on_fork g c) = stands_on Op wa target j c"
  by (simp_all add: on_fork_def settled_def history_ok_def stands_on_def)

lemma keeps_items_fork: "fork_step B (fork_db c) (g (fork_db c)) \<Longrightarrow> items (g (fork_db c)) = items (fork_db c) \<Longrightarrow> keeps_items B c (on_fork g c)"
  by (rule keeps_items_step) simp_all

lemma remove_bad:
  fixes c :: "'w control" and B :: block_lib
  defines "rm \<equiv> \<lambda>a (c :: 'w control). on_fork (remove_block (block_id B (data_at c a))) c"
  shows "keeps_items B c (fold rm bad c) \<and> world (fold rm bad c) = world c \<and> undo_copies (fold rm bad c) = undo_copies c \<and>
    settled (fold rm bad c) = settled c"
proof (induction bad arbitrary: c)
  case (Cons a bad)
  have "keeps_items B c (rm a c)" unfolding rm_def by (intro keeps_items_fork step_remove) (simp add: remove_block_def)
  with Cons [of "rm a c"] show ?case by (auto simp: rm_def intro: keeps_items_trans)
qed simp

lemma recover_cases:
  assumes c: "settled c" "history_ok Op S c" and st: "stands_on Op wa target j c" "head_id Op wa = target"
    and snd: "hd second |\<in>| fmdom (items (fork_db c))" "\<forall>a \<in> set second. data_at c a \<in> S" "target = previous (data_at c (last second))"
    and w: "efold (\<lambda>b w. snd (do_block Op b w)) (map (data_at c) (rev second)) wa = Inr w"
    and r: "recover Op P B i e bad second c = (r, c')"
  shows "settled c' \<and> keeps_items B c c' \<and> history_ok Op S c' \<and> (\<exists>e'. r = Inl e' \<and> (pop_error e' \<or> world c' = w))"
proof -
  let ?c1 = "fold (\<lambda>a c. on_fork (remove_block (block_id B (data_at c a))) c) bad c"
  let ?c2 = "on_fork (set_head (hd second)) ?c1"
  note rm = remove_bad [where c = c and B = B and bad = bad]
  have "keeps_items B ?c1 ?c2"
    by (rule keeps_items_fork, rule step_set_head) (use rm snd(1) in \<open>simp_all add: keeps_items_def set_head_def\<close>)
  with rm have k2: "keeps_items B c ?c2" by (blast intro: keeps_items_trans)
  have c2: "settled ?c2" "history_ok Op S ?c2" "stands_on Op wa target j ?c2"
    using rm c st(1) by (simp_all add: history_ok_def stands_on_def)
  have data: "data_at ?c2 = data_at c" by (rule keeps_items_data(1) [OF k2])
  obtain q d where q: "pop_until Op P B target ?c2 = (q, d)" by (meson surj_pair)
  note K = pop_until_cases [OF c2(1) q]
  have d: "settled d" "keeps_items B ?c2 d" "history_ok Op S d" using K history_ok_pop [OF c2(2,1) q] by simp_all
  have kd: "keeps_items B c d" by (rule keeps_items_trans [OF k2 d(2)])
  show ?thesis
  proof (cases q)
    case (Inl e')
    with r q data snd(3) have "r = Inl e'" "c' = d" by (auto simp: recover_def Let_def)
    with K Inl d kd show ?thesis by simp
  next
    case (Inr u)
    have wd: "world d = wa" by (rule stands_on_pop [OF c2(3) st(2) c2(1) q [unfolded Inr]])
    have dd: "data_at d = data_at c" by (rule keeps_items_data(1) [OF kd])
    have "\<exists>c'. restore Op P B i (rev second) d = (Inr (), c') \<and> settled c' \<and> keeps_items B d c' \<and> history_ok Op S c' \<and> world c' = w"
      by (rule restore_cases) (use d snd(2) w in \<open>simp_all add: dd wd\<close>)
    then obtain c4 where c4: "restore Op P B i (rev second) d = (Inr (), c4)" "settled c4" "keeps_items B d c4" "history_ok Op S c4" "world c4 = w"
      by blast
    with r q Inr data snd(3) have "r = Inl e" "c' = c4" by (auto simp: recover_def Let_def)
    with c4 keeps_items_trans [OF kd c4(3)] show ?thesis by simp
  qed
qed

lemma apply_stored_head: "apply_stored Op P B i b c = (r, c') \<Longrightarrow> fork_head (fork_db c') = fork_head (fork_db c)"
  by (auto simp: apply_stored_def start_session_def undo_session_def commit_session_def set_window_def set_max_size_def Let_def
    split: prod.splits sum.splits option.splits)

lemma stands_on_apply:
  assumes "stands_on Op wa target j c" and "undo_copies c' = world c # take m (undo_copies c)" and "head_id Op (world c') \<noteq> target"
  shows "stands_on Op wa target (Suc j) c'"
  unfolding stands_on_def
proof (intro allI impI conjI)
  fix k
  assume k: "k \<le> length (undo_copies c')"
  { assume "k < Suc j"
    then show "head_id Op ((world c' # undo_copies c') ! k) \<noteq> target"
      using assms k by (cases k) (auto simp: stands_on_def nth_Cons split: nat.splits) }
  assume "k = Suc j"
  then show "(world c' # undo_copies c') ! k = wa"
    using assms(1,2) k by (auto simp: stands_on_def nth_Cons split: nat.splits)
qed

context chain_laws
begin

lemma push_fork_cases:
  assumes "settled c" and "history_ok Op S c" and "stands_on Op wa target j c" and st: "head_id Op wa = target"
    and "hd second |\<in>| fmdom (items (fork_db c))" "\<forall>a \<in> set second. data_at c a \<in> S" "target = previous (data_at c (last second))"
    and "efold (\<lambda>b w. snd (do_block Op b w)) (map (data_at c) (rev second)) wa = Inr w"
    and "\<forall>a \<in> set todo. data_at c a \<in> S \<and> block_id B (data_at c a) \<noteq> target"
    and "push_fork Op P B i todo second c = (r, c')"
  shows "settled c' \<and> keeps_items B c c' \<and> history_ok Op S c' \<and> (\<forall>e. r = Inl e \<longrightarrow> pop_error e \<or> world c' = w) \<and>
    (\<forall>x. r = Inr x \<longrightarrow> x \<and> fork_head (fork_db c') = fork_head (fork_db c) \<and>
      (todo \<noteq> [] \<longrightarrow> head_id Op (world c') = block_id B (data_at c (last todo)) \<and> head_number Op (world c') = block_num B (data_at c (last todo))))"
  using assms(1-3,5-)
proof (induction todo arbitrary: c j)
  case (Cons a todo)
  obtain q d where q: "apply_stored Op P B (item_id (item_at (fork_db c) a)) (data_at c a) c = (q, d)" by (meson surj_pair)
  note K = apply_stored_cases [OF Cons.prems(1) q]
  have data: "data_at d = data_at c" by (rule keeps_items_data(1) [OF K(2)])
  have h: "history_ok Op S d" using history_ok_apply [OF Cons.prems(2,1) _ q] Cons.prems(8) by simp
  have dom: "hd second |\<in>| fmdom (items (fork_db d))" using Cons.prems(4) K(2) by (simp add: keeps_items_def)
  show ?case
  proof (cases q)
    case (Inl e)
    have "world d = world c" "undo_copies d = take (undo_max c) (undo_copies c)" using K(3) Inl by simp_all
    then have s: "stands_on Op wa target j d" using Cons.prems(3) by (auto simp: stands_on_def nth_Cons split: nat.splits)
    have "recover Op P B i e (a # todo) second d = (r, c')" using Cons.prems(9) q Inl by simp
    from recover_cases [OF K(1) h s st dom _ _ _ this] Cons.prems(5-7)
    have "settled c' \<and> keeps_items B d c' \<and> history_ok Op S c' \<and> (\<exists>e'. r = Inl e' \<and> (pop_error e' \<or> world c' = w))" by (simp add: data)
    then show ?thesis using keeps_items_trans [OF K(2)] by auto
  next
    case (Inr u)
    then have b: "snd (do_block Op (data_at c a) (world c)) = Inr (world d)" and cp: "undo_copies d = world c # take (undo_max c) (undo_copies c)"
      using K(4) by simp_all
    from block_linked [OF b] have hd: "head_id Op (world d) = block_id B (data_at c a)" "head_number Op (world d) = block_num B (data_at c a)"
      by simp_all
    have s: "stands_on Op wa target (Suc j) d" by (rule stands_on_apply [OF Cons.prems(3) cp]) (use hd Cons.prems(8) in simp)
    have run: "push_fork Op P B i todo second d = (r, c')" using Cons.prems(9) q Inr by simp
    have "\<forall>a \<in> set second. data_at d a \<in> S" "target = previous (data_at d (last second))"
      "efold (\<lambda>b w. snd (do_block Op b w)) (map (data_at d) (rev second)) wa = Inr w"
      "\<forall>a \<in> set todo. data_at d a \<in> S \<and> block_id B (data_at d a) \<noteq> target"
      using Cons.prems(5-8) by (simp_all add: data)
    note IH = Cons.IH [OF K(1) h s dom this run, unfolded data]
    have "todo = [] \<Longrightarrow> c' = d" using run by simp
    with IH show ?thesis using keeps_items_trans [OF K(2), of c'] apply_stored_head [OF q] hd by (cases "todo = []") (simp_all, blast+)
  qed
qed auto

end

lemma hold_simps [simp]:
  "world (hold as c) = world c" "undo_copies (hold as c) = undo_copies c" "settled (hold as c) = settled c"
  "history_ok Op S (hold as c) = history_ok Op S c" "items (fork_db (hold as c)) = items (fork_db c)"
  "index (fork_db (hold as c)) = index (fork_db c)" "fork_head (fork_db (hold as c)) = fork_head (fork_db c)"
  by (simp_all add: hold_def)

lemma hold_keeps: "keeps_items B c (hold as c)"
  unfolding hold_def by (rule keeps_items_fork) (simp_all add: step_hold)

lemma hold_ok: "control_ok Op B S c \<Longrightarrow> control_ok Op B S (hold as c)"
  by (rule control_ok_keeps [OF _ hold_keeps]) (auto simp: control_ok_def)

lemma path_hd: "l \<noteq> [] \<Longrightarrow> path f a (butlast l) (last l) \<Longrightarrow> hd l = a"
  by (cases l) (auto split: if_splits)

context chain_laws
begin

lemma path_dom: "fork_ok B f \<Longrightarrow> a |\<in>| fmdom (items f) \<Longrightarrow> path f a l d \<Longrightarrow> set (l @ [d]) \<subseteq> {x. x |\<in>| fmdom (items f)}"
  by (induction l arbitrary: a) (auto split: option.splits dest: lock_prev_older(2))

text \<open>Popping down to the common ancestor pops exactly the blocks of the second branch.\<close>

lemma pop_branch:
  assumes c: "control_ok Op B S c" and S: "distinct_blocks B S" and b: "fmlookup (index (fork_db c)) (head_id Op (world c)) = Some b"
    and s: "second \<noteq> []" "path (fork_db c) b (butlast second) (last second)"
    and d: "settled d" "world d = world c" "undo_copies d = undo_copies c"
    and pop: "pop_until Op P B (previous (data_at c (last second))) d = (Inr u, d')"
  shows "undo_copies d' = drop (length second) (undo_copies c)" and "length second \<le> length (undo_copies c)"
    and "efold (\<lambda>b w. snd (do_block Op b w)) (map (data_at c) (rev second)) (world d') = Inr (world c)"
proof -
  let ?f = "fork_db c" and ?w = "world c" and ?ws = "undo_copies c" and ?l = "butlast second" and ?d = "last second" and ?k = "length second"
  have ok: "fork_ok B ?f" and data: "\<And>a. a |\<in>| fmdom (items ?f) \<Longrightarrow> item_data (item_at ?f a) \<in> S"
    using c by (auto simp: control_ok_def data_at_def)
  from c obtain bs where bs: "grown Op bs ?w ?ws" "set bs \<subseteq> S" by (auto simp: control_ok_def history_ok_def)
  have len: "length bs = length ?ws" by (rule grown_length [OF bs(1)])
  note I = index_item [OF ok b]
  note L = branch_blocks [OF ok S data s(2) I(1) bs I(2)]
  have sl: "?l @ [?d] = second" "Suc (length ?l) = ?k" using s(1) by simp_all
  from pop_until_cases [OF d(1) pop] obtain n where n: "n \<le> length ?ws" "world d' = (?w # ?ws) ! n" "undo_copies d' = drop n ?ws"
    "\<forall>i < n. head_id Op ((?w # ?ws) ! i) \<noteq> previous_id (item_at ?f ?d)" and h: "head_id Op (world d') = previous_id (item_at ?f ?d)"
    by (auto simp: d data_at_def previous_id_def)
  have dom: "?d |\<in>| fmdom (items ?f)" and nums: "\<And>i. i < length ?l \<Longrightarrow> item_num (item_at ?f ?d) \<le> item_num (item_at ?f (?l ! i))"
    using path_level [OF ok I(1) s(2)] by auto
  have neq: "item_id (item_at ?f (second ! i)) \<noteq> previous_id (item_at ?f ?d)" if "i < ?k" for i
  proof (rule not_previous [OF ok S data [OF dom] _ dom])
    show "second ! i |\<in>| fmdom (items ?f)" using path_dom [OF ok I(1) s(2)] that s(1) by (auto simp: sl)
    show "item_num (item_at ?f ?d) \<le> item_num (item_at ?f (second ! i))"
      using nums [of i] that sl s(1) by (cases "i < length ?l") (auto simp: nth_butlast last_conv_nth le_less not_less less_diff_conv2)
  qed
  have "\<not> n < ?k"
  proof
    assume "n < ?k"
    then have "head_id Op ((?w # ?ws) ! n) = item_id (item_at ?f (second ! n))" using L n(1) sl by auto
    with neq [OF \<open>n < ?k\<close>] h n(2) show False by simp
  qed
  moreover have "\<not> ?k < n"
  proof
    assume k: "?k < n"
    then have "head_id Op ((?w # ?ws) ! ?k) = previous_id (item_at ?f ?d)" using L n(1) unfolding sl by simp
    with n(4) k show False by blast
  qed
  ultimately have nk: "n = ?k" by simp
  show "undo_copies d' = drop ?k ?ws" "?k \<le> length ?ws" using n nk by simp_all
  have "take ?k bs = map (data_at c) second"
  proof (rule nth_equalityI)
    show "length (take ?k bs) = length (map (data_at c) second)" using n(1) nk len by simp
    fix i
    assume "i < length (take ?k bs)"
    then show "take ?k bs ! i = map (data_at c) second ! i" using L sl by (auto simp: data_at_def)
  qed
  then show "efold (\<lambda>b w. snd (do_block Op b w)) (map (data_at c) (rev second)) (world d') = Inr ?w"
    using grown_replay [OF bs(1) n(1)] n(2) nk by (simp add: rev_map)
qed

end

context chain_laws
begin

lemma pop_until_head:
  assumes "fork_ok B (fork_db c)" and "settled c" and "fork_head (fork_db c) = Some h" and "pop_until Op P B target c = (Inr u, c')"
  shows "\<exists>g. fork_head (fork_db c') = Some g \<and>
    item_num (item_at (fork_db c) g) + (length (undo_copies c) - length (undo_copies c')) = item_num (item_at (fork_db c) h)"
  using assms
proof (induction "length (undo_copies c)" arbitrary: c h rule: less_induct)
  case less
  show ?case
  proof (cases "head_id Op (world c) = target")
    case True
    with less.prems show ?thesis by (simp add: pop_until.simps [of Op P B target c])
  next
    case False
    obtain q d where q: "pop_block Op P B c = (q, d)" by (meson surj_pair)
    with less.prems(4) False obtain v where v: "q = Inr v" and r: "pop_until Op P B target d = (Inr u, c')"
      by (cases q) (auto simp: pop_until.simps [of Op P B target c])
    note K = pop_block_cases [OF less.prems(2) q]
    then have d: "settled d" "keeps_items B c d" "undo_copies c = world d # undo_copies d" using v by simp_all
    have "reset_pending c = c" using less.prems(2) by (simp add: settled_def reset_pending_def)
    with q v have "pop_head (fork_db c) = Inr (fork_db d)"
      by (auto simp: pop_block_def pop_undo_def Let_def split: option.splits sum.splits if_splits list.splits)
    with less.prems(3) obtain p where p: "lock_prev (fork_db c) h = Some p" and "fork_db d = fork_db c\<lparr>fork_head := Some p\<rparr>"
      by (cases "lock_prev (fork_db c) h") (simp_all add: pop_head_def)
    then have hp: "fork_head (fork_db d) = Some p" by simp
    have hd: "h |\<in>| fmdom (items (fork_db c))" using fork_okD(4) [OF less.prems(1,3)] by (auto simp: fmlookup_dom_iff)
    have ok: "fork_ok B (fork_db d)" using d(2) less.prems(1) by (simp add: keeps_items_def)
    have l: "length (undo_copies c') \<le> length (undo_copies d)" using pop_until_cases [OF d(1) r] by auto
    from less.hyps [OF _ ok d(1) hp r] d(3) keeps_items_data(2) [OF d(2)] obtain g where
      "fork_head (fork_db c') = Some g" "item_num (item_at (fork_db c) g) + (length (undo_copies d) - length (undo_copies c')) =
        item_num (item_at (fork_db c) p)" by auto
    with lock_prev_older(3) [OF less.prems(1) hd p] d(3) l show ?thesis by auto
  qed
qed

lemma switch_fork_cases:
  assumes c: "control_ok Op B S c" and S: "distinct_blocks B S"
  obtains r c' where "switch_fork Op P B i h c = Some (r, c')" and "control_ok Op B S c'" and "keeps_items B c c'"
    and "\<forall>e. r = Inl e \<longrightarrow> pop_error e \<or> world c' = world c"
    and "\<forall>x. r = Inr x \<longrightarrow> x \<and> head_id Op (world c') = block_id B (data_at c h) \<and> head_number Op (world c') = block_num B (data_at c h)"
    and "\<forall>x g. r = Inr x \<and> fork_head (fork_db c) = Some g \<longrightarrow>
      (\<exists>g'. fork_head (fork_db c') = Some g' \<and> item_num (item_at (fork_db c) g') < item_num (item_at (fork_db c) g))"
proof -
  note found = that
  let ?f = "fork_db c" and ?first = "block_id B (data_at c h)" and ?second = "head_id Op (world c)"
  have ok: "fork_ok B ?f" and set: "settled c" and hist: "history_ok Op S c"
    and data: "\<And>a. a |\<in>| fmdom (items ?f) \<Longrightarrow> data_at c a \<in> S" using c by (auto simp: control_ok_def)
  have fail: thesis if "fetch_branch_from B ?f ?first ?second = Some (Inl e)" for e
    by (rule found [of "Inl e" c]) (use c that in \<open>simp_all add: switch_fork_def\<close>)
  show thesis
  proof (cases "fmlookup (index ?f) ?first = None \<or> fmlookup (index ?f) ?second = None")
    case True
    then have "fetch_branch_from B ?f ?first ?second = Some (Inl (Assert_failed ''itr != _index.get<block_id>().end()''))"
      by (auto simp: fetch_branch_from_def split: option.splits)
    then show thesis by (rule fail)
  next
    case False
    then obtain a b where a: "fmlookup (index ?f) ?first = Some a" and b: "fmlookup (index ?f) ?second = Some b" by auto
    from fetch_branch_spec [OF ok a b] obtain q where q: "fetch_branch_from B ?f ?first ?second = Some q"
      and br: "\<forall>as bs. q = Inr (as, bs) \<longrightarrow>
        as \<noteq> [] \<and> bs \<noteq> [] \<and> path ?f a (butlast as) (last as) \<and> path ?f b (butlast bs) (last bs) \<and>
        previous_id (item_at ?f (last as)) = previous_id (item_at ?f (last bs)) \<and>
        item_num (item_at ?f (last as)) = item_num (item_at ?f (last bs)) \<and>
        set (butlast as) \<inter> set bs = {} \<and> set as \<inter> set (butlast bs) = {}"
      by (elim exE conjE) (rule that)
    show thesis
    proof (cases q)
      case (Inl e)
      with q show thesis by (intro fail) simp
    next
      case (Inr fs)
      then obtain first second where fs: "q = Inr (first, second)" by (cases fs) auto
      from br [rule_format, OF fs] have ne: "first \<noteq> []" "second \<noteq> []" and pf: "path ?f a (butlast first) (last first)"
        and ps: "path ?f b (butlast second) (last second)"
        and prev: "previous_id (item_at ?f (last first)) = previous_id (item_at ?f (last second))" by blast+
      let ?t = "previous (data_at c (last second))" and ?c1 = "hold (h # first @ second) c"
      obtain p d where p: "pop_until Op P B ?t ?c1 = (p, d)" by (meson surj_pair)
      have k1: "keeps_items B c ?c1" by (rule hold_keeps)
      have s1: "settled ?c1" "history_ok Op S ?c1" using set hist by simp_all
      note K = pop_until_cases [OF s1(1) p]
      have kd: "keeps_items B c d" using keeps_items_trans [OF k1] K by blast
      have d: "settled d" "history_ok Op S d" using K history_ok_pop [OF s1(2,1) p] by simp_all
      have dd: "data_at d = data_at c" by (rule keeps_items_data(1) [OF kd])
      show thesis
      proof (cases p)
        case (Inl e)
        show thesis
          by (rule found [of "Inl e" d]) (use q fs p Inl K control_ok_keeps [OF c kd d] kd in \<open>simp_all add: switch_fork_def\<close>)
      next
        case (Inr u)
        note W = pop_branch [OF c S b ne(2) ps s1(1) _ _ p [unfolded Inr], simplified]
        let ?wa = "world d"
        have st: "stands_on Op ?wa ?t 0 d" by (simp add: stands_on_def)
        have ha: "head_id Op ?wa = ?t" using K Inr by simp
        have ds: "set second \<subseteq> {x. x |\<in>| fmdom (items ?f)}" "set first \<subseteq> {x. x |\<in>| fmdom (items ?f)}"
          using path_dom [OF ok index_item(1) [OF ok b] ps] path_dom [OF ok index_item(1) [OF ok a] pf] ne by simp_all
        have dh: "hd second |\<in>| fmdom (items (fork_db d))" using ds(1) ne(2) hd_in_set [of second] kd by (auto simp: keeps_items_def)
        have up: "block_id B (data_at c x) \<noteq> ?t" if x: "x \<in> set first" for x
        proof -
          have l: "last first |\<in>| fmdom (items ?f)" "x |\<in>| fmdom (items ?f)" using ds(2) ne(1) x by auto
          have "x \<in> set (butlast first @ [last first])" using x ne(1) by simp
          then have "item_num (item_at ?f (last first)) \<le> item_num (item_at ?f x)"
            using path_above [OF ok index_item(1) [OF ok a] pf, of x] by auto
          from not_previous [OF ok S _ l(2,1) this] data [OF l(1)] item_fields(1) [OF ok l(2)]
          show ?thesis by (simp add: data_at_def previous_id_def flip: prev [unfolded previous_id_def])
        qed
        obtain r c' where r: "push_fork Op P B i (rev first) second d = (r, c')" by (meson surj_pair)
        have "settled c' \<and> keeps_items B d c' \<and> history_ok Op S c' \<and> (\<forall>e. r = Inl e \<longrightarrow> pop_error e \<or> world c' = world c) \<and>
          (\<forall>x. r = Inr x \<longrightarrow> x \<and> fork_head (fork_db c') = fork_head (fork_db d) \<and>
            (rev first \<noteq> [] \<longrightarrow> head_id Op (world c') = block_id B (data_at d (last (rev first))) \<and>
              head_number Op (world c') = block_num B (data_at d (last (rev first)))))"
          by (rule push_fork_cases [OF d st ha dh _ _ _ _ r]) (use ds data up W(3) in \<open>auto simp: dd\<close>)
        moreover have "hd first = a" by (rule path_hd [OF ne(1) pf])
        moreover have "block_id B (data_at c a) = block_id B (data_at c h)" using index_item(4) [OF ok a] by (simp add: data_at_def)
        moreover have "block_num B (data_at c a) = block_num B (data_at c h)"
          using num_from_block_id [of "data_at c a"] num_from_block_id [of "data_at c h"] index_item(4) [OF ok a] by (simp add: data_at_def)
        moreover have "switch_fork Op P B i h c = Some (r, c')" using q fs p Inr r by (simp add: switch_fork_def)
        moreover have "\<exists>g'. fork_head (fork_db d) = Some g' \<and> item_num (item_at ?f g') < item_num (item_at ?f g)" if "fork_head ?f = Some g" for g
        proof -
          have g1: "fork_head (fork_db ?c1) = Some g" using that by simp
          have ok1: "fork_ok B (fork_db ?c1)" using ok k1 by (simp add: keeps_items_def)
          from pop_until_head [OF ok1 s1(1) g1 p [unfolded Inr]] W(1,2) ne(2) keeps_items_data(2) [OF k1] show ?thesis
            by (cases second) auto
        qed
        ultimately show thesis
          using found [of r c'] keeps_items_trans [OF kd, of c'] control_ok_keeps [OF c, of c'] ne(1) dd by (simp add: last_rev) blast
      qed
    qed
  qed
qed

end

lemma extend_chain_cases:
  assumes c: "control_ok Op B S c" and "b \<in> S" and r: "extend_chain Op P B b c = (r, c')"
  shows "control_ok Op B S c' \<and> (\<forall>e. r = Inl e \<longrightarrow> world c' = world c) \<and>
    (\<forall>x. r = Inr x \<longrightarrow> \<not> x \<and> snd (do_block Op b (world c)) = Inr (world c'))"
proof -
  obtain q d where q: "apply_stored Op P B (block_id B b) b c = (q, d)" by (meson surj_pair)
  from c have s: "settled c" and h: "history_ok Op S c" by (simp_all add: control_ok_def)
  note K = apply_stored_cases [OF s q]
  have d: "control_ok Op B S d" by (rule control_ok_keeps [OF c K(2,1) history_ok_apply [OF h s assms(2) q]])
  show ?thesis
  proof (cases q)
    case (Inl e)
    have k: "keeps_items B d (on_fork (remove_block (block_id B b)) d)" by (intro keeps_items_fork step_remove) (simp add: remove_block_def)
    have "control_ok Op B S (on_fork (remove_block (block_id B b)) d)"
      by (rule control_ok_keeps [OF d k]) (use d in \<open>simp_all add: control_ok_def\<close>)
    with Inl q r K show ?thesis by (auto simp: extend_chain_def)
  qed (use q r K d in \<open>auto simp: extend_chain_def\<close>)
qed

lemma push_block_items:
  assumes "fork_ok B f" and "push_block B b f = (Inr h, f')"
  shows "\<exists>p. items f' = fmupd (next_address f) ((new_item B b)\<lparr>item_prev := p\<rparr>) (items f)"
proof -
  from push_block_cases [OF assms] obtain p f2 where "f' = new_head (next_address f) (index_insert (next_address f) f2)"
    and "f2 = f\<lparr>items := fmupd (next_address f) ((new_item B b)\<lparr>item_prev := p\<rparr>) (items f), next_address := Suc (next_address f)\<rparr>"
    by metis
  then show ?thesis by (auto simp: new_head_def Let_def split: option.split)
qed

lemma push_fork_db_ok:
  assumes c: "control_ok Op B S c" and "b \<in> S" and push: "push_block B b (fork_db c) = (Inr h, f)"
  shows "control_ok Op B S (c\<lparr>fork_db := f\<rparr>)"
proof -
  have ok: "fork_ok B (fork_db c)" using c by (simp add: control_ok_def)
  from push_block_items [OF ok push] obtain p where
    its: "items f = fmupd (next_address (fork_db c)) ((new_item B b)\<lparr>item_prev := p\<rparr>) (items (fork_db c))" ..
  have "data_at (c\<lparr>fork_db := f\<rparr>) a \<in> S" if "a |\<in>| fmdom (items f)" for a
    using that c assms(2) by (auto simp: control_ok_def data_at_def item_at_def its new_item_def)
  with c push_block_ok [OF ok push] show ?thesis by (simp add: control_ok_def settled_def history_ok_def)
qed

context chain_laws
begin

lemma do_push_block_cases:
  assumes c: "control_ok Op B S c" and S: "distinct_blocks B S" and b: "b \<in> S"
  shows "\<exists>r c'. do_push_block Op P B skip b c = Some (r, c') \<and> control_ok Op B S c' \<and>
    (case r of
       Inl e \<Rightarrow> pop_error e \<or> world c' = world c
     | Inr True \<Rightarrow> head_number Op (world c) < head_number Op (world c')
     | Inr False \<Rightarrow> world c' = world c \<or> snd (do_block Op b (world c)) = Inr (world c'))"
    (is "\<exists>r c'. _ = Some (r, c') \<and> _ \<and> ?post r c'")
proof (cases "skips skip skip_fork_db")
  case True
  obtain r c' where r: "extend_chain Op P B b c = (r, c')" by (meson surj_pair)
  with extend_chain_cases [OF c b r] True show ?thesis by (auto simp: do_push_block_def split: sum.split bool.split)
next
  case skip: False
  show ?thesis
  proof (cases "fst (push_block B b (fork_db c))")
    case (Inl e)
    then obtain f where push: "push_block B b (fork_db c) = (Inl e, f)" by (cases "push_block B b (fork_db c)") simp
    with skip c push_block_fails [OF push] show ?thesis by (simp add: do_push_block_def)
  next
    case (Inr nh)
    then obtain f where push: "push_block B b (fork_db c) = (Inr nh, f)" by (cases "push_block B b (fork_db c)") simp
    let ?c1 = "hold (case nh of None \<Rightarrow> [] | Some h \<Rightarrow> [h]) (c\<lparr>fork_db := f\<rparr>)"
    have c1: "control_ok Op B S ?c1" by (rule hold_ok [OF push_fork_db_ok [OF c b push]])
    have w: "world ?c1 = world c" by simp
    have fin: ?thesis if "do_push_block Op P B skip b c = Some (r, hold [] d)" "control_ok Op B S d" "?post r d" for r d
    proof -
      have "?post r (hold [] d)" using that(3) by (simp split: sum.splits bool.splits)
      with that(1) hold_ok [OF that(2), of "[]"] show ?thesis by blast
    qed
    show ?thesis
    proof (cases nh)
      case None
      show ?thesis by (rule fin [of "Inl Undefined" ?c1]) (use skip push None c1 in \<open>simp_all add: do_push_block_def\<close>)
    next
      case (Some h)
      show ?thesis
      proof (cases "previous (data_at ?c1 h) = head_id Op (world ?c1)")
        case True
        obtain r d where r: "extend_chain Op P B b ?c1 = (r, d)" by (meson surj_pair)
        have "?post r d" using extend_chain_cases [OF c1 b r] w by (auto split: sum.split bool.split)
        then show ?thesis
          by (intro fin [of r d]) (use skip push Some True r extend_chain_cases [OF c1 b r] in \<open>simp_all add: do_push_block_def Let_def\<close>)
      next
        case link: False
        show ?thesis
        proof (cases "head_number Op (world ?c1) < block_num B (data_at ?c1 h)")
          case False
          show ?thesis by (rule fin [of "Inr False" ?c1]) (use skip push Some link False c1 in \<open>simp_all add: do_push_block_def Let_def\<close>)
        next
          case True
          obtain r d where r: "switch_fork Op P B (block_id B b) h ?c1 = Some (r, d)" and d: "control_ok Op B S d" and "keeps_items B ?c1 d"
            and e: "\<forall>e. r = Inl e \<longrightarrow> pop_error e \<or> world d = world ?c1"
            and n: "\<forall>x. r = Inr x \<longrightarrow> x \<and> head_id Op (world d) = block_id B (data_at ?c1 h) \<and> head_number Op (world d) = block_num B (data_at ?c1 h)"
            and "\<forall>x g. r = Inr x \<and> fork_head (fork_db ?c1) = Some g \<longrightarrow>
              (\<exists>g'. fork_head (fork_db d) = Some g' \<and> item_num (item_at (fork_db ?c1) g') < item_num (item_at (fork_db ?c1) g))"
            by (rule switch_fork_cases [OF c1 S])
          have "?post r d" using e n w True by (auto split: sum.split bool.split)
          then show ?thesis
            by (intro fin [of r d]) (use skip push Some link True r d in \<open>simp_all add: do_push_block_def Let_def\<close>)
        qed
      qed
    qed
  qed
qed

end

context chain_laws
begin

text \<open>A switch pops the head of the tree once for every block of the old fork, and never sets it back to the new head.\<close>

lemma switch_head_behind:
  assumes c: "control_ok Op B S c" and S: "distinct_blocks B S" and b: "b \<in> S"
    and push: "do_push_block Op P B skip b c = Some (Inr True, c')"
  shows "\<exists>g. fork_head (fork_db c') = Some g \<and> item_num (item_at (fork_db c') g) < head_number Op (world c')"
proof -
  have ext: "extend_chain Op P B b c1 \<noteq> (Inr True, d)" for c1 d by (auto simp: extend_chain_def split: prod.splits sum.splits)
  have skip: "\<not> skips skip skip_fork_db" using push ext by (auto simp: do_push_block_def)
  from push skip obtain nh f where p: "push_block B b (fork_db c) = (Inr nh, f)"
    by (auto simp: do_push_block_def split: sum.splits prod.splits)
  let ?c1 = "hold (case nh of None \<Rightarrow> [] | Some h \<Rightarrow> [h]) (c\<lparr>fork_db := f\<rparr>)"
  from push skip p ext obtain h d where h: "nh = Some h" and sw: "switch_fork Op P B (block_id B b) h ?c1 = Some (Inr True, d)" and c': "c' = hold [] d"
    by (auto simp: do_push_block_def Let_def split: option.splits if_splits)
  have c1: "control_ok Op B S ?c1" by (rule hold_ok [OF push_fork_db_ok [OF c b p]])
  have ok: "fork_ok B (fork_db c)" using c by (simp add: control_ok_def)
  have fh: "fork_head (fork_db ?c1) = Some h" using push_block_effect(1) [OF ok p] h by simp
  obtain r d' where r: "switch_fork Op P B (block_id B b) h ?c1 = Some (r, d')" and "control_ok Op B S d'" and k: "keeps_items B ?c1 d'"
    and "\<forall>e. r = Inl e \<longrightarrow> pop_error e \<or> world d' = world ?c1"
    and n: "\<forall>x. r = Inr x \<longrightarrow> x \<and> head_id Op (world d') = block_id B (data_at ?c1 h) \<and> head_number Op (world d') = block_num B (data_at ?c1 h)"
    and g: "\<forall>x g. r = Inr x \<and> fork_head (fork_db ?c1) = Some g \<longrightarrow>
      (\<exists>g'. fork_head (fork_db d') = Some g' \<and> item_num (item_at (fork_db ?c1) g') < item_num (item_at (fork_db ?c1) g))"
    by (rule switch_fork_cases [OF c1 S])
  have rd: "r = Inr True" "d' = d" using sw r by simp_all
  have num: "head_number Op (world d) = block_num B (data_at ?c1 h)" using n rd by blast
  obtain g' where g': "fork_head (fork_db d) = Some g'" "item_num (item_at (fork_db ?c1) g') < item_num (item_at (fork_db ?c1) h)"
    using g fh rd by blast
  have ok1: "fork_ok B (fork_db ?c1)" using c1 by (simp add: control_ok_def)
  then have "h |\<in>| fmdom (items (fork_db ?c1))" using fork_okD(4) [OF ok1 fh] by (auto simp: fmlookup_dom_iff)
  from item_fields(2) [OF ok1 this] num have "item_num (item_at (fork_db ?c1) h) = head_number Op (world d)" by (simp add: data_at_def)
  moreover have "item_at (fork_db c') = item_at (fork_db ?c1)"
    unfolding c' using keeps_items_data(2) [OF hold_keeps [of B d "[]"]] keeps_items_data(2) [OF k] rd by simp
  ultimately show ?thesis using g' by (simp add: c')
qed

end

subsection \<open>The development's own operations obey the laws\<close>

lemma apply_block_linked:
  assumes "fc_laws F" and "apply_block X B F S cps skip b n = Inr n'"
  shows "previous b = head_block_id (dyn_props (state n)) \<and> head_block_id (dyn_props (state n')) = block_id B b \<and>
    head_block_number (dyn_props (state n')) = block_num B b"
proof -
  from assms(2) obtain flags where "do_apply_block X B F S cps flags b n = Inr n'" by (auto simp: apply_block_def Let_def)
  then obtain w n1 d2 d3 d4 where h: "validate_block_header B F flags b (state n) = Inr w"
    and ts: "efold (\<lambda>t n. emap snd (apply_transaction X F S flags (signed_transaction.truncate t) n)) (transactions b) n = Inr n1"
    and g: "update_global_dynamic_data B F cps flags b (state n1) = Inr d2"
    and sw: "update_signing_witness B F (block_witness b) b d2 = Inr d3"
    and li: "update_last_irreversible_block d3 = Inr d4" and n': "state n' = d4"
    by (auto simp: do_apply_block_def)
  from h have "previous b = head_block_id (dyn_props (state n))" by (auto simp: validate_block_header_def)
  moreover have "head_block_number (dyn_props d2) = block_num B b" "head_block_id (dyn_props d2) = block_id B b"
    using update_global_dynamic_data_result [OF g] by auto
  moreover from fc_laws.update_signing_witness_result [OF assms(1) sw] obtain pay where
    "dyn_props d3 = (dyn_props d2)\<lparr>witness_budget := witness_budget (dyn_props d2) - pay\<rparr>" by blast
  moreover from update_last_irreversible_result [OF li] obtain l where "d4 = d3\<lparr>dyn_props := (dyn_props d3)\<lparr>last_irreversible_block_num := l\<rparr>\<rparr>" ..
  ultimately show ?thesis by (simp add: n')
qed

lemma model_chain_laws:
  assumes "fc_laws F" and "block_laws B"
  shows "chain_laws B (model_ops X B F S cps skip)"
  by (intro chain_laws.intro chain_laws_axioms.intro assms(2)) (auto simp: model_ops_def dest: apply_block_linked [OF assms(1)])

interpretation sample_chain: chain_laws sample_blocks "model_ops sample_crypto sample_blocks checked_fc sample_strings cps skip" for cps skip
  by (rule model_chain_laws [OF checked.fc_laws_axioms sample_block.block_laws_axioms])

subsection \<open>A block that fails\<close>

lemma remove_unknown: "fork_ok B f \<Longrightarrow> \<not> is_known_block (remove_block i f) i"
  using fork_okD(5) [of B f] by (simp add: is_known_block_def remove_block_def)

lemma extend_chain_fails:
  assumes c: "control_ok Op B S c" and fail: "snd (do_block Op b (world c)) = Inl e"
  obtains c' where "extend_chain Op P B b c = (Inl e, c')" and "keeps_items B c c'" and "world c' = world c"
    and "fork_head (fork_db c') = fork_head (fork_db c)" and "\<not> is_known_block (fork_db c') (block_id B b)"
    and "settled c'" and "history_ok Op S c'"
proof -
  obtain q d where q: "apply_stored Op P B (block_id B b) b c = (q, d)" by (meson surj_pair)
  from c have s: "settled c" and h: "history_ok Op S c" and ok: "fork_ok B (fork_db c)" by (simp_all add: control_ok_def)
  note K = apply_stored_cases [OF s q]
  have qe: "q = Inl e" using K(3,4) fail by (cases q) auto
  then have w: "world d = world c" "undo_copies d = take (undo_max c) (undo_copies c)" using K(3) by simp_all
  let ?c = "on_fork (remove_block (block_id B b)) d"
  have k: "keeps_items B d ?c" by (intro keeps_items_fork step_remove) (simp add: remove_block_def)
  have okd: "fork_ok B (fork_db d)" using K(2) ok by (simp add: keeps_items_def)
  from h obtain bs where "grown Op bs (world c) (undo_copies c)" "set bs \<subseteq> S" by (auto simp: history_ok_def)
  then have "history_ok Op S d" using grown_take [of Op bs _ _ "undo_max c"] set_take_subset [of "undo_max c" bs]
    unfolding history_ok_def w by (intro exI [of _ "take (undo_max c) bs"]) auto
  then show thesis
    by (intro that [of ?c]) (use q qe w K keeps_items_trans [OF K(2) k] apply_stored_head [OF q] remove_unknown [OF okd] in
      \<open>simp_all add: extend_chain_def remove_block_def\<close>)
qed

context chain_laws
begin

lemma push_on_head:
  assumes c: "control_ok Op B S c" and skip: "\<not> skips skip skip_fork_db" and push: "push_block B b (fork_db c) = (Inr (Some h), f)"
    and h: "previous (item_data (item_at f h)) = head_id Op (world c)"
  shows "do_push_block Op P B skip b c = map_option (\<lambda>(r, c). (r, hold [] c)) (Some (extend_chain Op P B b (hold [h] (c\<lparr>fork_db := f\<rparr>))))"
proof -
  have "data_at (hold [h] (c\<lparr>fork_db := f\<rparr>)) h = item_data (item_at f h)"
    using keeps_items_data(1) [OF hold_keeps [of B "c\<lparr>fork_db := f\<rparr>" "[h]"]] by (simp add: data_at_def)
  with skip push h show ?thesis by (simp add: do_push_block_def Let_def)
qed

lemma failed_push:
  assumes c: "control_ok Op B S c" and b: "b \<in> S" and skip: "\<not> skips skip skip_fork_db"
    and push: "push_block B b (fork_db c) = (Inr (Some h), f)" and h: "previous (item_data (item_at f h)) = head_id Op (world c)"
    and fail: "snd (do_block Op b (world c)) = Inl e"
  obtains c' where "do_push_block Op P B skip b c = Some (Inl e, c')" and "control_ok Op B S c'" and "world c' = world c"
    and "fork_head (fork_db c') = Some h" and "item_at (fork_db c') = item_at f" and "\<not> is_known_block (fork_db c') (block_id B b)"
proof -
  let ?c1 = "hold [h] (c\<lparr>fork_db := f\<rparr>)"
  have c1: "control_ok Op B S ?c1" by (rule hold_ok [OF push_fork_db_ok [OF c b push]])
  have fh: "fork_head f = Some h" using push_block_effect(1) [OF _ push] c by (simp add: control_ok_def)
  have "snd (do_block Op b (world ?c1)) = Inl e" using fail by simp
  from extend_chain_fails [OF c1 this] obtain d where d: "extend_chain Op P B b ?c1 = (Inl e, d)" "keeps_items B ?c1 d" "world d = world ?c1"
    "fork_head (fork_db d) = fork_head (fork_db ?c1)" "\<not> is_known_block (fork_db d) (block_id B b)" "settled d" "history_ok Op S d"
    by metis
  have "control_ok Op B S (hold [] d)" by (rule hold_ok [OF control_ok_keeps [OF c1 d(2,6,7)]])
  moreover have "item_at (fork_db (hold [] d)) = item_at f"
    using keeps_items_data(2) [OF hold_keeps [of B d "[]"]] keeps_items_data(2) [OF d(2)]
      keeps_items_data(2) [OF hold_keeps [of B "c\<lparr>fork_db := f\<rparr>" "[h]"]] by simp
  moreover have "is_known_block (fork_db (hold [] d)) i = is_known_block (fork_db d) i" for i
    by (simp add: is_known_block_def hold_def)
  ultimately show thesis
    using that [of "hold [] d"] push_on_head [OF c skip push h] d fh by simp
qed

lemma failed_block_blocks:
  assumes c: "control_ok Op B S c" and b: "b \<in> S" and skip: "\<not> skips skip skip_fork_db"
    and head: "fork_head (fork_db c) = Some g" "block_num B (data_at c g) < block_num B b" "previous b = head_id Op (world c)"
    and push: "push_block B b (fork_db c) = (Inr nh, f)" and fail: "snd (do_block Op b (world c)) = Inl e"
  shows "\<exists>c1. do_push_block Op P B skip b c = Some (Inl e, c1) \<and> world c1 = world c \<and>
    (\<forall>b2 \<in> S. block_num B b2 \<le> block_num B b \<and> previous b2 \<noteq> head_id Op (world c) \<longrightarrow>
      (\<exists>e2 c2. do_push_block Op P B skip b2 c1 = Some (Inl e2, c2) \<and>
         (is_ok (fst (push_block B b2 (fork_db c1))) \<longrightarrow> \<not> is_known_block (fork_db c2) (block_id B b2))))"
proof -
  let ?a = "next_address (fork_db c)"
  have ok: "fork_ok B (fork_db c)" using c by (simp add: control_ok_def)
  note E = push_block_effect [OF ok push]
  from fork_okD(4) [OF ok head(1)] have "g |\<in>| fmdom (items (fork_db c))" by (auto simp: fmlookup_dom_iff)
  from item_fields(2) [OF ok this] head(2) have "head_num (fork_db c) g < block_num B b" by (simp add: head_num_def data_at_def)
  then have nh: "nh = Some ?a" using E(1,5) head(1) by simp
  from push_block_items [OF ok push] have data: "item_data (item_at f ?a) = b" by (auto simp: item_at_def new_item_def)
  have num: "item_num (item_at f ?a) = block_num B b" by (rule E(2))
  obtain c1 where c1: "do_push_block Op P B skip b c = Some (Inl e, c1)" "control_ok Op B S c1" "world c1 = world c"
    "fork_head (fork_db c1) = Some ?a" "item_at (fork_db c1) = item_at f" "\<not> is_known_block (fork_db c1) (block_id B b)"
    by (rule failed_push [OF c b skip push [unfolded nh] _ fail]) (use data head(3) in simp_all)
  have ok1: "fork_ok B (fork_db c1)" using c1(2) by (simp add: control_ok_def)
  have "\<exists>e2 c2. do_push_block Op P B skip b2 c1 = Some (Inl e2, c2) \<and>
      (is_ok (fst (push_block B b2 (fork_db c1))) \<longrightarrow> \<not> is_known_block (fork_db c2) (block_id B b2))"
    if b2: "b2 \<in> S" "block_num B b2 \<le> block_num B b" "previous b2 \<noteq> head_id Op (world c)" for b2
  proof (cases "fst (push_block B b2 (fork_db c1))")
    case (Inl e2)
    then obtain f2 where "push_block B b2 (fork_db c1) = (Inl e2, f2)" by (cases "push_block B b2 (fork_db c1)") simp
    then show ?thesis using skip by (simp add: do_push_block_def is_ok_def)
  next
    case (Inr nh2)
    then obtain f2 where p2: "push_block B b2 (fork_db c1) = (Inr nh2, f2)" by (cases "push_block B b2 (fork_db c1)") simp
    note E2 = push_block_effect [OF ok1 p2]
    from fork_okD(4) [OF ok1 c1(4)] have dom: "?a |\<in>| fmdom (items (fork_db c1))" by (auto simp: fmlookup_dom_iff)
    have "head_num (fork_db c1) ?a = block_num B b" using c1(5) num by (simp add: head_num_def)
    then have nh2: "nh2 = Some ?a" using E2(1,5) c1(4) b2(2) by simp
    have "item_at f2 ?a = item_at f ?a" using E2(4) [OF dom] c1(5) by simp
    then have prev: "previous (item_data (item_at f2 ?a)) = head_id Op (world c1)" using data head(3) c1(3) by simp
    have "\<exists>e2. snd (do_block Op b2 (world c1)) = Inl e2"
      using block_linked [of b2 "world c1"] b2(3) c1(3) by (cases "snd (do_block Op b2 (world c1))") auto
    then obtain e2 where e2: "snd (do_block Op b2 (world c1)) = Inl e2" ..
    obtain c2 where "do_push_block Op P B skip b2 c1 = Some (Inl e2, c2)" "control_ok Op B S c2" "world c2 = world c1"
      "fork_head (fork_db c2) = Some ?a" "item_at (fork_db c2) = item_at f2" "\<not> is_known_block (fork_db c2) (block_id B b2)"
      by (rule failed_push [OF c1(2) b2(1) skip p2 [unfolded nh2] prev e2])
    then show ?thesis by blast
  qed
  with c1 show ?thesis by blast
qed

end

section \<open>A small chain\<close>

text \<open>The state is the id and the number of the head; blocks of one timestamp are invalid.\<close>

definition log_ops :: "(nat \<times> nat) chain_ops" where
  "log_ops = \<lparr>do_block = (\<lambda>b w. (None, if previous b = fst w \<and> timestamp b \<noteq> 13
       then Inr (block_id sample_blocks b, block_num sample_blocks b) else Inl (Assert_failed ''invalid block''))),
     head_id = fst, head_number = snd, do_trx = (\<lambda>t w. Inl (Assert_failed ''no transactions'')), known_trx = (\<lambda>w t. False)\<rparr>"

lemma log_simps [simp]:
  "head_id log_ops = fst" "head_number log_ops = snd"
  "do_block log_ops b w = (None, if previous b = fst w \<and> timestamp b \<noteq> 13
     then Inr (block_id sample_blocks b, block_num sample_blocks b) else Inl (Assert_failed ''invalid block''))"
  by (simp_all add: log_ops_def)

lemma log_laws: "chain_laws sample_blocks log_ops"
  by (intro chain_laws.intro chain_laws_axioms.intro sample_block.block_laws_axioms) (auto split: if_splits)

definition log_control :: "nat \<times> nat \<Rightarrow> (nat \<times> nat) list \<Rightarrow> fork_database \<Rightarrow> (nat \<times> nat) control" where
  "log_control w ws f = \<lparr>world = w, undo_copies = ws, active = 0, undo_max = 16, pending_session = False, fork_db = f,
     block_store = no_blocks, pending_tx = [], popped_tx = []\<rparr>"

lemma fork_block_more:
  "block_num sample_blocks (fork_block 47278194688 t) = 3" "block_id sample_blocks (fork_block 47278194688 16) = 68769808384"
  "block_id sample_blocks (fork_block 21491613696 13) = 55868129280"
proof -
  show n: "block_num sample_blocks (fork_block 47278194688 t) = 3" for t
    by (simp add: block_num_def num_from_id_def sample_blocks_def byte_reverse_def hash_word_def fork_block_def)
  show "block_id sample_blocks (fork_block 47278194688 16) = 68769808384" "block_id sample_blocks (fork_block 21491613696 13) = 55868129280"
    unfolding block_id_def n fork_block_numbers
    by (simp_all add: sample_blocks_def byte_reverse_def fork_block_def signed_block_header.truncate_def)
qed

definition log_blocks :: "signed_block set" where
  "log_blocks = {fork_block 0 5, fork_block 21491613696 10, fork_block 21491613696 11, fork_block 21491613696 13, fork_block 47278194688 16}"

lemma log_distinct: "distinct_blocks sample_blocks log_blocks"
  by (auto simp: distinct_blocks_def log_blocks_def fork_block_numbers fork_block_ids fork_block_more inj_on_def)

lemma log_first_ok: "control_ok log_ops sample_blocks log_blocks (log_control (21491613696, 1) [] first_tree)"
proof -
  have "history_ok log_ops log_blocks (log_control (21491613696, 1) [] first_tree)"
    unfolding history_ok_def by (intro exI [of _ "[]"]) (simp add: log_control_def)
  then show ?thesis
    using fork_run_ok [OF sample_tree_run(1)]
    by (auto simp: control_ok_def log_control_def settled_def data_at_def first_tree_eq item_at_def new_item_def log_blocks_def)
qed

lemma third_tree_run: "fork_run sample_blocks third_tree"
proof -
  have "fork_step sample_blocks first_tree second_tree" "fork_step sample_blocks second_tree third_tree"
    by (rule step_push, rule second_tree_push third_tree_push)+
  with sample_tree_run(1) show ?thesis unfolding fork_run_def by (meson rtranclp.rtrancl_into_rtrancl)
qed

lemma log_third_ok: "control_ok log_ops sample_blocks log_blocks (log_control (42983227392, 2) [(21491613696, 1)] third_tree)"
proof -
  have "history_ok log_ops log_blocks (log_control (42983227392, 2) [(21491613696, 1)] third_tree)"
    unfolding history_ok_def
    by (intro exI [of _ "[fork_block 21491613696 10]"])
      (simp add: log_control_def log_blocks_def fork_block_numbers fork_block_ids fork_block_previous, simp add: fork_block_def)
  then show ?thesis
    using fork_run_ok [OF third_tree_run]
    by (auto simp: control_ok_def log_control_def settled_def data_at_def third_tree_push(2) second_tree_push(2) first_tree_eq item_at_def
      new_item_def log_blocks_def split: if_splits)
qed

lemma pop_block_ok:
  "\<not> pending_session c \<Longrightarrow> active c = 0 \<Longrightarrow> fetch_block (fork_db c) (head_id Op (world c)) = Some a \<Longrightarrow> pop_head (fork_db c) = Inr f \<Longrightarrow>
   undo_copies c = w # ws \<Longrightarrow>
   pop_block Op P B c = (Inr (), c\<lparr>fork_db := f, world := w, undo_copies := ws, popped_tx := map signed_transaction.truncate (transactions (data_at c a)) @ popped_tx c\<rparr>)"
  by (simp add: pop_block_def reset_pending_def fetch_block_by_id_def pop_undo_def data_at_def)

lemma pop_until_once:
  "head_id Op (world c) \<noteq> target \<Longrightarrow> pop_block Op P B c = (Inr (), c') \<Longrightarrow> head_id Op (world c') = target \<Longrightarrow>
   pop_until Op P B target c = (Inr (), c')"
  by (simp add: pop_until.simps [of Op P B target c] pop_until.simps [of Op P B target c'])

lemma apply_stored_ok:
  "do_block Op b (world c) = (None, Inr w) \<Longrightarrow> \<exists>c'. apply_stored Op P B i b c = (Inr (), c') \<and> world c' = w \<and> items (fork_db c') = items (fork_db c)"
  by (simp add: apply_stored_def start_session_def commit_session_def set_window_def)

text \<open>A block on the side branch of the tree makes it the longer one, and the chain switches to it.\<close>

definition fourth_tree :: fork_database where
  "fourth_tree = third_tree\<lparr>items := fmupd 3 ((new_item sample_blocks (fork_block 47278194688 16))\<lparr>item_prev := Some 2\<rparr>) (items third_tree),
     next_address := 4, index := fmupd 68769808384 3 (index third_tree), fork_head := Some 3\<rparr>"

lemmas log_trees = fourth_tree_def third_tree_push(2) second_tree_push(2) first_tree_eq

lemma fourth_tree_push: "push_block sample_blocks (fork_block 47278194688 16) third_tree = (Inr (Some 3), fourth_tree)"
  by (simp add: log_trees tree_eval fork_block_more)

lemma log_items:
  "item_at fourth_tree 0 = new_item sample_blocks (fork_block 0 5)"
  "item_at fourth_tree 1 = (new_item sample_blocks (fork_block 21491613696 10))\<lparr>item_prev := Some 0\<rparr>"
  "item_at fourth_tree 2 = (new_item sample_blocks (fork_block 21491613696 11))\<lparr>item_prev := Some 0\<rparr>"
  "item_at fourth_tree 3 = (new_item sample_blocks (fork_block 47278194688 16))\<lparr>item_prev := Some 2\<rparr>"
  by (simp_all add: log_trees item_at_def)

lemma log_index:
  "fmlookup (index fourth_tree) 68769808384 = Some 3" "fmlookup (index fourth_tree) 42983227392 = Some 1"
  "fmlookup (index fourth_tree) 47278194688 = Some 2" "fmlookup (index fourth_tree) 21491613696 = Some 0"
  by (simp_all add: log_trees)

lemma log_lock: "lock_prev (fourth_tree\<lparr>pinned := as\<rparr>) 3 = Some 2"
proof -
  have "2 |\<in>| fmran (index fourth_tree)" by (rule fmranI [OF log_index(3)])
  then show ?thesis using log_items(4) by (simp add: lock_prev_def alive_def item_at_def)
qed

lemma log_branches: "fetch_branch_from sample_blocks (fourth_tree\<lparr>pinned := as\<rparr>) 68769808384 42983227392 = Some (Inr ([3, 2], [1]))"
  (is "fetch_branch_from _ ?f _ _ = _")
proof -
  have at: "item_at ?f a = item_at fourth_tree a" for a by (simp add: item_at_def)
  let ?h = "\<lambda>b x. block_num sample_blocks (item_data (item_at ?f b)) < block_num sample_blocks (item_data x)"
  have n: "block_num sample_blocks (item_data (item_at ?f 1)) = 2" "block_num sample_blocks (item_data (item_at ?f 2)) = 2"
    "block_num sample_blocks (item_data (item_at ?f 3)) = 3"
    "previous_id (item_at ?f 1) = 21491613696" "previous_id (item_at ?f 2) = 21491613696"
    by (simp_all add: at log_items log_items(2) [simplified] new_item_def fork_block_numbers fork_block_more previous_id_def fork_block_previous)
  have "climb ?f (?h 1) 3 [] = Some (Inr (2, [3]))"
    using n by (simp add: climb.simps [of ?f _ 3] climb.simps [of ?f _ 2] log_lock del: One_nat_def)
  moreover have "climb ?f (?h 2) 1 [] = Some (Inr (1, []))" using n by (simp add: climb.simps [of ?f _ 1] del: One_nat_def)
  moreover have "climb_both ?f 2 1 [3] [] = Some (Inr ([3, 2], [1]))" using n by (simp add: climb_both.simps del: One_nat_def)
  ultimately show ?thesis using log_index by (simp add: fetch_branch_from_def del: One_nat_def)
qed

lemma log_switch:
  "\<exists>c'. do_push_block log_ops sample_pack sample_blocks 0 (fork_block 47278194688 16)
     (log_control (42983227392, 2) [(21491613696, 1)] third_tree) = Some (Inr True, c')"
proof -
  let ?c = "log_control (42983227392, 2) [(21491613696, 1)] third_tree"
  let ?c1 = "hold [3] (?c\<lparr>fork_db := fourth_tree\<rparr>)" and ?c2 = "hold [3, 3, 2, 1] (hold [3] (?c\<lparr>fork_db := fourth_tree\<rparr>))"
  have c1: "fork_db ?c1 = fourth_tree\<lparr>pinned := {|3|}\<rparr>" "world ?c1 = (42983227392, 2)"
    by (simp_all add: hold_def on_fork_def log_control_def)
  have c2: "fork_db ?c2 = fourth_tree\<lparr>pinned := {|3, 2, 1|}\<rparr>" "world ?c2 = (42983227392, 2)" "undo_copies ?c2 = [(21491613696, 1)]"
    "active ?c2 = 0" "\<not> pending_session ?c2"
    by (simp_all add: hold_def on_fork_def log_control_def insert_commute)
  have data: "data_at c a = item_data (item_at fourth_tree a)" if "items (fork_db c) = items fourth_tree" for c :: "(nat \<times> nat) control" and a
    using that by (simp add: data_at_def item_at_def)
  have its: "data_at ?c1 3 = fork_block 47278194688 16" "data_at ?c1 1 = fork_block 21491613696 10"
    by (simp_all add: data c1 log_items log_items(2) [simplified] new_item_def)
  obtain c3 where pop: "pop_block log_ops sample_pack sample_blocks ?c2 = (Inr (), c3)" and c3: "world c3 = (21491613696, 1)" "items (fork_db c3) = items fourth_tree"
  proof -
    have "fork_head (fourth_tree\<lparr>pinned := as\<rparr>) = Some 3" for as by (simp add: fourth_tree_def)
    then have ph: "pop_head (fork_db ?c2) = Inr (fork_db ?c2\<lparr>fork_head := Some 2\<rparr>)" unfolding c2(1) by (simp add: pop_head_def log_lock)
    have fb: "fetch_block (fork_db ?c2) (head_id log_ops (world ?c2)) = Some 1"
      unfolding c2(1,2) using log_index(2) by (simp add: fetch_block_def log_ops_def)
    show thesis by (rule that [OF pop_block_ok [OF c2(5,4) fb ph c2(3)]]) (simp_all add: c2(1))
  qed
  have "pop_until log_ops sample_pack sample_blocks 21491613696 ?c2 = (Inr (), c3)"
    by (rule pop_until_once [OF _ pop]) (unfold c2(2) c3(1) log_simps fst_conv, simp_all)
  moreover obtain c' where "push_fork log_ops sample_pack sample_blocks 68769808384 [2, 3] [1] c3 = (Inr True, c')"
  proof -
    have d: "data_at c3 2 = fork_block 21491613696 11" by (simp add: data c3 log_items new_item_def)
    have "do_block log_ops (fork_block 21491613696 11) (world c3) = (None, Inr (47278194688, 2))"
      using c3(1) by (simp add: fork_block_ids fork_block_numbers fork_block_previous) (simp add: fork_block_def)
    from apply_stored_ok [OF this] obtain c4 where
      a: "apply_stored log_ops sample_pack sample_blocks (item_id (item_at (fork_db c3) 2)) (data_at c3 2) c3 = (Inr (), c4)"
      and c4: "world c4 = (47278194688, 2)" "items (fork_db c4) = items fourth_tree" using c3(2) d by metis
    have d4: "data_at c4 3 = fork_block 47278194688 16" by (simp add: data c4 log_items new_item_def)
    have "do_block log_ops (fork_block 47278194688 16) (world c4) = (None, Inr (68769808384, 3))"
      using c4(1) by (simp add: fork_block_more fork_block_previous) (simp add: fork_block_def)
    from apply_stored_ok [OF this] obtain c5 where
      "apply_stored log_ops sample_pack sample_blocks (item_id (item_at (fork_db c4) 3)) (data_at c4 3) c4 = (Inr (), c5)" using d4 by metis
    with a that show thesis by simp
  qed
  ultimately have "switch_fork log_ops sample_pack sample_blocks 68769808384 3 ?c1 = Some (Inr True, c')"
    using log_branches [of "{|3|}"] its by (simp add: switch_fork_def c1 fork_block_more fork_block_previous del: One_nat_def hold_simps)
  then show ?thesis using fourth_tree_push its c1
    by (simp add: do_push_block_def skips_def skip_fork_db_def fork_block_previous fork_block_more log_control_def del: One_nat_def)
qed

section \<open>Properties\<close>

text \<open>C3. Pushing a block is all or nothing. It always returns. If it succeeds without a switch, the state is the one
  before or the one after the new block; if it switches to another fork, the new head is higher than the old one. If it
  throws, even in the middle of a switch, the state is the one before, unless going back itself failed because a block,
  its predecessor or the undo history was gone. In all cases the chain still grows block by block, each block applied
  to the state of its previous block, and no session is left open.\<close>

theorem push_block_all_or_nothing:
  assumes "chain_laws B Op" and "distinct_blocks B S" and "control_ok Op B S c" and "b \<in> S"
  shows "\<exists>r c'. do_push_block Op P B skip b c = Some (r, c') \<and> control_ok Op B S c' \<and>
    (case r of
       Inl e \<Rightarrow> pop_error e \<or> world c' = world c
     | Inr True \<Rightarrow> head_number Op (world c) < head_number Op (world c')
     | Inr False \<Rightarrow> world c' = world c \<or> snd (do_block Op b (world c)) = Inr (world c'))"
  by (rule chain_laws.do_push_block_cases [OF assms(1,3,2,4)])

theorem push_block_all_or_nothing_witness:
  "\<exists>c'. do_push_block log_ops sample_pack sample_blocks 0 (fork_block 47278194688 16)
       (log_control (42983227392, 2) [(21491613696, 1)] third_tree) = Some (Inr True, c') \<and>
     control_ok log_ops sample_blocks log_blocks c' \<and> 2 < snd (world c')"
proof -
  have "fork_block 47278194688 16 \<in> log_blocks" by (simp add: log_blocks_def)
  from push_block_all_or_nothing [OF log_laws log_distinct log_third_ok this, of sample_pack 0] log_switch
  obtain c' where "do_push_block log_ops sample_pack sample_blocks 0 (fork_block 47278194688 16)
       (log_control (42983227392, 2) [(21491613696, 1)] third_tree) = Some (Inr True, c')"
    "control_ok log_ops sample_blocks log_blocks c'"
    "head_number log_ops (world (log_control (42983227392, 2) [(21491613696, 1)] third_tree)) < head_number log_ops (world c')" by auto
  then show ?thesis by (auto simp: log_control_def)
qed

text \<open>C10. After a switch to another fork the head of the tree of blocks is not the head of the chain: it was popped along
  the new branch once for every block of the old one, and stays below.\<close>

theorem switch_leaves_fork_head_behind:
  assumes "chain_laws B Op" and "distinct_blocks B S" and "control_ok Op B S c" and "b \<in> S"
    and "do_push_block Op P B skip b c = Some (Inr True, c')"
  shows "\<exists>g. fork_head (fork_db c') = Some g \<and> item_num (item_at (fork_db c') g) < head_number Op (world c')"
  by (rule chain_laws.switch_head_behind [OF assms(1,3,2,4,5)])

theorem switch_leaves_fork_head_behind_witness:
  "\<exists>c' g. do_push_block log_ops sample_pack sample_blocks 0 (fork_block 47278194688 16)
       (log_control (42983227392, 2) [(21491613696, 1)] third_tree) = Some (Inr True, c') \<and>
     fork_head (fork_db c') = Some g \<and> item_num (item_at (fork_db c') g) < snd (world c')"
proof -
  have "fork_block 47278194688 16 \<in> log_blocks" by (simp add: log_blocks_def)
  from switch_leaves_fork_head_behind [OF log_laws log_distinct log_third_ok this] log_switch show ?thesis by fastforce
qed

text \<open>C11. A block on the head that fails stays the head of the tree of blocks although it is removed from its index. Then
  every block of another fork that is not higher is refused with an exception, and forgotten if the tree had taken it.\<close>

theorem failed_block_stops_forks:
  assumes "chain_laws B Op" and "control_ok Op B S c" and "b \<in> S" and "\<not> skips skip skip_fork_db"
    and "fork_head (fork_db c) = Some g" and "block_num B (data_at c g) < block_num B b" and "previous b = head_id Op (world c)"
    and "push_block B b (fork_db c) = (Inr nh, f)" and "snd (do_block Op b (world c)) = Inl e"
  shows "\<exists>c1. do_push_block Op P B skip b c = Some (Inl e, c1) \<and> world c1 = world c \<and>
    (\<forall>b2 \<in> S. block_num B b2 \<le> block_num B b \<and> previous b2 \<noteq> head_id Op (world c) \<longrightarrow>
      (\<exists>e2 c2. do_push_block Op P B skip b2 c1 = Some (Inl e2, c2) \<and>
         (is_ok (fst (push_block B b2 (fork_db c1))) \<longrightarrow> \<not> is_known_block (fork_db c2) (block_id B b2))))"
  by (rule chain_laws.failed_block_blocks [OF assms])

theorem failed_block_stops_forks_witness:
  "\<exists>c1 e c2 e2. do_push_block log_ops sample_pack sample_blocks 0 (fork_block 21491613696 13) (log_control (21491613696, 1) [] first_tree) =
       Some (Inl e, c1) \<and>
     do_push_block log_ops sample_pack sample_blocks 0 (fork_block 0 5) c1 = Some (Inl e2, c2)"
proof -
  let ?c = "log_control (21491613696, 1) [] first_tree" and ?b = "fork_block 21491613696 13"
  have S: "?b \<in> log_blocks" "fork_block 0 5 \<in> log_blocks" by (simp_all add: log_blocks_def)
  have "is_ok (fst (push_block sample_blocks ?b (fork_db ?c)))"
    by (simp add: log_control_def first_tree_eq tree_eval fork_block_more is_ok_iff)
  then obtain nh f where p: "push_block sample_blocks ?b (fork_db ?c) = (Inr nh, f)" by (auto simp: is_ok_iff prod_eq_iff)
  have "fork_head (fork_db ?c) = Some 0" "\<not> skips 0 skip_fork_db" "block_num sample_blocks (data_at ?c 0) < block_num sample_blocks ?b"
    "previous ?b = head_id log_ops (world ?c)" "snd (do_block log_ops ?b (world ?c)) = Inl (Assert_failed ''invalid block'')"
    "block_num sample_blocks (fork_block 0 5) \<le> block_num sample_blocks ?b \<and> previous (fork_block 0 5) \<noteq> head_id log_ops (world ?c)"
    by (simp_all add: log_control_def first_tree_eq data_at_def item_at_def new_item_def fork_block_numbers skips_def skip_fork_db_def)
      (simp_all add: fork_block_def)
  with failed_block_stops_forks [OF log_laws log_first_ok S(1) _ _ _ _ p, of 0 0 "Assert_failed ''invalid block''" sample_pack] S(2)
  show ?thesis by blast
qed

end
