(* ===== verification/Undo_Database.thy ===== *)
theory Undo_Database
  imports Escrow "HOL-Library.Product_Lexorder"
begin

text \<open>
  The object database with its undo history: \<^verbatim>\<open>primary_index\<close> (\<^verbatim>\<open>db/index.hpp\<close>), which records every
  change, and \<^verbatim>\<open>db/undo_database.cpp\<close>, with its nested sessions. The undo history is a stack of changes;
  the specification is a stack of copies of the whole database, and the development shows that the one
  implements the other. That the rest of the model lets an exception discard the state rests on this.

  An object id is a pair of an index (its space and type) and an instance number. The schema gives for
  each index when two objects collide in a unique key, and the hooks of its secondary indices, whose
  state has the type \<open>'s\<close>. The containers of \<^verbatim>\<open>undo_state\<close> are unordered: the order in which a loop meets
  their elements is a parameter, \<open>ord\<close>. The stack is a list whose head is \<^verbatim>\<open>_stack.back()\<close>.
\<close>

type_synonym object_id = "nat \<times> nat"

record ('a, 's) schema =
  unique_in :: "nat \<Rightarrow> 'a \<Rightarrow> 'a \<Rightarrow> bool"
  when_inserted :: "object_id \<Rightarrow> 'a \<Rightarrow> 's \<Rightarrow> 's"
  when_removed :: "object_id \<Rightarrow> 'a \<Rightarrow> 's \<Rightarrow> 's"
  about_to_modify :: "object_id \<Rightarrow> 'a \<Rightarrow> 's \<Rightarrow> 's"
  when_modified :: "object_id \<Rightarrow> 'a \<Rightarrow> 's \<Rightarrow> 's"

record 'a undo_state =
  old_values :: "(object_id, 'a) fmap"
  old_index_next_ids :: "(nat, nat) fmap"
  new_ids :: "object_id fset"
  removed :: "(object_id, 'a) fmap"

record ('a, 's) object_database =
  indexes :: "nat \<Rightarrow> 'a table"
  sindexes :: 's
  undo_stack :: "'a undo_state list"
  active_sessions :: nat
  disabled :: bool
  max_size :: nat

definition no_changes :: "'a undo_state" where
  "no_changes = \<lparr>old_values = fmempty, old_index_next_ids = fmempty, new_ids = {||}, removed = fmempty\<rparr>"

subsection \<open>Recording a change\<close>

definition record_change ::
  "('a undo_state \<Rightarrow> 'a undo_state) \<Rightarrow> ('a, 's) object_database \<Rightarrow> ('a, 's) object_database" where
  "record_change f D =
     (if disabled D then D
      else D\<lparr>undo_stack := (case undo_stack D of [] \<Rightarrow> [f no_changes] | s # ss \<Rightarrow> f s # ss)\<rparr>)"

definition on_create :: "object_id \<Rightarrow> 'a undo_state \<Rightarrow> 'a undo_state" where
  "on_create k s = s\<lparr>
     old_index_next_ids := (case fmlookup (old_index_next_ids s) (fst k) of
        None \<Rightarrow> fmupd (fst k) (snd k) (old_index_next_ids s)
      | Some _ \<Rightarrow> old_index_next_ids s),
     new_ids := finsert k (new_ids s)\<rparr>"

definition on_modify :: "object_id \<Rightarrow> 'a \<Rightarrow> 'a undo_state \<Rightarrow> 'a undo_state" where
  "on_modify k v s =
     (if k |\<in>| new_ids s then s
      else if k |\<in>| fmdom (old_values s) then s
      else s\<lparr>old_values := fmupd k v (old_values s)\<rparr>)"

definition on_remove :: "object_id \<Rightarrow> 'a \<Rightarrow> 'a undo_state \<Rightarrow> 'a undo_state" where
  "on_remove k v s =
     (if k |\<in>| new_ids s then s\<lparr>new_ids := new_ids s |-| {|k|}\<rparr>
      else case fmlookup (old_values s) k of
        Some x \<Rightarrow> s\<lparr>removed := fmupd k x (removed s), old_values := fmdrop k (old_values s)\<rparr>
      | None \<Rightarrow> if k |\<in>| fmdom (removed s) then s else s\<lparr>removed := fmupd k v (removed s)\<rparr>)"

subsection \<open>The mutators of the object database\<close>

definition db_create ::
  "('a, 's) schema \<Rightarrow> nat \<Rightarrow> 'a \<Rightarrow> ('a, 's) object_database \<Rightarrow> ('a, 's) object_database result" where
  "db_create Z i v D =
     ebind (tbl_create (unique_in Z i) (indexes D i) v) (\<lambda>(n, t).
     Inr (record_change (on_create (i, n))
       (D\<lparr>indexes := (indexes D)(i := t), sindexes := when_inserted Z (i, n) v (sindexes D)\<rparr>)))"

definition db_modify ::
  "('a, 's) schema \<Rightarrow> object_id \<Rightarrow> ('a \<Rightarrow> 'a) \<Rightarrow> ('a, 's) object_database \<Rightarrow> ('a, 's) object_database result" where
  "db_modify Z k m D =
     ebind (tbl_get (indexes D (fst k)) (snd k)) (\<lambda>v.
     (let D1 = record_change (on_modify k v) D; D2 = D1\<lparr>sindexes := about_to_modify Z k v (sindexes D1)\<rparr> in
     ebind (tbl_modify (unique_in Z (fst k)) (indexes D2 (fst k)) (snd k) m) (\<lambda>t.
     Inr (D2\<lparr>indexes := (indexes D2)(fst k := t), sindexes := when_modified Z k (m v) (sindexes D2)\<rparr>))))"

definition db_remove ::
  "('a, 's) schema \<Rightarrow> object_id \<Rightarrow> ('a, 's) object_database \<Rightarrow> ('a, 's) object_database result" where
  "db_remove Z k D =
     ebind (tbl_get (indexes D (fst k)) (snd k)) (\<lambda>v.
     (let D1 = record_change (on_remove k v) (D\<lparr>sindexes := when_removed Z k v (sindexes D)\<rparr>) in
     Inr (D1\<lparr>indexes := (indexes D1)(fst k := tbl_remove (indexes D1 (fst k)) (snd k))\<rparr>)))"

text \<open>\<^verbatim>\<open>insert\<close> is not overridden by \<^verbatim>\<open>primary_index\<close>: it records nothing and calls no hook.\<close>

definition db_insert ::
  "('a, 's) schema \<Rightarrow> object_id \<Rightarrow> 'a \<Rightarrow> ('a, 's) object_database \<Rightarrow> ('a, 's) object_database result" where
  "db_insert Z k v D =
     ebind (tbl_insert (unique_in Z (fst k)) (indexes D (fst k)) (snd k) v) (\<lambda>t.
     Inr (D\<lparr>indexes := (indexes D)(fst k := t)\<rparr>))"

subsection \<open>Undoing\<close>

definition set_next_ids :: "(nat, nat) fmap \<Rightarrow> (nat \<Rightarrow> 'a table) \<Rightarrow> nat \<Rightarrow> 'a table" where
  "set_next_ids old db = (\<lambda>i. case fmlookup old i of None \<Rightarrow> db i | Some n \<Rightarrow> (db i)\<lparr>next_id := n\<rparr>)"

definition take_back ::
  "('a, 's) schema \<Rightarrow> (object_id fset \<Rightarrow> object_id list) \<Rightarrow> 'a undo_state \<Rightarrow> ('a, 's) object_database
    \<Rightarrow> ('a, 's) object_database result" where
  "take_back Z ord s D =
     ebind (efold (\<lambda>k. db_modify Z k (\<lambda>_. the (fmlookup (old_values s) k))) (ord (fmdom (old_values s))) D) (\<lambda>D1.
     ebind (efold (db_remove Z) (ord (new_ids s)) D1) (\<lambda>D2.
     efold (\<lambda>k. db_insert Z k (the (fmlookup (removed s) k))) (ord (fmdom (removed s)))
       (D2\<lparr>indexes := set_next_ids (old_index_next_ids s) (indexes D2)\<rparr>)))"

definition undo ::
  "('a, 's) schema \<Rightarrow> (object_id fset \<Rightarrow> object_id list) \<Rightarrow> ('a, 's) object_database \<Rightarrow> ('a, 's) object_database result" where
  "undo Z ord D =
     ebind (fc_assert (\<not> disabled D) ''!_disabled'') (\<lambda>_.
     ebind (fc_assert (0 < active_sessions D) ''_active_sessions > 0'') (\<lambda>_.
     case undo_stack D of
       [] \<Rightarrow> Inl Undefined
     | s # ss \<Rightarrow>
         ebind (take_back Z ord s (D\<lparr>disabled := True\<rparr>)) (\<lambda>D1.
         Inr (D1\<lparr>undo_stack := ss, disabled := False, active_sessions := active_sessions D1 - 1\<rparr>))))"

definition pop_commit ::
  "('a, 's) schema \<Rightarrow> (object_id fset \<Rightarrow> object_id list) \<Rightarrow> ('a, 's) object_database \<Rightarrow> ('a, 's) object_database result" where
  "pop_commit Z ord D =
     ebind (fc_assert (active_sessions D = 0) ''_active_sessions == 0'') (\<lambda>_.
     case undo_stack D of
       [] \<Rightarrow> Inl (Assert_failed ''!_stack.empty()'')
     | s # ss \<Rightarrow>
         ebind (take_back Z ord s (D\<lparr>disabled := True\<rparr>)) (\<lambda>D1.
         Inr (D1\<lparr>undo_stack := ss, disabled := False\<rparr>)))"

subsection \<open>Sessions\<close>

definition start_undo_session :: "bool \<Rightarrow> ('a, 's) object_database \<Rightarrow> ('a, 's) object_database" where
  "start_undo_session force_enable D =
     (if disabled D \<and> \<not> force_enable then D
      else D\<lparr>disabled := False, undo_stack := no_changes # take (max_size D) (undo_stack D),
             active_sessions := Suc (active_sessions D)\<rparr>)"

definition merge_old :: "(object_id fset \<Rightarrow> object_id list) \<Rightarrow> 'a undo_state \<Rightarrow> 'a undo_state \<Rightarrow> 'a undo_state" where
  "merge_old ord s prev =
     fold (\<lambda>k p. if k |\<in>| new_ids p then p
                 else if k |\<in>| fmdom (old_values p) then p
                 else p\<lparr>old_values := fmupd k (the (fmlookup (old_values s) k)) (old_values p)\<rparr>)
       (ord (fmdom (old_values s))) prev"

definition merge_removed :: "(object_id fset \<Rightarrow> object_id list) \<Rightarrow> 'a undo_state \<Rightarrow> 'a undo_state \<Rightarrow> 'a undo_state" where
  "merge_removed ord s prev =
     fold (\<lambda>k p. if k |\<in>| new_ids p then p\<lparr>new_ids := new_ids p |-| {|k|}\<rparr>
                 else case fmlookup (old_values p) k of
                   Some x \<Rightarrow> p\<lparr>removed := fmupd k x (removed p), old_values := fmdrop k (old_values p)\<rparr>
                 | None \<Rightarrow> p\<lparr>removed := fmupd k (the (fmlookup (removed s) k)) (removed p)\<rparr>)
       (ord (fmdom (removed s))) prev"

definition merge_states :: "(object_id fset \<Rightarrow> object_id list) \<Rightarrow> 'a undo_state \<Rightarrow> 'a undo_state \<Rightarrow> 'a undo_state" where
  "merge_states ord s prev =
     (let p1 = merge_old ord s prev;
          p2 = p1\<lparr>new_ids := new_ids p1 |\<union>| new_ids s\<rparr>;
          p3 = p2\<lparr>old_index_next_ids := old_index_next_ids s ++\<^sub>f old_index_next_ids p2\<rparr> in
      merge_removed ord s p3)"

definition merge :: "(object_id fset \<Rightarrow> object_id list) \<Rightarrow> ('a, 's) object_database \<Rightarrow> ('a, 's) object_database result" where
  "merge ord D =
     ebind (fc_assert (0 < active_sessions D) ''_active_sessions > 0'') (\<lambda>_.
     if active_sessions D = 1 \<and> length (undo_stack D) = 1
     then Inr (D\<lparr>undo_stack := [], active_sessions := 0\<rparr>)
     else case undo_stack D of
       s # prev # ss \<Rightarrow>
         Inr (D\<lparr>undo_stack := merge_states ord s prev # ss, active_sessions := active_sessions D - 1\<rparr>)
     | _ \<Rightarrow> Inl (Assert_failed ''_stack.size() >=2''))"

definition commit :: "('a, 's) object_database \<Rightarrow> ('a, 's) object_database result" where
  "commit D =
     ebind (fc_assert (0 < active_sessions D) ''_active_sessions > 0'') (\<lambda>_.
     Inr (D\<lparr>active_sessions := active_sessions D - 1\<rparr>))"

subsection \<open>Specification: copies of the database\<close>

text \<open>
  What an index shows: its next id and its objects. \<open>rewind\<close> is the database before the changes of an
  undo state; \<open>rewinds\<close> are the copies that the stack stands for.
\<close>

type_synonym 'a view = "nat \<Rightarrow> nat \<times> (nat \<Rightarrow> 'a option)"

definition view :: "(nat \<Rightarrow> 'a table) \<Rightarrow> 'a view" where
  "view db = (\<lambda>i. (next_id (db i), tbl_find (db i)))"

definition at :: "'a view \<Rightarrow> object_id \<Rightarrow> 'a option" where
  "at w k = snd (w (fst k)) (snd k)"

definition put :: "object_id \<Rightarrow> 'a option \<Rightarrow> 'a view \<Rightarrow> 'a view" where
  "put k x w = w(fst k := (fst (w (fst k)), (snd (w (fst k)))(snd k := x)))"

definition rewind :: "'a undo_state \<Rightarrow> 'a view \<Rightarrow> 'a view" where
  "rewind s w = (\<lambda>i.
     (case fmlookup (old_index_next_ids s) i of None \<Rightarrow> fst (w i) | Some n \<Rightarrow> n,
      \<lambda>n. if (i, n) |\<in>| new_ids s then None
          else case fmlookup (old_values s) (i, n) of
            Some v \<Rightarrow> Some v
          | None \<Rightarrow> (case fmlookup (removed s) (i, n) of Some v \<Rightarrow> Some v | None \<Rightarrow> snd (w i) n)))"

fun rewinds :: "'a undo_state list \<Rightarrow> 'a view \<Rightarrow> 'a view list" where
  "rewinds [] w = []"
| "rewinds (s # ss) w = rewind s w # rewinds ss (rewind s w)"

definition bounded :: "'a view \<Rightarrow> bool" where
  "bounded w \<longleftrightarrow> (\<forall>k. at w k \<noteq> None \<longrightarrow> snd k < fst (w (fst k)))"

text \<open>The changes of a state fit the database after them.\<close>

definition fits :: "'a undo_state \<Rightarrow> 'a view \<Rightarrow> bool" where
  "fits s w \<longleftrightarrow>
     (\<forall>k. k |\<in>| new_ids s \<longrightarrow> at w k \<noteq> None \<and> fmlookup (old_values s) k = None \<and> fmlookup (removed s) k = None \<and>
        fst (rewind s w (fst k)) \<le> snd k) \<and>
     (\<forall>k x. fmlookup (old_values s) k = Some x \<longrightarrow> at w k \<noteq> None \<and> fmlookup (removed s) k = None) \<and>
     (\<forall>k x. fmlookup (removed s) k = Some x \<longrightarrow> at w k = None) \<and>
     (\<forall>i. fst (rewind s w i) \<le> fst (w i)) \<and> bounded w \<and> bounded (rewind s w)"

fun fits_all :: "'a undo_state list \<Rightarrow> 'a view \<Rightarrow> bool" where
  "fits_all [] w = bounded w"
| "fits_all (s # ss) w = (fits s w \<and> fits_all ss (rewind s w))"

definition undo_ok :: "('a, 's) object_database \<Rightarrow> bool" where
  "undo_ok D \<longleftrightarrow> \<not> disabled D \<and> fits_all (undo_stack D) (view (indexes D))"

text \<open>The order in which a loop meets the elements of an unordered container.\<close>

locale iteration_order =
  fixes ord :: "object_id fset \<Rightarrow> object_id list"
  assumes ord_set: "set (ord S) = fset S" and ord_distinct: "distinct (ord S)"

interpretation sorted_order: iteration_order sorted_list_of_fset
  by unfold_locales (simp_all add: sorted_list_of_fset.rep_eq)

section \<open>Lemmas\<close>

lemma view_inject: "view db = view db' \<Longrightarrow> db = db'"
proof
  fix i
  assume "view db = view db'"
  then have "next_id (db i) = next_id (db' i)" "tbl_find (db i) = tbl_find (db' i)"
    by (auto simp: view_def dest: fun_cong [of _ _ i])
  moreover from this(2) have "objs (db i) = objs (db' i)"
    by (intro fmap_ext) (simp add: tbl_find_def fun_eq_iff)
  ultimately show "db i = db' i" by simp
qed

lemma view_cong: "(\<And>k. at w k = at w' k) \<Longrightarrow> (\<And>i. fst (w i) = fst (w' i)) \<Longrightarrow> w = w'"
  by (auto simp: at_def prod_eq_iff fun_eq_iff)

lemma at_put [simp]: "at (put k x w) j = (if j = k then x else at w j)"
  by (cases j; cases k) (auto simp: at_def put_def)

lemma fst_put [simp]: "fst (put k x w i) = fst (w i)"
  by (simp add: put_def)

lemma at_rewind: "at (rewind s w) k =
   (if k |\<in>| new_ids s then None
    else case fmlookup (old_values s) k of
      Some v \<Rightarrow> Some v
    | None \<Rightarrow> (case fmlookup (removed s) k of Some v \<Rightarrow> Some v | None \<Rightarrow> at w k))"
  by (cases k) (auto simp: at_def rewind_def split: option.splits)

lemma fst_rewind: "fst (rewind s w i) = (case fmlookup (old_index_next_ids s) i of None \<Rightarrow> fst (w i) | Some n \<Rightarrow> n)"
  by (simp add: rewind_def)

lemma fitsD:
  assumes "fits s w"
  shows "k |\<in>| new_ids s \<Longrightarrow> at w k \<noteq> None \<and> fmlookup (old_values s) k = None \<and> fmlookup (removed s) k = None \<and>
      fst (rewind s w (fst k)) \<le> snd k"
    and "fmlookup (old_values s) k = Some x \<Longrightarrow> at w k \<noteq> None \<and> fmlookup (removed s) k = None"
    and "fmlookup (removed s) k = Some x \<Longrightarrow> at w k = None"
    and "fst (rewind s w i) \<le> fst (w i)" and "bounded w" and "bounded (rewind s w)"
  using assms unfolding fits_def by blast+

lemma fitsI:
  assumes "\<And>k. k |\<in>| new_ids s \<Longrightarrow> at w k \<noteq> None \<and> fmlookup (old_values s) k = None \<and> fmlookup (removed s) k = None \<and>
      fst (rewind s w (fst k)) \<le> snd k"
    and "\<And>k x. fmlookup (old_values s) k = Some x \<Longrightarrow> at w k \<noteq> None \<and> fmlookup (removed s) k = None"
    and "\<And>k x. fmlookup (removed s) k = Some x \<Longrightarrow> at w k = None"
    and "\<And>i. fst (rewind s w i) \<le> fst (w i)" and "bounded w" and "bounded (rewind s w)"
  shows "fits s w"
  unfolding fits_def using assms by blast

lemma rewind_no_changes [simp]: "rewind no_changes w = w"
  by (simp add: rewind_def no_changes_def)

lemma fits_no_changes [simp]: "fits no_changes w \<longleftrightarrow> bounded w"
  by (simp add: fits_def no_changes_def [symmetric]) (simp add: no_changes_def)

lemma fits_all_bounded: "fits_all ss w \<Longrightarrow> bounded w"
  by (cases ss) (simp_all add: fits_def)

lemma view_modify:
  assumes "tbl_modify c (db (fst k)) (snd k) m = Inr t" and "tbl_find (db (fst k)) (snd k) = Some v"
  shows "view (db(fst k := t)) = put k (Some (m v)) (view db)"
  using tbl_modify_find [OF assms(1)] tbl_modify_next_id [OF assms(1)] assms(2)
  by (auto simp: view_def put_def fun_eq_iff)

lemma view_remove: "view (db(fst k := tbl_remove (db (fst k)) (snd k))) = put k None (view db)"
  by (auto simp: view_def put_def fun_eq_iff tbl_remove_find)

lemma at_view: "at (view db) k = tbl_find (db (fst k)) (snd k)"
  by (simp add: at_def view_def)

subsection \<open>Recording\<close>

text \<open>The state before the session stays what it was, and the changes keep fitting.\<close>

definition created :: "nat \<Rightarrow> 'a \<Rightarrow> 'a view \<Rightarrow> 'a view" where
  "created i v w = (put (i, fst (w i)) (Some v) w)(i := (Suc (fst (w i)), snd (put (i, fst (w i)) (Some v) w i)))"

lemma at_created: "at (created i v w) k = (if k = (i, fst (w i)) then Some v else at w k)"
  by (cases k) (auto simp: created_def at_def put_def)

lemma fst_created: "fst (created i v w j) = (if j = i then Suc (fst (w i)) else fst (w j))"
  by (simp add: created_def)

lemma bounded_created: "bounded w \<Longrightarrow> bounded (created i v w)"
  by (auto simp: bounded_def at_created fst_created less_Suc_eq)

lemma bounded_next: "bounded w \<Longrightarrow> at w (i, fst (w i)) = None"
  by (fastforce simp: bounded_def)

lemma on_create_keeps:
  assumes "fits s w"
  shows "rewind (on_create (i, fst (w i)) s) (created i v w) = rewind s w"
    and "fits (on_create (i, fst (w i)) s) (created i v w)"
proof -
  let ?k = "(i, fst (w i))" and ?s = "on_create (i, fst (w i)) s"
  note f = fitsD [OF assms]
  have n: "at w ?k = None" using f(5) by (rule bounded_next)
  have rn: "at (rewind s w) ?k = None"
    using f(6) f(4) [of i] unfolding bounded_def by (metis fst_conv snd_conv leD)
  have new: "fmlookup (old_values s) ?k = None" "fmlookup (removed s) ?k = None" "?k |\<notin>| new_ids s"
    using f(1,2,3) [of ?k] n rn by (auto simp: at_rewind split: if_splits option.splits)
  show r: "rewind ?s (created i v w) = rewind s w"
  proof (rule view_cong)
    fix k
    show "at (rewind ?s (created i v w)) k = at (rewind s w) k"
      using new n by (simp add: at_rewind at_created on_create_def split: option.splits)
    fix j
    show "fst (rewind ?s (created i v w) j) = fst (rewind s w j)"
      by (simp add: fst_rewind on_create_def fst_created split: option.splits)
  qed
  have s: "new_ids ?s = finsert ?k (new_ids s)" "old_values ?s = old_values s" "removed ?s = removed s"
    by (simp_all add: on_create_def)
  show "fits ?s (created i v w)"
  proof (rule fitsI)
    fix k x j
    show "at (created i v w) k \<noteq> None \<and> fmlookup (old_values ?s) k = None \<and> fmlookup (removed ?s) k = None \<and>
      fst (rewind ?s (created i v w) (fst k)) \<le> snd k" if "k |\<in>| new_ids ?s"
      using that f(1) [of k] new f(4) [of i] unfolding r s by (auto simp: at_created)
    show "at (created i v w) k \<noteq> None \<and> fmlookup (removed ?s) k = None" if "fmlookup (old_values ?s) k = Some x"
      using that f(2) [of k] unfolding s by (simp add: at_created)
    show "at (created i v w) k = None" if "fmlookup (removed ?s) k = Some x"
      using that f(3) [of k] new unfolding s by (auto simp: at_created)
    show "fst (rewind ?s (created i v w) j) \<le> fst (created i v w j)"
      using f(4) [of j] unfolding r by (auto simp: fst_created)
  qed (use f bounded_created in \<open>simp_all add: r\<close>)
qed

lemma on_modify_keeps:
  assumes "fits s w" and "at w k = Some v"
  shows "rewind (on_modify k v s) (put k (Some x) w) = rewind s w"
    and "fits (on_modify k v s) (put k (Some x) w)"
proof -
  let ?s = "on_modify k v s" and ?w = "put k (Some x) w"
  note f = fitsD [OF assms(1)]
  have d: "fmlookup (removed s) k = None" using f(3) [of k] assms(2) by (cases "fmlookup (removed s) k") auto
  show r: "rewind ?s ?w = rewind s w"
    using assms(2) d
    by (intro view_cong) (auto simp: at_rewind fst_rewind on_modify_def fmlookup_dom_iff split: option.splits)
  have s: "new_ids ?s = new_ids s" "removed ?s = removed s"
    "j \<noteq> k \<or> j |\<in>| new_ids s \<Longrightarrow> fmlookup (old_values ?s) j = fmlookup (old_values s) j" for j
    by (auto simp: on_modify_def)
  show "fits ?s ?w"
  proof (rule fitsI)
    fix j y i
    show "at ?w j \<noteq> None \<and> fmlookup (old_values ?s) j = None \<and> fmlookup (removed ?s) j = None \<and>
      fst (rewind ?s ?w (fst j)) \<le> snd j" if "j |\<in>| new_ids ?s"
      using that f(1) [of j] s(3) [of j] unfolding r s(1,2) by simp
    show "at ?w j \<noteq> None \<and> fmlookup (removed ?s) j = None" if "fmlookup (old_values ?s) j = Some y"
      using that f(2) [of j] s(3) [of j] d unfolding s(1,2) by (cases "j = k") auto
    show "at ?w j = None" if "fmlookup (removed ?s) j = Some y"
      using that f(3) [of j] d unfolding s(1,2) by auto
    show "fst (rewind ?s ?w i) \<le> fst (?w i)" using f(4) unfolding r by simp
    show "bounded ?w" using f(5) assms(2) by (auto simp: bounded_def)
  qed (use f in \<open>simp add: r\<close>)
qed

lemma on_remove_keeps:
  assumes "fits s w" and "at w k = Some v"
  shows "rewind (on_remove k v s) (put k None w) = rewind s w"
    and "fits (on_remove k v s) (put k None w)"
proof -
  let ?s = "on_remove k v s" and ?w = "put k None w"
  note f = fitsD [OF assms(1)]
  have d: "fmlookup (removed s) k = None" using f(3) [of k] assms(2) by (cases "fmlookup (removed s) k") auto
  show r: "rewind ?s ?w = rewind s w"
    using assms(2) d f(1) [of k]
    by (intro view_cong) (auto simp: at_rewind fst_rewind on_remove_def fmlookup_dom_iff split: option.splits)
  have s: "j \<noteq> k \<Longrightarrow> j |\<in>| new_ids ?s \<longleftrightarrow> j |\<in>| new_ids s"
    "j \<noteq> k \<Longrightarrow> fmlookup (old_values ?s) j = fmlookup (old_values s) j"
    "j \<noteq> k \<Longrightarrow> fmlookup (removed ?s) j = fmlookup (removed s) j"
    "k |\<notin>| new_ids ?s" "fmlookup (old_values ?s) k = None" for j
    using f(1) [of k] by (auto simp: on_remove_def split: option.splits)
  show "fits ?s ?w"
  proof (rule fitsI)
    fix j y i
    show "at ?w j \<noteq> None \<and> fmlookup (old_values ?s) j = None \<and> fmlookup (removed ?s) j = None \<and>
      fst (rewind ?s ?w (fst j)) \<le> snd j" if "j |\<in>| new_ids ?s"
      using that f(1) [of j] s(1,2,3) [of j] s(4,5) unfolding r by (cases "j = k") auto
    show "at ?w j \<noteq> None \<and> fmlookup (removed ?s) j = None" if "fmlookup (old_values ?s) j = Some y"
      using that f(2) [of j] s(1,2,3) [of j] s(4,5) by (cases "j = k") auto
    show "at ?w j = None" if "fmlookup (removed ?s) j = Some y"
      using that f(3) [of j] s(1,2,3) [of j] s(4,5) by (cases "j = k") auto
    show "fst (rewind ?s ?w i) \<le> fst (?w i)" using f(4) unfolding r by simp
    show "bounded ?w" using f(5) by (auto simp: bounded_def)
  qed (use f in \<open>simp add: r\<close>)
qed

subsection \<open>Merging\<close>

context iteration_order
begin

lemma ord_mem: "k \<in> set (ord S) \<longleftrightarrow> k |\<in>| S"
  by (simp add: ord_set)

lemma ord_singleton: "ord {|k|} = [k]"
proof -
  have s: "set (ord {|k|}) = {k}" by (simp add: ord_set)
  show ?thesis
  proof (cases "ord {|k|}")
    case (Cons y ys)
    with s ord_distinct [of "{|k|}"] have "y = k" "set ys \<subseteq> {k}" "k \<notin> set ys" by auto
    then have "ys = []" by (cases ys) auto
    with Cons \<open>y = k\<close> show ?thesis by simp
  qed (use s in simp)
qed

lemma merge_old_simps [simp]:
  "new_ids (merge_old ord s p) = new_ids p" "removed (merge_old ord s p) = removed p"
  "old_index_next_ids (merge_old ord s p) = old_index_next_ids p"
  "fmlookup (old_values (merge_old ord s p)) k =
     (case fmlookup (old_values p) k of Some x \<Rightarrow> Some x
      | None \<Rightarrow> if k |\<in>| new_ids p then None else fmlookup (old_values s) k)"
proof -
  let ?f = "\<lambda>k p. if k |\<in>| new_ids p then p
                 else if k |\<in>| fmdom (old_values p) then p
                 else p\<lparr>old_values := fmupd k (the (fmlookup (old_values s) k)) (old_values p)\<rparr>"
  have step: "new_ids (?f j p) = new_ids p" "removed (?f j p) = removed p" "old_index_next_ids (?f j p) = old_index_next_ids p"
    "fmlookup (old_values (?f j p)) k = (case fmlookup (old_values p) k of Some x \<Rightarrow> Some x
        | None \<Rightarrow> if k |\<in>| new_ids p \<or> k \<noteq> j then None else Some (the (fmlookup (old_values s) k)))" for j k p
    by (auto simp: fmlookup_dom_iff split: option.splits)
  have "new_ids (fold ?f ks p) = new_ids p \<and> removed (fold ?f ks p) = removed p \<and>
      old_index_next_ids (fold ?f ks p) = old_index_next_ids p \<and>
      fmlookup (old_values (fold ?f ks p)) k = (case fmlookup (old_values p) k of Some x \<Rightarrow> Some x
        | None \<Rightarrow> if k |\<in>| new_ids p \<or> k \<notin> set ks then None else Some (the (fmlookup (old_values s) k)))" for ks
  proof (induction ks arbitrary: p)
    case (Cons j ks)
    show ?case
      by (simp only: fold_simps Cons.IH step) (auto split: option.splits)
  qed (simp split: option.splits)
  note this [of "ord (fmdom (old_values s))"]
  then show "new_ids (merge_old ord s p) = new_ids p" "removed (merge_old ord s p) = removed p"
    "old_index_next_ids (merge_old ord s p) = old_index_next_ids p"
    "fmlookup (old_values (merge_old ord s p)) k =
     (case fmlookup (old_values p) k of Some x \<Rightarrow> Some x
      | None \<Rightarrow> if k |\<in>| new_ids p then None else fmlookup (old_values s) k)"
    by (auto simp: merge_old_def ord_mem fmlookup_dom_iff split: option.splits)
qed

lemma merge_removed_simps:
  "old_index_next_ids (merge_removed ord s p) = old_index_next_ids p"
  "k |\<in>| new_ids (merge_removed ord s p) \<longleftrightarrow> k |\<in>| new_ids p \<and> fmlookup (removed s) k = None"
  "fmlookup (old_values (merge_removed ord s p)) k =
     (if fmlookup (removed s) k \<noteq> None \<and> k |\<notin>| new_ids p then None else fmlookup (old_values p) k)"
  "fmlookup (removed (merge_removed ord s p)) k =
     (if fmlookup (removed s) k \<noteq> None \<and> k |\<notin>| new_ids p
      then (case fmlookup (old_values p) k of Some x \<Rightarrow> Some x | None \<Rightarrow> fmlookup (removed s) k)
      else fmlookup (removed p) k)"
proof -
  let ?f = "\<lambda>k p. if k |\<in>| new_ids p then p\<lparr>new_ids := new_ids p |-| {|k|}\<rparr>
                 else case fmlookup (old_values p) k of
                   Some x \<Rightarrow> p\<lparr>removed := fmupd k x (removed p), old_values := fmdrop k (old_values p)\<rparr>
                 | None \<Rightarrow> p\<lparr>removed := fmupd k (the (fmlookup (removed s) k)) (removed p)\<rparr>"
  have step: "old_index_next_ids (?f j p) = old_index_next_ids p"
    "k |\<in>| new_ids (?f j p) \<longleftrightarrow> k |\<in>| new_ids p \<and> k \<noteq> j"
    "fmlookup (old_values (?f j p)) k = (if k = j \<and> k |\<notin>| new_ids p then None else fmlookup (old_values p) k)"
    "fmlookup (removed (?f j p)) k = (if k = j \<and> k |\<notin>| new_ids p
      then (case fmlookup (old_values p) k of Some x \<Rightarrow> Some x | None \<Rightarrow> Some (the (fmlookup (removed s) k)))
      else fmlookup (removed p) k)" for j k p
    by (auto split: option.splits)
  have run: "distinct ks \<Longrightarrow> old_index_next_ids (fold ?f ks p) = old_index_next_ids p \<and>
    (k |\<in>| new_ids (fold ?f ks p) \<longleftrightarrow> k |\<in>| new_ids p \<and> k \<notin> set ks) \<and>
    fmlookup (old_values (fold ?f ks p)) k = (if k \<in> set ks \<and> k |\<notin>| new_ids p then None else fmlookup (old_values p) k) \<and>
    fmlookup (removed (fold ?f ks p)) k = (if k \<in> set ks \<and> k |\<notin>| new_ids p
      then (case fmlookup (old_values p) k of Some x \<Rightarrow> Some x | None \<Rightarrow> Some (the (fmlookup (removed s) k)))
      else fmlookup (removed p) k)" for ks k
  proof (induction ks arbitrary: p)
    case (Cons j ks)
    from Cons.prems have "j \<notin> set ks" "distinct ks" by simp_all
    then show ?case by (simp only: fold_simps Cons.IH step) auto
  qed simp
  note run [OF ord_distinct, of "fmdom (removed s)"]
  then show "old_index_next_ids (merge_removed ord s p) = old_index_next_ids p"
    "k |\<in>| new_ids (merge_removed ord s p) \<longleftrightarrow> k |\<in>| new_ids p \<and> fmlookup (removed s) k = None"
    "fmlookup (old_values (merge_removed ord s p)) k =
     (if fmlookup (removed s) k \<noteq> None \<and> k |\<notin>| new_ids p then None else fmlookup (old_values p) k)"
    "fmlookup (removed (merge_removed ord s p)) k =
     (if fmlookup (removed s) k \<noteq> None \<and> k |\<notin>| new_ids p
      then (case fmlookup (old_values p) k of Some x \<Rightarrow> Some x | None \<Rightarrow> fmlookup (removed s) k)
      else fmlookup (removed p) k)"
    by (auto simp: merge_removed_def ord_mem fmlookup_dom_iff split: option.splits)
qed

end

context iteration_order
begin

lemma merge_states_simps:
  assumes "fits s w" and "fits p (rewind s w)"
  shows "old_index_next_ids (merge_states ord s p) = old_index_next_ids s ++\<^sub>f old_index_next_ids p"
    and "k |\<in>| new_ids (merge_states ord s p) \<longleftrightarrow> (k |\<in>| new_ids p \<or> k |\<in>| new_ids s) \<and> fmlookup (removed s) k = None"
    and "fmlookup (old_values (merge_states ord s p)) k =
       (if fmlookup (removed s) k \<noteq> None \<or> k |\<in>| new_ids p then None
        else case fmlookup (old_values p) k of Some x \<Rightarrow> Some x | None \<Rightarrow> fmlookup (old_values s) k)"
    and "fmlookup (removed (merge_states ord s p)) k =
       (case fmlookup (removed s) k of
          None \<Rightarrow> fmlookup (removed p) k
        | Some y \<Rightarrow> if k |\<in>| new_ids p then fmlookup (removed p) k
            else (case fmlookup (old_values p) k of Some x \<Rightarrow> Some x | None \<Rightarrow> Some y))"
proof -
  note fs = fitsD(1-3) [OF assms(1), of k] and fp = fitsD(1-3) [OF assms(2), of k]
  have a: "k |\<in>| new_ids p \<Longrightarrow> fmlookup (old_values p) k = None" using fp(1) by simp
  have b: "k |\<in>| new_ids s \<Longrightarrow> fmlookup (removed s) k = None" using fs(1) by simp
  have c: "fmlookup (removed s) k = Some y \<Longrightarrow> fmlookup (old_values s) k = None" for y
    using fs(2) by (cases "fmlookup (old_values s) k") auto
  show "old_index_next_ids (merge_states ord s p) = old_index_next_ids s ++\<^sub>f old_index_next_ids p"
    "k |\<in>| new_ids (merge_states ord s p) \<longleftrightarrow> (k |\<in>| new_ids p \<or> k |\<in>| new_ids s) \<and> fmlookup (removed s) k = None"
    "fmlookup (old_values (merge_states ord s p)) k =
       (if fmlookup (removed s) k \<noteq> None \<or> k |\<in>| new_ids p then None
        else case fmlookup (old_values p) k of Some x \<Rightarrow> Some x | None \<Rightarrow> fmlookup (old_values s) k)"
    "fmlookup (removed (merge_states ord s p)) k =
       (case fmlookup (removed s) k of
          None \<Rightarrow> fmlookup (removed p) k
        | Some y \<Rightarrow> if k |\<in>| new_ids p then fmlookup (removed p) k
            else (case fmlookup (old_values p) k of Some x \<Rightarrow> Some x | None \<Rightarrow> Some y))"
    using a b c by (auto simp: merge_states_def merge_removed_simps Let_def split: option.splits)
qed

text \<open>The merged state undoes both: the matrix in the source comment, in one equation.\<close>

lemma merge_states_keeps:
  assumes "fits s w" and "fits p (rewind s w)"
  shows "rewind (merge_states ord s p) w = rewind p (rewind s w)"
    and "fits (merge_states ord s p) w"
proof -
  let ?m = "merge_states ord s p"
  note m = merge_states_simps [OF assms] and fs = fitsD [OF assms(1)] and fp = fitsD [OF assms(2)]
  have le: "fst (rewind p (rewind s w) i) \<le> fst (rewind s w i)" "fst (rewind s w i) \<le> fst (w i)" for i
    using fp(4) fs(4) by auto
  have again: "fmlookup (removed p) k = None" if k: "k |\<in>| new_ids s" for k
  proof (rule ccontr)
    assume "fmlookup (removed p) k \<noteq> None"
    then obtain x where x: "fmlookup (removed p) k = Some x" by blast
    have "k |\<notin>| new_ids p" "fmlookup (old_values p) k = None"
      using x fp(1) [of k] fp(2) [of k] by (auto, cases "fmlookup (old_values p) k") auto
    then have "at (rewind p (rewind s w)) k = Some x" using x by (simp add: at_rewind)
    with fp(6) have "snd k < fst (rewind p (rewind s w) (fst k))" by (auto simp: bounded_def)
    with fs(1) [OF k] le(1) [of "fst k"] show False by simp
  qed
  show r: "rewind ?m w = rewind p (rewind s w)"
  proof (rule view_cong)
    fix k
    show "at (rewind ?m w) k = at (rewind p (rewind s w)) k"
      using fs(1,2,3) [of k] fp(1,2,3) [of k] again [of k]
      by (auto simp: at_rewind m(2,3,4) split: option.splits if_splits)
    fix j
    show "fst (rewind ?m w j) = fst (rewind p (rewind s w) j)"
      by (auto simp: fst_rewind m(1) fmlookup_dom_iff split: option.splits)
  qed
  show "fits ?m w"
  proof (rule fitsI)
    fix k x i
    show "at w k \<noteq> None \<and> fmlookup (old_values ?m) k = None \<and> fmlookup (removed ?m) k = None \<and>
      fst (rewind ?m w (fst k)) \<le> snd k" if "k |\<in>| new_ids ?m"
      using that again [of k] fs(1,2,3) [of k] fp(1,2,3) [of k] le [of "fst k"] unfolding r
      by (auto simp: m(2,3,4) at_rewind split: option.splits if_splits)
    show "at w k \<noteq> None \<and> fmlookup (removed ?m) k = None" if "fmlookup (old_values ?m) k = Some x"
      using that again [of k] fs(1,2,3) [of k] fp(1,2,3) [of k]
      by (cases "fmlookup (removed p) k") (auto simp: m(2,3,4) at_rewind split: option.splits if_splits)
    show "at w k = None" if "fmlookup (removed ?m) k = Some x"
      using that again [of k] fs(1,2,3) [of k] fp(1,2,3) [of k]
      by (auto simp: m(2,3,4) at_rewind split: option.splits if_splits)
    show "fst (rewind ?m w i) \<le> fst (w i)" using le [of i] unfolding r by simp
  qed (use fs fp in \<open>simp_all add: r\<close>)
qed

end

subsection \<open>The mutators\<close>

text \<open>
  The copies that the stack stands for. A change without an open session opens one, so the first change
  to an empty stack saves the database before it.
\<close>

definition copies :: "('a, 's) object_database \<Rightarrow> 'a view list" where
  "copies D = rewinds (undo_stack D) (view (indexes D))"

definition saved :: "'a view \<Rightarrow> 'a view list \<Rightarrow> 'a view list" where
  "saved w ws = (if ws = [] then [w] else ws)"

lemma rewinds_Nil [simp]: "rewinds ss w = [] \<longleftrightarrow> ss = []"
  by (cases ss) simp_all

lemma record_change_simps [simp]:
  "indexes (record_change f D) = indexes D" "sindexes (record_change f D) = sindexes D"
  "disabled (record_change f D) = disabled D" "max_size (record_change f D) = max_size D"
  "active_sessions (record_change f D) = active_sessions D"
  "disabled D \<Longrightarrow> record_change f D = D"
  by (simp_all add: record_change_def)

lemma record_change_stack:
  "undo_stack (record_change f (D\<lparr>indexes := db\<rparr>)) = undo_stack (record_change f D)"
  "undo_stack (record_change f (D\<lparr>sindexes := x\<rparr>)) = undo_stack (record_change f D)"
  by (simp_all add: record_change_def)

text \<open>A change whose record keeps the previous state keeps all the copies.\<close>

lemma record_change_keeps:
  assumes "undo_ok D" and "indexes D' = db'" and "undo_stack D' = undo_stack (record_change f D)" and "disabled D' = disabled D"
    and keep: "\<And>s. fits s (view (indexes D)) \<Longrightarrow> rewind (f s) (view db') = rewind s (view (indexes D)) \<and> fits (f s) (view db')"
  shows "undo_ok D' \<and> copies D' = saved (view (indexes D)) (copies D)"
proof (cases "undo_stack D")
  case Nil
  with assms(1) have "fits no_changes (view (indexes D))" by (simp add: undo_ok_def)
  from keep [OF this] Nil assms(1-4) show ?thesis
    by (simp add: undo_ok_def copies_def saved_def record_change_def)
next
  case (Cons s ss)
  with assms(1) have "fits s (view (indexes D))" by (simp add: undo_ok_def)
  from keep [OF this] Cons assms(1-4) show ?thesis
    by (simp add: undo_ok_def copies_def saved_def record_change_def)
qed

lemma view_create:
  assumes "tbl_create c (db i) v = Inr (n, t)"
  shows "n = fst (view db i) \<and> view (db(i := t)) = created i v (view db)"
proof -
  note id = tbl_create_id [OF assms]
  have "view (db(i := t)) j = created i v (view db) j" for j
    using id tbl_create_find [OF assms] by (auto simp: view_def created_def put_def fun_eq_iff)
  with id show ?thesis by (auto simp: view_def)
qed

lemma db_create_keeps:
  assumes "undo_ok D" and "db_create Z i v D = Inr D'"
  shows "undo_ok D'" and "view (indexes D') = created i v (view (indexes D))"
    and "copies D' = saved (view (indexes D)) (copies D)" and "max_size D' = max_size D" and "active_sessions D' = active_sessions D"
proof -
  from assms(2) obtain n t where t: "tbl_create (unique_in Z i) (indexes D i) v = Inr (n, t)"
    and D': "D' = record_change (on_create (i, n)) (D\<lparr>indexes := (indexes D)(i := t), sindexes := when_inserted Z (i, n) v (sindexes D)\<rparr>)"
    by (auto simp: db_create_def)
  note c = view_create [where db = "indexes D", OF t]
  show "view (indexes D') = created i v (view (indexes D))" "max_size D' = max_size D" "active_sessions D' = active_sessions D"
    using c by (simp_all add: D')
  have "undo_ok D' \<and> copies D' = saved (view (indexes D)) (copies D)"
  proof (rule record_change_keeps [OF assms(1)])
    show "rewind (on_create (i, n) s) (view ((indexes D)(i := t))) = rewind s (view (indexes D)) \<and>
        fits (on_create (i, n) s) (view ((indexes D)(i := t)))" if "fits s (view (indexes D))" for s
      using on_create_keeps [OF that] c by simp
  qed (simp_all add: D' record_change_stack)
  then show "undo_ok D'" "copies D' = saved (view (indexes D)) (copies D)" by blast+
qed

lemma db_modify_result:
  assumes "db_modify Z k m D = Inr D'"
  shows "\<exists>v t. at (view (indexes D)) k = Some v \<and> tbl_modify (unique_in Z (fst k)) (indexes D (fst k)) (snd k) m = Inr t \<and>
    indexes D' = (indexes D)(fst k := t) \<and> view (indexes D') = put k (Some (m v)) (view (indexes D)) \<and>
    undo_stack D' = undo_stack (record_change (on_modify k v) D) \<and> disabled D' = disabled D \<and>
    max_size D' = max_size D \<and> active_sessions D' = active_sessions D"
  using assms by (auto simp: db_modify_def Let_def at_view view_modify)

lemma db_modify_keeps:
  assumes "undo_ok D" and "db_modify Z k m D = Inr D'"
  shows "undo_ok D'" and "\<exists>v. at (view (indexes D)) k = Some v \<and> view (indexes D') = put k (Some (m v)) (view (indexes D))"
    and "copies D' = saved (view (indexes D)) (copies D)" and "max_size D' = max_size D" and "active_sessions D' = active_sessions D"
proof -
  from db_modify_result [OF assms(2)] obtain v t where v: "at (view (indexes D)) k = Some v"
    and i: "indexes D' = (indexes D)(fst k := t)" and w: "view (indexes D') = put k (Some (m v)) (view (indexes D))"
    and s: "undo_stack D' = undo_stack (record_change (on_modify k v) D)" "disabled D' = disabled D"
      "max_size D' = max_size D" "active_sessions D' = active_sessions D" by blast
  show "\<exists>v. at (view (indexes D)) k = Some v \<and> view (indexes D') = put k (Some (m v)) (view (indexes D))"
    "max_size D' = max_size D" "active_sessions D' = active_sessions D" using v w s by auto
  have "undo_ok D' \<and> copies D' = saved (view (indexes D)) (copies D)"
    by (rule record_change_keeps [OF assms(1) i s(1,2)]) (simp add: on_modify_keeps v w i [symmetric])
  then show "undo_ok D'" "copies D' = saved (view (indexes D)) (copies D)" by blast+
qed

lemma db_remove_result:
  assumes "db_remove Z k D = Inr D'"
  shows "\<exists>v. at (view (indexes D)) k = Some v \<and> view (indexes D') = put k None (view (indexes D)) \<and>
    indexes D' = (indexes D)(fst k := tbl_remove (indexes D (fst k)) (snd k)) \<and>
    undo_stack D' = undo_stack (record_change (on_remove k v) D) \<and> disabled D' = disabled D \<and>
    max_size D' = max_size D \<and> active_sessions D' = active_sessions D"
proof -
  from assms obtain v where v: "tbl_find (indexes D (fst k)) (snd k) = Some v"
    and "D' = (record_change (on_remove k v) (D\<lparr>sindexes := when_removed Z k v (sindexes D)\<rparr>))
      \<lparr>indexes := (indexes D)(fst k := tbl_remove (indexes D (fst k)) (snd k))\<rparr>"
    by (auto simp: db_remove_def Let_def)
  then show ?thesis by (intro exI [of _ v]) (simp add: at_view view_remove record_change_stack)
qed

lemma db_remove_keeps:
  assumes "undo_ok D" and "db_remove Z k D = Inr D'"
  shows "undo_ok D'" and "view (indexes D') = put k None (view (indexes D))"
    and "copies D' = saved (view (indexes D)) (copies D)" and "max_size D' = max_size D" and "active_sessions D' = active_sessions D"
proof -
  from db_remove_result [OF assms(2)] obtain v where v: "at (view (indexes D)) k = Some v"
    and w: "view (indexes D') = put k None (view (indexes D))"
    and i: "indexes D' = (indexes D)(fst k := tbl_remove (indexes D (fst k)) (snd k))"
    and s: "undo_stack D' = undo_stack (record_change (on_remove k v) D)" "disabled D' = disabled D"
      "max_size D' = max_size D" "active_sessions D' = active_sessions D" by blast
  show "view (indexes D') = put k None (view (indexes D))" "max_size D' = max_size D" "active_sessions D' = active_sessions D"
    using w s by auto
  have "undo_ok D' \<and> copies D' = saved (view (indexes D)) (copies D)"
    by (rule record_change_keeps [OF assms(1) i s(1,2)]) (simp add: on_remove_keeps v w i [symmetric])
  then show "undo_ok D'" "copies D' = saved (view (indexes D)) (copies D)" by blast+
qed

subsection \<open>Undoing\<close>

definition same_stack :: "('a, 's) object_database \<Rightarrow> ('a, 's) object_database \<Rightarrow> bool" where
  "same_stack D D' \<longleftrightarrow> undo_stack D' = undo_stack D \<and> disabled D' = disabled D \<and> max_size D' = max_size D \<and>
     active_sessions D' = active_sessions D"

lemma same_stack_trans: "same_stack D D' \<Longrightarrow> same_stack D' D'' \<Longrightarrow> same_stack D D''"
  by (simp add: same_stack_def)

text \<open>A step that sets one object and leaves the history alone, and a loop of such steps.\<close>

definition puts :: "(object_id \<Rightarrow> ('a, 's) object_database \<Rightarrow> ('a, 's) object_database result) \<Rightarrow> (object_id \<Rightarrow> 'a option) \<Rightarrow> bool" where
  "puts f g \<longleftrightarrow> (\<forall>k D D'. disabled D \<and> f k D = Inr D' \<longrightarrow>
     view (indexes D') = put k (g k) (view (indexes D)) \<and> same_stack D D')"

lemma efold_puts:
  assumes "puts f g" and "efold f ks D = Inr D'" and "disabled D"
  shows "same_stack D D' \<and> (\<forall>i. fst (view (indexes D') i) = fst (view (indexes D) i)) \<and>
    (\<forall>k. at (view (indexes D')) k = (if k \<in> set ks then g k else at (view (indexes D)) k))"
  using assms(2,3)
proof (induction ks arbitrary: D)
  case (Cons k ks)
  from Cons.prems(1) obtain D1 where a: "f k D = Inr D1" and b: "efold f ks D1 = Inr D'" by auto
  from assms(1) a Cons.prems(2) have p: "view (indexes D1) = put k (g k) (view (indexes D))" and s: "same_stack D D1"
    unfolding puts_def by blast+
  from s Cons.prems(2) have "disabled D1" by (simp add: same_stack_def)
  from Cons.IH [OF b this] p s show ?case by (auto intro: same_stack_trans)
qed (simp add: same_stack_def)

lemma efold_puts_returns:
  assumes "puts f g" and "disabled D" and "distinct ks"
    and step: "\<And>k E. k \<in> set ks \<Longrightarrow> disabled E \<Longrightarrow> at (view (indexes E)) k = at (view (indexes D)) k \<Longrightarrow>
      (\<And>j. at (view (indexes E)) j = at (view (indexes D)) j \<or> j \<in> set ks \<and> at (view (indexes E)) j = g j) \<Longrightarrow> is_ok (f k E)"
  shows "is_ok (efold f ks D)"
proof -
  have "disabled E \<Longrightarrow> distinct xs \<Longrightarrow> set xs \<subseteq> set ks \<Longrightarrow>
      (\<And>k. k \<in> set xs \<Longrightarrow> at (view (indexes E)) k = at (view (indexes D)) k) \<Longrightarrow>
      (\<And>j. at (view (indexes E)) j = at (view (indexes D)) j \<or> j \<in> set ks \<and> at (view (indexes E)) j = g j) \<Longrightarrow>
      is_ok (efold f xs E)" for xs E
  proof (induction xs arbitrary: E)
    case (Cons k xs)
    have "is_ok (f k E)" by (rule step) (use Cons.prems in auto)
    then obtain E1 where a: "f k E = Inr E1" by (auto simp: is_ok_iff)
    from assms(1) a Cons.prems(1) have p: "view (indexes E1) = put k (g k) (view (indexes E))" and s: "same_stack E E1"
      unfolding puts_def by blast+
    have "is_ok (efold f xs E1)"
      by (rule Cons.IH) (use Cons.prems p s in \<open>auto simp: same_stack_def\<close>)
    with a show ?case by simp
  qed simp
  from this [of D ks] assms(2,3) show ?thesis by simp
qed

lemma puts_modify: "puts (\<lambda>k. db_modify Z k (\<lambda>_. g k)) (\<lambda>k. Some (g k))"
  unfolding puts_def
proof (intro allI impI)
  fix k D D'
  assume "disabled D \<and> db_modify Z k (\<lambda>_. g k) D = Inr D'"
  then show "view (indexes D') = put k (Some (g k)) (view (indexes D)) \<and> same_stack D D'"
    using db_modify_result [of Z k "\<lambda>_. g k" D D'] by (auto simp: same_stack_def)
qed

lemma puts_remove: "puts (db_remove Z) (\<lambda>_. None)"
  unfolding puts_def
proof (intro allI impI)
  fix k D D'
  assume "disabled D \<and> db_remove Z k D = Inr D'"
  then show "view (indexes D') = put k None (view (indexes D)) \<and> same_stack D D'"
    using db_remove_result [of Z k D D'] by (auto simp: same_stack_def)
qed

lemma puts_insert: "puts (\<lambda>k. db_insert Z k (g k)) (\<lambda>k. Some (g k))"
  by (auto simp: puts_def db_insert_def tbl_insert_def same_stack_def view_def put_def tbl_find_def fun_eq_iff split: if_splits)

lemma view_set_next_ids:
  "at (view (set_next_ids old db)) k = at (view db) k"
  "fst (view (set_next_ids old db) i) = (case fmlookup old i of None \<Rightarrow> fst (view db i) | Some n \<Rightarrow> n)"
  by (auto simp: view_def at_def set_next_ids_def tbl_find_def split: option.splits)

context iteration_order
begin

lemma take_back_exact:
  assumes "take_back Z ord s D = Inr D'" and "disabled D" and "fits s (view (indexes D))"
  shows "view (indexes D') = rewind s (view (indexes D))" and "same_stack D D'"
proof -
  from assms(1) obtain D1 D2 where
    1: "efold (\<lambda>k. db_modify Z k (\<lambda>_. the (fmlookup (old_values s) k))) (ord (fmdom (old_values s))) D = Inr D1" and
    2: "efold (db_remove Z) (ord (new_ids s)) D1 = Inr D2" and
    3: "efold (\<lambda>k. db_insert Z k (the (fmlookup (removed s) k))) (ord (fmdom (removed s)))
       (D2\<lparr>indexes := set_next_ids (old_index_next_ids s) (indexes D2)\<rparr>) = Inr D'"
    by (auto simp: take_back_def)
  note a = efold_puts [OF puts_modify 1 assms(2)]
  then have d1: "disabled D1" using assms(2) by (simp add: same_stack_def)
  note b = efold_puts [OF puts_remove 2 d1]
  then have d2: "disabled (D2\<lparr>indexes := set_next_ids (old_index_next_ids s) (indexes D2)\<rparr>)"
    using d1 by (simp add: same_stack_def)
  note c = efold_puts [OF puts_insert 3 d2]
  show "same_stack D D'" using a b c by (simp add: same_stack_def)
  note f = fitsD [OF assms(3)]
  show "view (indexes D') = rewind s (view (indexes D))"
  proof (rule view_cong)
    fix k
    have "at (view (indexes D1)) k = (if k |\<in>| fmdom (old_values s) then Some (the (fmlookup (old_values s) k)) else at (view (indexes D)) k)"
      "at (view (indexes D2)) k = (if k |\<in>| new_ids s then None else at (view (indexes D1)) k)"
      "at (view (indexes D')) k = (if k |\<in>| fmdom (removed s) then Some (the (fmlookup (removed s) k)) else at (view (indexes D2)) k)"
      using a b c by (simp_all add: ord_mem view_set_next_ids del: split_paired_All)
    then show "at (view (indexes D')) k = at (rewind s (view (indexes D))) k"
      using f(1,2,3) [of k] by (auto simp: at_rewind fmlookup_dom_iff split: option.splits)
    fix i
    show "fst (view (indexes D') i) = fst (rewind s (view (indexes D)) i)"
      using a b c by (simp add: fst_rewind view_set_next_ids split: option.splits)
  qed
qed

end

text \<open>
  When undoing returns: no object of the earlier state collides in a unique key with another object of
  the earlier or of the current state, so no order of the loops meets a collision.
\<close>

definition stable_keys :: "('a, 's) schema \<Rightarrow> 'a view \<Rightarrow> 'a view \<Rightarrow> bool" where
  "stable_keys Z w w0 \<longleftrightarrow> (\<forall>k j v x. fst k = fst j \<and> k \<noteq> j \<and> at w0 k = Some v \<and> (at w j = Some x \<or> at w0 j = Some x) \<longrightarrow>
     \<not> unique_in Z (fst k) v x)"

lemma tbl_modify_is_ok:
  "is_ok (tbl_modify c t n m) \<longleftrightarrow> (\<exists>v. tbl_find t n = Some v \<and> (\<forall>j x. j \<noteq> n \<and> tbl_find t j = Some x \<longrightarrow> \<not> c (m v) x))"
  by (cases "tbl_find t n") (auto simp: tbl_modify_def tbl_get_def fmpred_iff tbl_find_def)

lemma tbl_insert_is_ok:
  "is_ok (tbl_insert c t n v) \<longleftrightarrow> tbl_find t n = None \<and> (\<forall>j x. tbl_find t j = Some x \<longrightarrow> \<not> c v x)"
  by (auto simp: tbl_insert_def fmpred_iff tbl_find_def fmlookup_dom_iff)

lemma db_modify_is_ok:
  assumes "at (view (indexes D)) k \<noteq> None"
    and "\<And>j x. fst j = fst k \<Longrightarrow> j \<noteq> k \<Longrightarrow> at (view (indexes D)) j = Some x \<Longrightarrow> \<not> unique_in Z (fst k) v x"
  shows "is_ok (db_modify Z k (\<lambda>_. v) D)"
proof -
  from assms(1) obtain x where x: "tbl_find (indexes D (fst k)) (snd k) = Some x" by (auto simp: at_view)
  have "is_ok (tbl_modify (unique_in Z (fst k)) (indexes D (fst k)) (snd k) (\<lambda>_. v))"
    unfolding tbl_modify_is_ok using x assms(2) [of "(fst k, j)" for j] by (auto simp: at_view prod_eq_iff)
  then obtain t where "tbl_modify (unique_in Z (fst k)) (indexes D (fst k)) (snd k) (\<lambda>_. v) = Inr t" by (auto simp: is_ok_iff)
  with x show ?thesis by (simp add: db_modify_def tbl_get_def Let_def)
qed

lemma db_insert_is_ok:
  assumes "at (view (indexes D)) k = None"
    and "\<And>j x. fst j = fst k \<Longrightarrow> j \<noteq> k \<Longrightarrow> at (view (indexes D)) j = Some x \<Longrightarrow> \<not> unique_in Z (fst k) v x"
  shows "is_ok (db_insert Z k v D)"
proof -
  have "is_ok (tbl_insert (unique_in Z (fst k)) (indexes D (fst k)) (snd k) v)"
    unfolding tbl_insert_is_ok
  proof (intro conjI allI impI)
    show free: "tbl_find (indexes D (fst k)) (snd k) = None" using assms(1) by (simp add: at_view)
    fix j x
    assume "tbl_find (indexes D (fst k)) j = Some x"
    with free assms(2) [of "(fst k, j)" x] show "\<not> unique_in Z (fst k) v x" by (cases k, cases "j = snd k") (auto simp: at_view)
  qed
  then show ?thesis by (auto simp: db_insert_def is_ok_iff)
qed

lemma db_remove_is_ok: "at (view (indexes D)) k \<noteq> None \<Longrightarrow> is_ok (db_remove Z k D)"
  by (auto simp: at_view db_remove_def tbl_get_def Let_def)

context iteration_order
begin

lemma take_back_returns:
  fixes D :: "('a, 's) object_database"
  assumes "disabled D" and "fits s (view (indexes D))" and st: "stable_keys Z (view (indexes D)) (rewind s (view (indexes D)))"
  shows "is_ok (take_back Z ord s D)"
proof -
  let ?w = "view (indexes D)" and ?past = "rewind s (view (indexes D))"
  let ?old = "\<lambda>k. the (fmlookup (old_values s) k)" and ?rem = "\<lambda>k. the (fmlookup (removed s) k)"
  note f = fitsD [OF assms(2)]
  have old: "at ?past k = Some (?old k)" "at ?w k \<noteq> None" if "k |\<in>| fmdom (old_values s)" for k
    using that f(1,2) [of k] by (auto simp: at_rewind fmlookup_dom_iff)
  have rem: "at ?past k = Some (?rem k)" "at ?w k = None" "k |\<notin>| new_ids s" "k |\<notin>| fmdom (old_values s)"
    if "k |\<in>| fmdom (removed s)" for k
  proof -
    from that obtain x where x: "fmlookup (removed s) k = Some x" by (auto simp: fmlookup_dom_iff)
    show n: "at ?w k = None" using f(3) [OF x] .
    show new: "k |\<notin>| new_ids s" using f(1) [of k] n by blast
    have o: "fmlookup (old_values s) k = None" using f(2) [of k] n by (cases "fmlookup (old_values s) k") auto
    then show "k |\<notin>| fmdom (old_values s)" by (simp add: fmlookup_dom_iff)
    show "at ?past k = Some (?rem k)" using x o new by (simp add: at_rewind)
  qed
  have safe: "\<not> unique_in Z (fst k) v x" if "at ?past k = Some v" "fst j = fst k" "j \<noteq> k" "at ?w j = Some x \<or> at ?past j = Some x" for k j v x
    using st that unfolding stable_keys_def by metis
  have 1: "is_ok (efold (\<lambda>k. db_modify Z k (\<lambda>_. ?old k)) (ord (fmdom (old_values s))) D)"
  proof (rule efold_puts_returns [OF puts_modify assms(1) ord_distinct])
    fix k and E :: "('a, 's) object_database"
    assume k: "k \<in> set (ord (fmdom (old_values s)))" and now: "at (view (indexes E)) k = at ?w k"
      and mix: "\<And>j. at (view (indexes E)) j = at ?w j \<or> j \<in> set (ord (fmdom (old_values s))) \<and> at (view (indexes E)) j = Some (?old j)"
    show "is_ok (db_modify Z k (\<lambda>_. ?old k) E)"
    proof (rule db_modify_is_ok)
      show "at (view (indexes E)) k \<noteq> None" using now old k by (simp add: ord_mem)
      fix j x
      assume j: "fst j = fst k" "j \<noteq> k" "at (view (indexes E)) j = Some x"
      with mix [of j] old(1) [of j] have "at ?w j = Some x \<or> at ?past j = Some x" by (auto simp: ord_mem)
      with j safe old(1) [of k] k show "\<not> unique_in Z (fst k) (?old k) x" by (auto simp: ord_mem)
    qed
  qed
  then obtain D1 where D1: "efold (\<lambda>k. db_modify Z k (\<lambda>_. ?old k)) (ord (fmdom (old_values s))) D = Inr D1" by (auto simp: is_ok_iff)
  note a = efold_puts [OF puts_modify D1 assms(1)]
  then have d1: "disabled D1" using assms(1) by (simp add: same_stack_def)
  have w1: "at (view (indexes D1)) k = (if k |\<in>| fmdom (old_values s) then Some (?old k) else at ?w k)" for k
    using a by (simp add: ord_mem del: split_paired_All)
  have 2: "is_ok (efold (db_remove Z) (ord (new_ids s)) D1)"
  proof (rule efold_puts_returns [OF puts_remove d1 ord_distinct])
    fix k and E :: "('a, 's) object_database"
    assume "k \<in> set (ord (new_ids s))" and "at (view (indexes E)) k = at (view (indexes D1)) k"
    then have "at (view (indexes E)) k \<noteq> None" using w1 [of k] f(1) [of k] by (auto simp: ord_mem fmlookup_dom_iff)
    then show "is_ok (db_remove Z k E)" by (rule db_remove_is_ok)
  qed
  then obtain D2 where D2: "efold (db_remove Z) (ord (new_ids s)) D1 = Inr D2" by (auto simp: is_ok_iff)
  let ?D = "D2\<lparr>indexes := set_next_ids (old_index_next_ids s) (indexes D2)\<rparr>"
  note b = efold_puts [OF puts_remove D2 d1]
  then have d2: "disabled ?D" using d1 by (simp add: same_stack_def)
  have w2: "at (view (indexes ?D)) k = (if k |\<in>| new_ids s then None else at (view (indexes D1)) k)" for k
    using b by (simp add: ord_mem view_set_next_ids del: split_paired_All)
  have "is_ok (efold (\<lambda>k. db_insert Z k (?rem k)) (ord (fmdom (removed s))) ?D)"
  proof (rule efold_puts_returns [OF puts_insert d2 ord_distinct])
    fix k and E :: "('a, 's) object_database"
    assume k: "k \<in> set (ord (fmdom (removed s)))" and now: "at (view (indexes E)) k = at (view (indexes ?D)) k"
      and mix: "\<And>j. at (view (indexes E)) j = at (view (indexes ?D)) j \<or> j \<in> set (ord (fmdom (removed s))) \<and> at (view (indexes E)) j = Some (?rem j)"
    show "is_ok (db_insert Z k (?rem k) E)"
    proof (rule db_insert_is_ok)
      show "at (view (indexes E)) k = None" using now w2 [of k] w1 [of k] rem [of k] k by (simp add: ord_mem)
      fix j x
      assume j: "fst j = fst k" "j \<noteq> k" "at (view (indexes E)) j = Some x"
      with mix [of j] rem(1) [of j] old(1) [of j] w2 [of j] w1 [of j] have "at ?w j = Some x \<or> at ?past j = Some x"
        by (auto simp: ord_mem split: if_splits)
      with j safe rem(1) [of k] k show "\<not> unique_in Z (fst k) (?rem k) x" by (auto simp: ord_mem)
    qed
  qed
  with D1 D2 show ?thesis by (simp add: take_back_def)
qed

end

subsection \<open>Runs\<close>

datatype 'a command =
    Create nat 'a
  | Modify object_id "'a \<Rightarrow> 'a"
  | Remove object_id
  | Start bool
  | Undo
  | Merge
  | Commit
  | Pop_commit

definition exec ::
  "('a, 's) schema \<Rightarrow> (object_id fset \<Rightarrow> object_id list) \<Rightarrow> 'a command \<Rightarrow> ('a, 's) object_database
    \<Rightarrow> ('a, 's) object_database result" where
  "exec Z ord c D =
     (case c of
        Create i v \<Rightarrow> db_create Z i v D
      | Modify k m \<Rightarrow> db_modify Z k m D
      | Remove k \<Rightarrow> db_remove Z k D
      | Start force \<Rightarrow> Inr (start_undo_session force D)
      | Undo \<Rightarrow> undo Z ord D
      | Merge \<Rightarrow> merge ord D
      | Commit \<Rightarrow> commit D
      | Pop_commit \<Rightarrow> pop_commit Z ord D)"

text \<open>The specification works on the database and whole copies of it.\<close>

fun spec :: "nat \<Rightarrow> 'a command \<Rightarrow> 'a view \<times> 'a view list \<Rightarrow> 'a view \<times> 'a view list" where
  "spec m (Create i v) (w, ws) = (created i v w, saved w ws)"
| "spec m (Modify k f) (w, ws) = (put k (map_option f (at w k)) w, saved w ws)"
| "spec m (Remove k) (w, ws) = (put k None w, saved w ws)"
| "spec m (Start force) (w, ws) = (w, w # take m ws)"
| "spec m Undo (w, ws) = (hd ws, tl ws)"
| "spec m Merge (w, ws) = (w, tl ws)"
| "spec m Commit (w, ws) = (w, ws)"
| "spec m Pop_commit (w, ws) = (hd ws, tl ws)"

definition copied :: "('a, 's) object_database \<Rightarrow> 'a view \<times> 'a view list" where
  "copied D = (view (indexes D), copies D)"

lemma rewinds_take: "rewinds (take m ss) w = take m (rewinds ss w)"
  by (induction ss arbitrary: m w) (simp_all add: take_Cons split: nat.splits)

lemma fits_all_take: "fits_all ss w \<Longrightarrow> fits_all (take m ss) w"
  by (induction ss arbitrary: m w) (auto simp: take_Cons fits_def split: nat.splits)

lemma start_refines:
  assumes "undo_ok D"
  shows "undo_ok (start_undo_session force D) \<and> copied (start_undo_session force D) = spec (max_size D) (Start force) (copied D)"
  using assms fits_all_take fits_all_bounded
  by (simp add: undo_ok_def start_undo_session_def copied_def copies_def rewinds_take) blast

context iteration_order
begin

lemma undo_result:
  assumes "undo_ok D" and "undo Z ord D = Inr D' \<or> pop_commit Z ord D = Inr D'"
  shows "undo_ok D'" and "copied D' = (hd (copies D), tl (copies D))" and "max_size D' = max_size D" and "copies D \<noteq> []"
proof -
  from assms(2) obtain s ss D1 where st: "undo_stack D = s # ss" and t: "take_back Z ord s (D\<lparr>disabled := True\<rparr>) = Inr D1"
    and D': "undo_stack D' = ss" "indexes D' = indexes D1" "\<not> disabled D'" "max_size D' = max_size D1"
    by (auto simp: undo_def pop_commit_def split: list.splits)
  from assms(1) st have f: "fits s (view (indexes D))" "fits_all ss (rewind s (view (indexes D)))" by (simp_all add: undo_ok_def)
  from take_back_exact [OF t] f(1) have "view (indexes D1) = rewind s (view (indexes D))" "max_size D1 = max_size D"
    by (simp_all add: same_stack_def)
  with D' f st show "undo_ok D'" "copied D' = (hd (copies D), tl (copies D))" "max_size D' = max_size D" "copies D \<noteq> []"
    by (simp_all add: undo_ok_def copied_def copies_def)
qed

lemma merge_result:
  assumes "undo_ok D" and "merge ord D = Inr D'"
  shows "undo_ok D'" and "copied D' = (view (indexes D), tl (copies D))" and "max_size D' = max_size D"
proof -
  consider s where "undo_stack D = [s]" "D' = D\<lparr>undo_stack := [], active_sessions := 0\<rparr>"
    | s p ss where "undo_stack D = s # p # ss"
        "D' = D\<lparr>undo_stack := merge_states ord s p # ss, active_sessions := active_sessions D - 1\<rparr>"
    using assms(2) by (fastforce simp: merge_def length_Suc_conv split: if_splits list.splits)
  then have "undo_ok D' \<and> copied D' = (view (indexes D), tl (copies D)) \<and> max_size D' = max_size D"
  proof cases
    case 1
    with assms(1) show ?thesis by (simp add: undo_ok_def copied_def copies_def fits_def)
  next
    case 2
    with assms(1) have "fits s (view (indexes D))" "fits p (rewind s (view (indexes D)))" by (simp_all add: undo_ok_def)
    from merge_states_keeps [OF this] 2 assms(1) show ?thesis by (simp add: undo_ok_def copied_def copies_def)
  qed
  then show "undo_ok D'" "copied D' = (view (indexes D), tl (copies D))" "max_size D' = max_size D" by blast+
qed

lemma exec_refines:
  assumes "undo_ok D" and "exec Z ord c D = Inr D'"
  shows "undo_ok D' \<and> copied D' = spec (max_size D) c (copied D) \<and> max_size D' = max_size D"
proof (cases c)
  case (Create i v)
  with assms db_create_keeps [of D Z i v D'] show ?thesis by (simp add: exec_def copied_def)
next
  case (Modify k m)
  with assms db_modify_keeps [of D Z k m D'] show ?thesis by (auto simp: exec_def copied_def)
next
  case (Remove k)
  with assms db_remove_keeps [of D Z k D'] show ?thesis by (simp add: exec_def copied_def)
next
  case (Start force)
  with assms start_refines [OF assms(1), of force] show ?thesis by (auto simp: exec_def start_undo_session_def)
next
  case Undo
  with assms undo_result [OF assms(1), of Z D'] show ?thesis by (simp add: exec_def copied_def)
next
  case Merge
  with assms merge_result [OF assms(1), of D'] show ?thesis by (simp add: exec_def copied_def)
next
  case Commit
  with assms show ?thesis by (auto simp: exec_def commit_def copied_def undo_ok_def copies_def)
next
  case Pop_commit
  with assms undo_result [OF assms(1), of Z D'] show ?thesis by (simp add: exec_def copied_def)
qed

lemma run_refines:
  assumes "undo_ok D" and "efold (exec Z ord) cs D = Inr D'"
  shows "undo_ok D' \<and> copied D' = fold (spec (max_size D)) cs (copied D) \<and> max_size D' = max_size D"
  using assms
proof (induction cs arbitrary: D)
  case (Cons c cs)
  then obtain D1 where "exec Z ord c D = Inr D1" "efold (exec Z ord) cs D1 = Inr D'" by auto
  with exec_refines [OF Cons.prems(1)] Cons.IH [of D1] show ?case by simp
qed simp

end

subsection \<open>Nested sessions\<close>

text \<open>What happens inside a session: changes, and sessions that are undone or merged, at most \<open>d\<close> deep.\<close>

inductive nested :: "nat \<Rightarrow> 'a command list \<Rightarrow> bool" where
  nested_Nil: "nested d []"
| nested_Create: "nested d cs \<Longrightarrow> nested d (Create i v # cs)"
| nested_Modify: "nested d cs \<Longrightarrow> nested d (Modify k m # cs)"
| nested_Remove: "nested d cs \<Longrightarrow> nested d (Remove k # cs)"
| nested_session: "nested d cs \<Longrightarrow> c = Undo \<or> c = Merge \<Longrightarrow> nested (Suc d) ds \<Longrightarrow> nested (Suc d) (Start force # cs @ c # ds)"

lemma nested_keeps:
  "nested d cs \<Longrightarrow> d + j \<le> Suc m \<Longrightarrow> 0 < j \<Longrightarrow> j \<le> length ws \<Longrightarrow>
   take j (snd (fold (spec m) cs (w, ws))) = take j ws \<and> j \<le> length (snd (fold (spec m) cs (w, ws)))"
proof (induction d cs arbitrary: w ws j rule: nested.induct)
  case (nested_session d cs c ds force)
  have "take (Suc j) (snd (fold (spec m) cs (w, w # take m ws))) = take (Suc j) (w # take m ws) \<and>
    Suc j \<le> length (snd (fold (spec m) cs (w, w # take m ws)))"
    by (rule nested_session.IH(1)) (use nested_session.prems in auto)
  moreover obtain w1 ws1 where r: "fold (spec m) cs (w, w # take m ws) = (w1, ws1)" by (metis surj_pair)
  ultimately have t: "take (Suc j) ws1 = w # take j (take m ws)" "Suc j \<le> length ws1" by simp_all
  then obtain u us where u: "ws1 = u # us" by (cases ws1) auto
  with t have us: "take j us = take j ws" "j \<le> length us" using nested_session.prems by (auto simp: min_def)
  obtain w2 where "spec m c (w1, ws1) = (w2, us)" using nested_session.hyps(2) u by auto
  moreover from nested_session.IH(2) [of j us w2] nested_session.prems us
  have "take j (snd (fold (spec m) ds (w2, us))) = take j us \<and> j \<le> length (snd (fold (spec m) ds (w2, us)))" by simp
  ultimately show ?case using r us by simp
qed (auto simp: saved_def)

lemma session_keeps:
  assumes "iteration_order ord" and "undo_ok D" and "nested d cs" and "d \<le> max_size D"
    and "efold (exec Z ord) (Start force # cs @ [Undo]) D = Inr D'"
  shows "indexes D' = indexes D \<and> undo_ok D'"
proof -
  let ?w = "view (indexes D)" and ?ws = "take (max_size D) (copies D)"
  note r = iteration_order.run_refines [OF assms(1,2,5)]
  have "take 1 (snd (fold (spec (max_size D)) cs (?w, ?w # ?ws))) = take 1 (?w # ?ws) \<and>
    1 \<le> length (snd (fold (spec (max_size D)) cs (?w, ?w # ?ws)))"
    by (rule nested_keeps [OF assms(3)]) (use assms(4) in auto)
  moreover obtain w1 ws1 where f: "fold (spec (max_size D)) cs (?w, ?w # ?ws) = (w1, ws1)" by (metis surj_pair)
  ultimately have "hd ws1 = ?w" by (cases ws1) auto
  with r f have "view (indexes D') = ?w" by (simp add: copied_def)
  with r view_inject show ?thesis by blast
qed

section \<open>Sample\<close>

definition plain_schema :: "(nat, unit) schema" where
  "plain_schema = \<lparr>unique_in = (\<lambda>_ _ _. False), when_inserted = (\<lambda>_ _ s. s), when_removed = (\<lambda>_ _ s. s),
     about_to_modify = (\<lambda>_ _ s. s), when_modified = (\<lambda>_ _ s. s)\<rparr>"

definition counters_db :: "(nat, unit) object_database" where
  "counters_db = \<lparr>indexes = (\<lambda>_. \<lparr>next_id = 2, objs = fmupd 0 10 (fmupd 1 11 fmempty)\<rparr>), sindexes = (), undo_stack = [],
     active_sessions = 0, disabled = False, max_size = 10\<rparr>"

lemma counters_ok: "undo_ok counters_db"
  by (auto simp: undo_ok_def counters_db_def bounded_def at_def view_def tbl_find_def split: if_splits)

text \<open>The index of escrows with its secondary index from accounts to escrows.\<close>

definition escrow_schema :: "(escrow_object, account_to_escrows) schema" where
  "escrow_schema = \<lparr>unique_in = (\<lambda>_. no_clash), when_inserted = (\<lambda>k. object_inserted (snd k)),
     when_removed = (\<lambda>k. object_removed (snd k)), about_to_modify = (\<lambda>_ _ s. s), when_modified = (\<lambda>_ _ s. s)\<rparr>"

definition listing_schema :: "(listing_object, unit) schema" where
  "listing_schema = \<lparr>unique_in = (\<lambda>_. listing_clash), when_inserted = (\<lambda>_ _ s. s), when_removed = (\<lambda>_ _ s. s),
     about_to_modify = (\<lambda>_ _ s. s), when_modified = (\<lambda>_ _ s. s)\<rparr>"

lemmas undo_eval =
  exec_def db_create_def db_modify_def db_remove_def db_insert_def record_change_def on_create_def on_modify_def on_remove_def
  start_undo_session_def undo_def merge_def merge_states_def merge_old_def merge_removed_def take_back_def set_next_ids_def no_changes_def
  tbl_eval sorted_list_of_fset.rep_eq

section \<open>Properties\<close>

text \<open>C4. The undo database implements a stack of copies: along any run of changes, sessions, undos,
  merges, commits and \<^verbatim>\<open>pop_commit\<close>s, whatever order the loops take, the database and the copies its undo
  states stand for are those of the specification.\<close>

theorem undo_refines_copies:
  assumes "iteration_order ord" and "undo_ok D" and "efold (exec Z ord) cs D = Inr D'"
  shows "undo_ok D' \<and> copied D' = fold (spec (max_size D)) cs (copied D)"
  using iteration_order.run_refines [OF assms] by simp

theorem undo_refines_copies_witness:
  "\<exists>D'. efold (exec plain_schema sorted_list_of_fset)
       [Start False, Create 0 5, Start False, Modify (0, 0) Suc, Remove (0, 1), Merge, Undo] counters_db = Inr D' \<and>
     copied D' = (view (indexes counters_db), [])"
proof -
  let ?cs = "[Start False, Create 0 5, Start False, Modify (0, 0) Suc, Remove (0, 1), Merge, Undo]"
  have "is_ok (efold (exec plain_schema sorted_list_of_fset) ?cs counters_db)"
    by (simp add: undo_eval plain_schema_def counters_db_def)
  then obtain D' where r: "efold (exec plain_schema sorted_list_of_fset) ?cs counters_db = Inr D'" by (auto simp: is_ok_iff)
  from undo_refines_copies [OF sorted_order.iteration_order_axioms counters_ok r]
  have "copied D' = (view (indexes counters_db), [])" by (simp add: copied_def copies_def saved_def counters_db_def)
  with r show ?thesis by blast
qed

text \<open>C18. A session that is undone leaves no trace: after any changes and any nested sessions, undone or
  merged, no deeper than the history the database keeps, undoing it gives back exactly the objects and
  the next ids there were when it started.\<close>

theorem session_rolls_back:
  assumes "iteration_order ord" and "undo_ok D" and "nested d cs" and "d \<le> max_size D"
    and "efold (exec Z ord) (Start force # cs @ [Undo]) D = Inr D'"
  shows "indexes D' = indexes D \<and> undo_ok D'"
  using assms by (rule session_keeps)

theorem session_rolls_back_witness:
  "\<exists>D'. efold (exec plain_schema sorted_list_of_fset)
       (Start False # [Remove (0, 1), Start False, Create 0 5, Undo, Modify (0, 0) Suc] @ [Undo]) counters_db = Inr D' \<and>
     indexes D' = indexes counters_db"
proof -
  let ?cs = "[Remove (0, 1), Start False, Create 0 5, Undo, Modify (0, 0) Suc]"
  have "is_ok (efold (exec plain_schema sorted_list_of_fset) (Start False # ?cs @ [Undo]) counters_db)"
    by (simp add: undo_eval plain_schema_def counters_db_def)
  then obtain D' where r: "efold (exec plain_schema sorted_list_of_fset) (Start False # ?cs @ [Undo]) counters_db = Inr D'"
    by (auto simp: is_ok_iff)
  have "nested (Suc 0) (Remove (0, 1) # Start False # [Create 0 5] @ Undo # [Modify (0, 0) Suc])"
    by (intro nested.intros) simp
  then have "nested 1 ?cs" by simp
  from session_rolls_back [OF sorted_order.iteration_order_axioms counters_ok this _ r] have "indexes D' = indexes counters_db"
    by (simp add: counters_db_def)
  with r show ?thesis by blast
qed

text \<open>C32. Undoing returns, and restores the copy on top of the stack, whenever no object of the earlier state
  collides in a unique key with another object of the earlier or of the current state.\<close>

theorem undo_returns:
  assumes "iteration_order ord" and "undo_ok D" and "0 < active_sessions D" and "undo_stack D = s # ss"
    and "stable_keys Z (view (indexes D)) (rewind s (view (indexes D)))"
  shows "\<exists>D'. undo Z ord D = Inr D' \<and> view (indexes D') = rewind s (view (indexes D)) \<and> undo_stack D' = ss \<and> undo_ok D'"
proof -
  let ?D = "D\<lparr>disabled := True\<rparr>"
  from assms(2,4) have f: "fits s (view (indexes ?D))" and n: "\<not> disabled D" by (simp_all add: undo_ok_def)
  have "is_ok (take_back Z ord s ?D)"
    by (rule iteration_order.take_back_returns [OF assms(1)]) (use f assms(5) in simp_all)
  then obtain D1 where t: "take_back Z ord s ?D = Inr D1" by (auto simp: is_ok_iff)
  with assms(3,4) n have u: "undo Z ord D = Inr (D1\<lparr>undo_stack := ss, disabled := False, active_sessions := active_sessions D1 - 1\<rparr>)"
    by (simp add: undo_def)
  from iteration_order.take_back_exact [OF assms(1) t _ f] iteration_order.undo_result(1) [OF assms(1,2) disjI1, OF u] u
  show ?thesis by simp
qed

theorem undo_returns_witness:
  "\<exists>D1 D2. efold (exec plain_schema sorted_list_of_fset) [Start False, Create 0 5, Remove (0, 1)] counters_db = Inr D1 \<and>
     undo plain_schema sorted_list_of_fset D1 = Inr D2 \<and> view (indexes D2) = view (indexes counters_db)"
proof -
  let ?run = "efold (exec plain_schema sorted_list_of_fset) [Start False, Create 0 5, Remove (0, 1)] counters_db"
  have "is_ok ?run" by (simp add: undo_eval plain_schema_def counters_db_def)
  then obtain D1 where r: "?run = Inr D1" by (auto simp: is_ok_iff)
  note f = iteration_order.run_refines [OF sorted_order.iteration_order_axioms counters_ok r]
  have "snd (copied D1) = [view (indexes counters_db)]"
    unfolding f [THEN conjunct2, THEN conjunct1] by (simp add: copied_def copies_def saved_def counters_db_def)
  then have c: "rewinds (undo_stack D1) (view (indexes D1)) = [view (indexes counters_db)]" by (simp add: copied_def copies_def)
  then obtain s ss where "undo_stack D1 = s # ss" by (cases "undo_stack D1") auto
  with c have s: "undo_stack D1 = [s]" "rewind s (view (indexes D1)) = view (indexes counters_db)" by simp_all
  have "0 < active_sessions D1" using r by (auto simp: undo_eval plain_schema_def counters_db_def)
  moreover have "stable_keys plain_schema (view (indexes D1)) (rewind s (view (indexes D1)))"
    by (simp add: stable_keys_def plain_schema_def)
  ultimately obtain D2 where "undo plain_schema sorted_list_of_fset D1 = Inr D2" "view (indexes D2) = rewind s (view (indexes D1))"
    using undo_returns [OF sorted_order.iteration_order_axioms _ _ s(1)] f by blast
  with r s(2) show ?thesis by auto
qed

text \<open>C33. Undoing can fail: a session in which a listing changes its hash and a new listing takes the old
  one cannot be undone, because the first loop of \<^verbatim>\<open>undo\<close> gives the old hash back while the new listing still
  has it, and the index of hashes is unique.\<close>

theorem undo_violates_unique:
  assumes "iteration_order ord" and "undo_ok D" and "unique_in Z i = listing_clash"
    and "at (view (indexes D)) (i, n) = Some l" and "lst_hash new = lst_hash l"
    and "efold (exec Z ord) [Start force, Modify (i, n) (\<lambda>l. l\<lparr>lst_hash := h\<rparr>), Create i new] D = Inr D'"
  shows "undo Z ord D' = Inl Unique_violation"
proof -
  let ?s = "no_changes\<lparr>old_values := fmupd (i, n) l fmempty\<rparr>"
  from assms(2) have e: "\<not> disabled D" by (simp add: undo_ok_def)
  from assms(6) obtain D2 where m: "db_modify Z (i, n) (\<lambda>l. l\<lparr>lst_hash := h\<rparr>) (start_undo_session force D) = Inr D2"
    and c: "db_create Z i new D2 = Inr D'" by (auto simp: exec_def)
  from db_modify_result [OF m] assms(4) e have D2: "undo_stack D2 = on_modify (i, n) l no_changes # take (max_size D) (undo_stack D)"
    "at (view (indexes D2)) (i, n) = Some (l\<lparr>lst_hash := h\<rparr>)" "\<not> disabled D2" "active_sessions D2 = Suc (active_sessions D)"
    by (auto simp: start_undo_session_def record_change_def)
  from c obtain j t where t: "tbl_create (unique_in Z i) (indexes D2 i) new = Inr (j, t)"
    and D': "undo_stack D' = on_create (i, j) (on_modify (i, n) l no_changes) # take (max_size D) (undo_stack D)"
      "indexes D' = (indexes D2)(i := t)" "\<not> disabled D'" "active_sessions D' = Suc (active_sessions D)"
    using D2 by (auto simp: db_create_def record_change_def)
  let ?s = "on_create (i, j) (on_modify (i, n) l no_changes)"
  have old: "old_values ?s = fmupd (i, n) l fmempty" by (simp add: on_create_def on_modify_def no_changes_def)
  have "tbl_find (indexes D2 i) n = Some (l\<lparr>lst_hash := h\<rparr>)" using D2(2) by (simp add: at_view)
  with tbl_create_find [OF t] tbl_create_fresh [OF t] have f: "tbl_find t n = Some (l\<lparr>lst_hash := h\<rparr>)" "tbl_find t j = Some new" "j \<noteq> n"
    by auto
  have "tbl_modify listing_clash t n (\<lambda>_. l) = Inl Unique_violation"
    using f assms(5) by (simp add: tbl_modify_def tbl_get_def fmpred_iff tbl_find_def listing_clash_def) metis
  then have "db_modify Z (i, n) (\<lambda>_. l) (D'\<lparr>disabled := True\<rparr>) = Inl Unique_violation"
    using f(1) by (simp add: db_modify_def D' assms(3) tbl_get_def Let_def)
  moreover have "ord {|(i, n)|} = [(i, n)]"
    using assms(1) by (rule iteration_order.ord_singleton)
  ultimately have "take_back Z ord ?s (D'\<lparr>disabled := True\<rparr>) = Inl Unique_violation"
    by (simp add: take_back_def old)
  with D' show ?thesis by (simp add: undo_def)
qed

theorem undo_violates_unique_witness:
  "\<exists>D'. efold (exec listing_schema sorted_list_of_fset)
       [Start False, Modify (0, 0) (\<lambda>l. l\<lparr>lst_hash := ''g''\<rparr>), Create 0 (the (tbl_find (listings sale_db) 0))]
       \<lparr>indexes = (\<lambda>_. listings sale_db), sindexes = (), undo_stack = [], active_sessions = 0, disabled = False, max_size = 10\<rparr> = Inr D' \<and>
     undo listing_schema sorted_list_of_fset D' = Inl Unique_violation"
proof -
  let ?D = "\<lparr>indexes = (\<lambda>_. listings sale_db), sindexes = (), undo_stack = [], active_sessions = 0, disabled = False, max_size = 10\<rparr>"
  let ?l = "the (tbl_find (listings sale_db) 0)"
  let ?cs = "[Start False, Modify (0, 0) (\<lambda>l. l\<lparr>lst_hash := ''g''\<rparr>), Create 0 ?l]"
  have "is_ok (efold (exec listing_schema sorted_list_of_fset) ?cs ?D)"
    by (simp add: undo_eval listing_schema_def sale_db_def listing_clash_def)
  then obtain D' where r: "efold (exec listing_schema sorted_list_of_fset) ?cs ?D = Inr D'" by (auto simp: is_ok_iff)
  have ok: "undo_ok ?D" by (auto simp: undo_ok_def bounded_def at_def view_def tbl_find_def sale_db_def split: if_splits)
  have u: "unique_in listing_schema 0 = listing_clash" by (simp add: listing_schema_def)
  have a: "at (view (indexes ?D)) (0, 0) = Some ?l" by (simp add: at_view sale_db_def tbl_find_def)
  show ?thesis
    using r undo_violates_unique [OF sorted_order.iteration_order_axioms ok u a refl r] by blast
qed

text \<open>C34. Undoing a removal does not undo what the removal did to the secondary indices: after it the escrow
  is back in the database, but the index from accounts to escrows does not list it any more.\<close>

theorem undo_forgets_secondary_index:
  assumes "iteration_order ord" and "undo_ok D" and "at (view (indexes D)) (i, n) = Some e"
    and "index_exact (indexes D i) (sindexes D)"
    and "efold (exec escrow_schema ord) [Start force, Remove (i, n), Undo] D = Inr D'"
  shows "indexes D' = indexes D \<and> \<not> indexed (sindexes D') (esc_buyer e) n \<and> \<not> index_exact (indexes D' i) (sindexes D')"
proof -
  have "nested 0 [Remove (i, n)]" by (intro nested.intros)
  from session_keeps [OF assms(1,2) this] assms(5) have "indexes D' = indexes D" by simp
  from assms(2) have e: "\<not> disabled D" by (simp add: undo_ok_def)
  from assms(5) obtain D1 where r: "db_remove escrow_schema (i, n) (start_undo_session force D) = Inr D1"
    and u: "undo escrow_schema ord D1 = Inr D'" by (auto simp: exec_def)
  from r assms(3) e have s: "sindexes D1 = object_removed n e (sindexes D)"
    "undo_stack D1 = on_remove (i, n) e no_changes # take (max_size D) (undo_stack D)"
    by (auto simp: db_remove_def at_view start_undo_session_def record_change_def escrow_schema_def Let_def)
  let ?s = "on_remove (i, n) e no_changes"
  have "new_ids ?s = {||}" "old_values ?s = fmempty" by (simp_all add: on_remove_def no_changes_def)
  moreover have "ord {||} = []" using iteration_order.ord_set [OF assms(1), of "{||}"] by simp
  moreover have "efold (\<lambda>k. db_insert escrow_schema k (g k)) ks E = Inr E' \<Longrightarrow> sindexes E' = sindexes E" for g ks E E'
    by (induction ks arbitrary: E) (auto simp: db_insert_def)
  ultimately have "sindexes D' = sindexes D1"
    using u s(2) by (fastforce simp: undo_def take_back_def)
  moreover have "\<not> indexed (object_removed n e (sindexes D)) (esc_buyer e) n" by (simp add: object_removed_def index_facts)
  ultimately have lost: "\<not> indexed (sindexes D') (esc_buyer e) n" using s(1) by simp
  then have "\<not> index_exact (indexes D' i) (sindexes D')"
    using assms(3) \<open>indexes D' = indexes D\<close> by (auto simp: index_exact_def at_view party_def)
  with lost \<open>indexes D' = indexes D\<close> show ?thesis by simp
qed

theorem undo_forgets_secondary_index_witness:
  "\<exists>D'. efold (exec escrow_schema sorted_list_of_fset) [Start False, Remove (0, 0), Undo]
       \<lparr>indexes = (\<lambda>_. escrows open_db), sindexes = object_inserted 0 (new_escrow sale_escrow) fmempty, undo_stack = [],
        active_sessions = 0, disabled = False, max_size = 10\<rparr> = Inr D' \<and>
     tbl_find (indexes D' 0) 0 = Some (new_escrow sale_escrow) \<and> \<not> indexed (sindexes D') 6 0"
proof -
  let ?D = "\<lparr>indexes = (\<lambda>_. escrows open_db), sindexes = object_inserted 0 (new_escrow sale_escrow) fmempty, undo_stack = [],
        active_sessions = 0, disabled = False, max_size = 10\<rparr>"
  have "is_ok (efold (exec escrow_schema sorted_list_of_fset) [Start False, Remove (0, 0), Undo] ?D)"
    by (simp add: undo_eval escrow_schema_def open_db_def)
  then obtain D' where r: "efold (exec escrow_schema sorted_list_of_fset) [Start False, Remove (0, 0), Undo] ?D = Inr D'"
    by (auto simp: is_ok_iff)
  have ok: "undo_ok ?D" by (auto simp: undo_ok_def bounded_def at_def view_def tbl_find_def open_db_def split: if_splits)
  have a: "at (view (indexes ?D)) (0, 0) = Some (new_escrow sale_escrow)" by (simp add: at_view open_db_def tbl_find_def)
  have "tbl_create no_clash empty_table (new_escrow sale_escrow) = Inr (0, escrows open_db)"
    by (simp add: open_db_def empty_table_def tbl_create_def tbl_insert_def no_clash_def)
  then have "index_exact (escrows open_db) (object_inserted 0 (new_escrow sale_escrow) fmempty)"
    by (rule object_inserted_exact [rotated]) (simp add: index_exact_def no_empty_sets_def indexed_def)
  then have "index_exact (indexes ?D 0) (sindexes ?D)" by simp
  from undo_forgets_secondary_index [OF sorted_order.iteration_order_axioms ok a this r]
  have "tbl_find (indexes D' 0) 0 = Some (new_escrow sale_escrow)" "\<not> indexed (sindexes D') 6 0"
    using a by (simp_all add: at_view new_escrow_def sale_escrow_def)
  with r show ?thesis by blast
qed

end
