(* ===== verification/Spec2Isabelle.thy ===== *)
theory Spec2Isabelle
  imports Push_Block Undo_Database
begin

section \<open>Verification of the OmniCoin2 chain library\<close>

text \<open>
  OmniCoin2 is the node of the OmniBazaar marketplace, a chain of the Graphene family. Its state is a database of
  objects (accounts, balances, assets, listings, escrows, witnesses, \dots). A block carries transactions, a
  transaction carries operations, and every operation has an evaluator that checks it (\<^verbatim>\<open>do_evaluate\<close>) and
  changes the database (\<^verbatim>\<open>do_apply\<close>). Sessions of an undo database take changes back when a transaction or block
  fails, and a database of forks holds the recent blocks, so that the node can switch to a longer branch. This
  development models these parts of \<^verbatim>\<open>src/libraries/chain\<close> and \<^verbatim>\<open>src/libraries/db\<close>.

  \<^bold>\<open>Conventions.\<close> An exception is a value: functions return \<open>error + 'a\<close>, the type \<open>result\<close> of theory \<open>Prelude\<close>,
  with \<open>ebind\<close> for sequencing and \<open>fc_assert\<close> for \<^verbatim>\<open>FC_ASSERT\<close>. Object tables are finite maps with a counter for new
  numbers (\<open>tbl_create\<close>, \<open>tbl_modify\<close>, \dots); a unique index of the code is a predicate on two objects that
  clash. Amounts are \<open>int\<close>, and the checked arithmetic of \<^verbatim>\<open>fc::safe\<close> decides when it throws; words are kept where the
  code wraps around. A loop that may not end is a \<open>partial_function\<close> into \<open>option\<close>, and its termination is a
  theorem; no fuel is used. Logging, and the list of applied operations that is kept for plugins, are left out.

  \<^bold>\<open>Parameters.\<close> The submodule \<^verbatim>\<open>fc\<close> and the \<^verbatim>\<open>boost\<close> library are not part of the repository. What the code uses
  of them is an argument: \<open>fc_lib\<close> (checked arithmetic, 128-bit integers, times) with the laws \<open>fc_laws\<close>,
  \<open>crypto_lib\<close> (digests, recovery of keys), \<open>string_lib\<close>, \<open>block_lib\<close> (hashes of headers and Merkle nodes, the
  reversal of bytes) with \<open>block_laws\<close>, \<open>pack_lib\<close> (serialisation), an order of iteration for the
  unordered containers (\<open>iteration_order\<close>) and the first element of an ordered index (\<open>ordered_index\<close>). Every
  one of these contracts is interpreted: \<open>checked\<close> by an arithmetic that throws on overflow, \<open>sample_block\<close> by the
  byte reversal on words, \<open>by_key\<close> by the least key, \<open>sorted_order\<close> by sorting.

  \<^bold>\<open>The theories and the code they model.\<close>

  \<^item> \<open>Prelude\<close>: results, tables (\<^verbatim>\<open>db/generic_index.hpp\<close>, \<^verbatim>\<open>db/index.hpp\<close>), the parameters and their laws, and the
    lemmas on finite maps and loops that the other theories share.
  \<^item> \<open>Asset\<close>, \<open>Price\<close>, \<open>Fee_Schedule\<close>: \<^verbatim>\<open>protocol/asset.cpp\<close> and \<^verbatim>\<open>protocol/fee_schedule.cpp\<close>. The order of prices is
    that of the ratios; converting back and forth gains nothing; a fee in another asset is the
    least sufficient amount, whichever side of the exchange rate the core coin is on.
  \<^item> \<open>Authority\<close>: authorities and \<^verbatim>\<open>sign_state\<close> of \<^verbatim>\<open>protocol/transaction.cpp\<close>. The check with its cache and depth limit
    refines a specification by weights.
  \<^item> \<open>Vesting\<close>, \<open>Vesting_Ops\<close>: \<^verbatim>\<open>vesting_balance_object.cpp\<close> and the operations on vesting balances. A withdrawal is
    allowed exactly up to the vested amount.
  \<^item> \<open>Chain_State\<close>, \<open>Balances\<close>, \<open>Evaluator\<close>: the objects, \<^verbatim>\<open>db_balance.cpp\<close>, the splitting of fees in
    \<^verbatim>\<open>account_object.cpp\<close>, and \<^verbatim>\<open>evaluator.cpp\<close>. \<open>asset_gap\<close> is the difference between the supply of an asset and
    what all holders have; the locales \<open>ledger\<close> and \<open>conserving_operation\<close> state that it does not change.
  \<^item> \<open>Ob_Fees\<close>, \<open>Reputation\<close>, \<open>Listing\<close>, \<open>Escrow\<close>, \<open>Transfers\<close>, \<open>Bonus\<close>, \<open>Exchange\<close>: the marketplace in
    \<^verbatim>\<open>chain/omnibazaar\<close>, and transfers. Each operation has its validation, fee, evaluation and application; the
    lemmas give its effect on every balance and the invariants of its objects.
  \<^item> \<open>Operations\<close>, \<open>Transactions\<close>: the variant of operations with its visitors, and \<^verbatim>\<open>_apply_transaction\<close>. A
    transaction is authorised by its signers, keeps the invariant \<open>chain_ok\<close> and every gap, and is not applied twice.
  \<^item> \<open>Ordered_Index\<close>, \<open>Housekeeping\<close>: the loops of \<^verbatim>\<open>db_update.cpp\<close> over expired escrows and listings, with the one case
    in which a loop never ends.
  \<^item> \<open>Undo_Database\<close>: \<^verbatim>\<open>undo_database.cpp\<close> with the records of changes. It refines a stack of copies of the database;
    two defects are shown by theorems.
  \<^item> \<open>Blocks\<close>: \<^verbatim>\<open>protocol/block.cpp\<close>, \<^verbatim>\<open>db_witness_schedule.cpp\<close> and the block part of \<^verbatim>\<open>db_update.cpp\<close> and \<^verbatim>\<open>db_block.cpp\<close>.
    A block extends the chain by one and, up to the maintenance, accounts for every coin; the schedule is fair; blocks become irreversible by
    confirmation; a Merkle root binds its transactions.
  \<^item> \<open>Fork_Database\<close>: \<^verbatim>\<open>fork_database.cpp\<close>, with the items in an explicit store and weak pointers that yield the items
    somebody owns. The tree is well-formed along every run, pushes that throw included; the branches of two blocks are found and meet.
  \<^item> \<open>Block_Database\<close>: \<^verbatim>\<open>block_database.cpp\<close> over lists of bytes and index entries. A stored block is found again, and after
    a crash the search from the end of the index recovers the last intact block.
  \<^item> \<open>Push_Block\<close>: \<^verbatim>\<open>_push_block\<close>, \<^verbatim>\<open>pop_block\<close>, \<^verbatim>\<open>_push_transaction\<close> of \<^verbatim>\<open>db_block.cpp\<close> and the restoring of pending
    transactions of \<^verbatim>\<open>db_with.hpp\<close>. It stands on the fork database, the block database and, through the contract
    \<open>chain_laws\<close>, on what a block does; \<open>model_chain_laws\<close> shows that the blocks of theory \<open>Blocks\<close> keep that contract.
    Pushing a block is all or nothing; two defects of the handling of forks are shown by theorems.

  \<^bold>\<open>Bounds.\<close> The theorems that involve the number of a block assume that it stays below \<open>2 ^ 32\<close>, where the code
  wraps around. \<open>push_block_all_or_nothing\<close> assumes that no two of the blocks in play have the same id, which stands for the
  absence of hash collisions. The undo history in \<open>Push_Block\<close> is the stack of copies that \<open>undo_refines_copies\<close>
  justifies; taking back a session is assumed to succeed there, see \<open>undo_violates_unique\<close> for when it does not. That the
  coins are conserved is proved of transactions and blocks in which the publisher fees of listings are in the core coin
  (\<open>fees_in_core\<close>); \<open>unrequested_fee_mints_core\<close> shows what happens otherwise. The streams of the block database
  are taken to be good at the start of each operation; well-formed files keep them so.

  \<^bold>\<open>Not modelled.\<close> The end of \<^verbatim>\<open>_apply_block\<close> calls the maintenance of the chain (\<^verbatim>\<open>db_maint.cpp\<close>: votes, budgets, fee
  payouts) and the clearing of orders, proposals and feeds, which are not modelled, so that \<open>do_apply_block\<close> ends after the
  update of the last irreversible block and \<open>Housekeeping\<close> stands for itself. The market engine, the operations on
  accounts, assets, proposals, workers, committee members and witnesses, and \<^verbatim>\<open>_generate_block\<close> are not modelled either.
  Confidential transfers rest on blinding primitives of \<^verbatim>\<open>fc\<close>. The network, the wallet, the API, the plugins and the programs
  are input and output around the chain library, as are opening and replaying the database and reading the genesis file.
\<close>

end
